(* ===== verification/Prelude.thy ===== *)
theory Prelude
  imports Main "HOL-Library.Word" "HOL-Library.Log_Nat"
begin

text \<open>
  What every component of the model shares: the result type of Go functions that return
  a value and an error, Go's fixed-width integers, generic list lemmas and the collections
  of rewrite rules the component theories extend.
\<close>

unbundle bit_operations_syntax

named_theorems result_simps \<open>rewrite rules for sequenced fallible computations\<close>
named_theorems go_int_simps \<open>rewrite rules for Go integer conversions inside their range\<close>

section \<open>Results\<close>

text \<open>
  A Go function returning \<open>(value, error)\<close> is a function into \<open>'e + 'a\<close>: \<open>Inl\<close>
  is the non-nil error, \<open>Inr\<close> the value returned with a nil error.
\<close>

definition bind_res :: "'e + 'a \<Rightarrow> ('a \<Rightarrow> 'e + 'b) \<Rightarrow> 'e + 'b" where
  "bind_res m f = (case m of Inl e \<Rightarrow> Inl e | Inr a \<Rightarrow> f a)"

definition map_err :: "('e \<Rightarrow> 'f) \<Rightarrow> 'e + 'a \<Rightarrow> 'f + 'a" where
  "map_err h m = (case m of Inl e \<Rightarrow> Inl (h e) | Inr a \<Rightarrow> Inr a)"

lemma bind_res_simps [simp, result_simps]:
  "bind_res (Inl e) f = Inl e"
  "bind_res (Inr a) f = f a"
  by (simp_all add: bind_res_def)

lemma map_err_simps [simp, result_simps]:
  "map_err h (Inl e) = Inl (h e)"
  "map_err h (Inr a) = Inr a"
  by (simp_all add: map_err_def)

lemma bind_res_eq_Inr [result_simps]:
  "bind_res m f = Inr b \<longleftrightarrow> (\<exists>a. m = Inr a \<and> f a = Inr b)"
  by (cases m) simp_all

lemma bind_res_eq_Inl [result_simps]:
  "bind_res m f = Inl e \<longleftrightarrow> m = Inl e \<or> (\<exists>a. m = Inr a \<and> f a = Inl e)"
  by (cases m) simp_all

lemma map_err_eq_Inr [simp]: "map_err h m = Inr a \<longleftrightarrow> m = Inr a"
  by (cases m) simp_all

lemma map_err_eq_Inl [result_simps]:
  "map_err h m = Inl f \<longleftrightarrow> (\<exists>e. m = Inl e \<and> f = h e)"
  by (cases m) auto

text \<open>
  The loops \<open>for i, x := range xs\<close> that append one result per element and return at the
  first error: \<open>traverse f i xs\<close> runs \<open>f\<close> on the elements with their indexes from \<open>i\<close> on.
\<close>

fun traverse :: "(nat \<Rightarrow> 'a \<Rightarrow> 'e + 'b) \<Rightarrow> nat \<Rightarrow> 'a list \<Rightarrow> 'e + 'b list" where
  "traverse f i [] = Inr []"
| "traverse f i (x # xs) =
     bind_res (f i x) (\<lambda>y. bind_res (traverse f (Suc i) xs) (\<lambda>ys. Inr (y # ys)))"

lemma traverse_eq_Inr:
  "traverse f i xs = Inr ys \<longleftrightarrow>
     length ys = length xs \<and> (\<forall>j < length xs. f (i + j) (xs ! j) = Inr (ys ! j))"
proof (induction xs arbitrary: i ys)
  case Nil
  then show ?case by auto
next
  case (Cons x xs)
  show ?case
    by (cases ys)
      (auto simp: bind_res_eq_Inr Cons.IH all_conj_distrib less_Suc_eq_0_disj nth_Cons split: nat.splits)
qed

lemma traverse_length: "traverse f i xs = Inr ys \<Longrightarrow> length ys = length xs"
  by (simp add: traverse_eq_Inr)

lemma traverse_nth:
  "traverse f 0 xs = Inr ys \<Longrightarrow> j < length xs \<Longrightarrow> f j (xs ! j) = Inr (ys ! j)"
  by (simp add: traverse_eq_Inr)

text \<open>The error reported is the one of the first element that fails.\<close>

lemma traverse_eq_Inl:
  "traverse f i xs = Inl e \<longleftrightarrow>
     (\<exists>j < length xs. f (i + j) (xs ! j) = Inl e \<and> (\<forall>k < j. \<exists>y. f (i + k) (xs ! k) = Inr y))"
proof (induction xs arbitrary: i)
  case Nil
  then show ?case by simp
next
  case (Cons x xs)
  show ?case
  proof (cases "f i x")
    case (Inl e')
    then have "(\<exists>j < length (x # xs). f (i + j) ((x # xs) ! j) = Inl e \<and>
        (\<forall>k < j. \<exists>y. f (i + k) ((x # xs) ! k) = Inr y)) \<longleftrightarrow> e' = e"
      by (auto simp: less_Suc_eq_0_disj intro: exI [of _ 0])
    with Inl show ?thesis by simp
  next
    case (Inr y)
    have "traverse f i (x # xs) = Inl e \<longleftrightarrow> traverse f (Suc i) xs = Inl e"
      using Inr by (simp add: bind_res_eq_Inl)
    also have "\<dots> \<longleftrightarrow> (\<exists>j < length (x # xs). f (i + j) ((x # xs) ! j) = Inl e \<and>
        (\<forall>k < j. \<exists>y. f (i + k) ((x # xs) ! k) = Inr y))"
      unfolding Cons.IH using Inr by (simp add: Ex_less_Suc2 All_less_Suc2)
    finally show ?thesis .
  qed
qed

section \<open>Go integers\<close>

text \<open>
  Go's \<open>int\<close> and \<open>int64\<close> are 64 bits wide on the platforms the client is built for. A
  field of type \<open>int\<close> is a HOL \<open>int\<close>; where the code computes with it, the result is
  wrapped by \<open>wrap64\<close>, two's complement. Unsigned fields are words.
\<close>

type_synonym u8 = "8 word"
type_synonym u16 = "16 word"
type_synonym u32 = "32 word"
type_synonym u64 = "64 word"

definition wrap64 :: "int \<Rightarrow> int" where
  "wrap64 x = signed_take_bit 63 x"

definition int64_range :: "int \<Rightarrow> bool" where
  "int64_range x \<longleftrightarrow> - (2 ^ 63) \<le> x \<and> x < 2 ^ 63"

lemma wrap64_id [go_int_simps]: "int64_range x \<Longrightarrow> wrap64 x = x"
  by (simp add: wrap64_def int64_range_def signed_take_bit_int_eq_self)

lemma wrap64_range [simp]: "int64_range (wrap64 x)"
  using signed_take_bit_int_greater_eq_minus_exp [of 63 x] signed_take_bit_int_less_exp [of 63 x]
  by (simp add: wrap64_def int64_range_def)

lemma wrap64_cong: "wrap64 x = wrap64 y \<longleftrightarrow> x mod 2 ^ 64 = y mod 2 ^ 64"
  by (simp add: wrap64_def signed_take_bit_eq_iff_take_bit_eq take_bit_eq_mod)

text \<open>Go's \<open>%\<close> truncates towards zero, so it has the sign of the dividend.\<close>

definition go_rem :: "int \<Rightarrow> int \<Rightarrow> int" where
  "go_rem a b = (if a < 0 then - ((- a) mod \<bar>b\<bar>) else a mod \<bar>b\<bar>)"

lemma go_rem_2_cases: "go_rem a 2 = (if even a then 0 else if a < 0 then -1 else 1)"
  by (auto simp: go_rem_def mod_2_eq_odd)

lemma unat_byte_less: "unat (w :: u8) < 256"
  using unsigned_less [of w, where ?'a = nat] by simp

section \<open>Lists\<close>

lemma distinct_map_upt_nth: "distinct xs \<longleftrightarrow> (\<forall>i < length xs. \<forall>j < i. xs ! i \<noteq> xs ! j)"
  unfolding distinct_conv_nth by (metis nat_neq_iff order_less_trans)

lemma sum_list_cong_nth:
  "length xs = length ys \<Longrightarrow> (\<forall>i < length xs. f (xs ! i) = g (ys ! i)) \<Longrightarrow>
   sum_list (map f xs) = sum_list (map g ys)"
  by (metis (no_types, lifting) length_map nth_equalityI nth_map)

end
