(* ===== verification/Float64.thy ===== *)
theory Float64
  imports Complex_Main Prelude
begin

text \<open>
  Go's \<open>float64\<close>: IEEE 754 binary64 with round to nearest, ties to even. A finite value is
  the rational it denotes; the two zeros are one value (no modelled operation tells them
  apart). Every arithmetic operation rounds the exact rational result with \<open>rnd64\<close>, so the
  rounding errors of the code are in the model. The locale \<open>rounding\<close> states what client
  proofs use of a rounding function, and is interpreted on \<open>rnd64\<close>.
\<close>

section \<open>Rounding to nearest\<close>

definition rne :: "rat \<Rightarrow> int" where
  "rne y = (let f = \<lfloor>y\<rfloor>; d = y - of_int f in
     if d < 1 / 2 then f else if 1 / 2 < d then f + 1 else if even f then f else f + 1)"

lemma rne_of_int [simp]: "rne (of_int n) = n"
  by (simp add: rne_def)

lemma rne_ge_floor: "\<lfloor>y\<rfloor> \<le> rne y"
  by (simp add: rne_def Let_def)

lemma rne_le_floor: "rne y \<le> \<lfloor>y\<rfloor> + 1"
  by (simp add: rne_def Let_def)

lemma rne_mono: "x \<le> y \<Longrightarrow> rne x \<le> rne y"
proof (cases "\<lfloor>x\<rfloor> = \<lfloor>y\<rfloor>")
  case True
  then show "x \<le> y \<Longrightarrow> rne x \<le> rne y"
    by (auto simp: rne_def Let_def)
next
  case False
  assume "x \<le> y"
  then have "\<lfloor>x\<rfloor> \<le> \<lfloor>y\<rfloor>" by (rule floor_mono)
  with False show "rne x \<le> rne y"
    using rne_ge_floor [of y] rne_le_floor [of x] by linarith
qed

lemma rne_error: "\<bar>of_int (rne y) - y\<bar> \<le> 1 / 2"
proof -
  define f where "f = \<lfloor>y\<rfloor>"
  have "of_int f \<le> y" "y < of_int f + 1" unfolding f_def by linarith+
  then show ?thesis by (simp add: rne_def Let_def abs_le_iff flip: f_def)
qed

lemma rne_nonneg: "0 \<le> y \<Longrightarrow> 0 \<le> rne y"
  using rne_mono [of 0 y] rne_of_int [of 0] by simp

section \<open>Binary exponent and quantum\<close>

abbreviation pow2 :: "int \<Rightarrow> rat" where
  "pow2 k \<equiv> 2 powi k"

definition binexp :: "rat \<Rightarrow> int" where
  "binexp x = (if 1 \<le> x then bitlen \<lfloor>x\<rfloor> - 1 else - bitlen (\<lceil>1 / x\<rceil> - 1))"

lemma pow2_pos [simp]: "0 < pow2 k"
  by (simp add: power_int_def)

lemma pow2_nonneg [simp]: "0 \<le> pow2 k"
  by (simp add: less_imp_le)

lemma pow2_not_neg [simp]: "\<not> pow2 k < 0"
  by (meson not_less_iff_gr_or_eq pow2_pos)

lemma pow2_add: "pow2 (m + n) = pow2 m * pow2 n"
  by (simp add: power_int_add)

lemma pow2_neg: "0 \<le> b \<Longrightarrow> pow2 (- b) = 1 / 2 ^ nat b"
  by (simp add: power_int_minus_divide power_int_nonneg_exp)

lemma pow2_mono: "m \<le> n \<Longrightarrow> pow2 m \<le> pow2 n"
  by (simp add: power_int_increasing)

lemma pow2_less_iff: "pow2 m < pow2 n \<longleftrightarrow> m < n"
  by (meson linorder_not_le pow2_mono power_int_strict_increasing one_less_numeral_iff semiring_norm(76))

lemma pow2_diff_int: "n \<le> m \<Longrightarrow> pow2 m = of_int (2 ^ nat (m - n)) * pow2 n"
  using pow2_add [of "m - n" n] by (simp add: power_int_def)

lemma binexp_bounds:
  assumes "0 < x"
  shows "pow2 (binexp x) \<le> x \<and> x < pow2 (binexp x + 1)"
proof (cases "1 \<le> x")
  case True
  let ?n = "\<lfloor>x\<rfloor>"
  have pos: "0 < ?n" using True by linarith
  have len: "1 \<le> bitlen ?n" using pos by (simp add: bitlen_alt_def)
  from bitlen_bounds [OF pos] have lo: "2 ^ nat (bitlen ?n - 1) \<le> ?n" and hi: "?n + 1 \<le> 2 ^ nat (bitlen ?n)"
    by auto
  have "(2::rat) ^ nat (bitlen ?n - 1) \<le> of_int ?n"
    using lo by (metis of_int_le_iff of_int_numeral of_int_power)
  moreover have "of_int (?n + 1) \<le> (2::rat) ^ nat (bitlen ?n)"
    using hi by (metis of_int_le_iff of_int_numeral of_int_power)
  moreover have "of_int ?n \<le> x" "x < of_int (?n + 1)" by linarith+
  ultimately have "2 ^ nat (bitlen ?n - 1) \<le> x" "x < 2 ^ nat (bitlen ?n)" by linarith+
  then show ?thesis
    using True len by (simp add: binexp_def power_int_def)
next
  case False
  let ?c = "\<lceil>1 / x\<rceil> - 1"
  have inv: "1 < 1 / x" using False assms by simp
  then have pos: "0 < ?c" by linarith
  have len: "1 \<le> bitlen ?c" using pos by (simp add: bitlen_alt_def)
  from bitlen_bounds [OF pos] have lo: "2 ^ nat (bitlen ?c - 1) \<le> ?c" and hi: "?c + 1 \<le> 2 ^ nat (bitlen ?c)"
    by auto
  have "(2::rat) ^ nat (bitlen ?c - 1) \<le> of_int ?c"
    using lo by (metis of_int_le_iff of_int_numeral of_int_power)
  moreover have "of_int (?c + 1) \<le> (2::rat) ^ nat (bitlen ?c)"
    using hi by (metis of_int_le_iff of_int_numeral of_int_power)
  moreover have "of_int ?c < 1 / x" "1 / x \<le> of_int (?c + 1)" by linarith+
  ultimately have "2 ^ nat (bitlen ?c - 1) < 1 / x" "1 / x \<le> 2 ^ nat (bitlen ?c)"
    by linarith+
  then have "x < 1 / 2 ^ nat (bitlen ?c - 1)" "1 / 2 ^ nat (bitlen ?c) \<le> x"
    using assms by (simp_all add: field_simps)
  then have "x < pow2 (- (bitlen ?c - 1))" "pow2 (- bitlen ?c) \<le> x"
    using len by (simp_all only: pow2_neg)
  moreover have "binexp x = - bitlen ?c" "- bitlen ?c + 1 = - (bitlen ?c - 1)"
    using False by (simp_all add: binexp_def)
  ultimately show ?thesis by (simp only:)
qed

lemma binexp_mono: "0 < x \<Longrightarrow> x \<le> y \<Longrightarrow> binexp x \<le> binexp y"
  using binexp_bounds [of x] binexp_bounds [of y] pow2_less_iff [of "binexp x" "binexp y + 1"]
  by linarith

lemma binexp_le: "0 < x \<Longrightarrow> x < pow2 (k + 1) \<Longrightarrow> binexp x \<le> k"
  using binexp_bounds [of x] pow2_less_iff [of "binexp x" "k + 1"] by linarith

definition qexp :: "rat \<Rightarrow> int" where
  "qexp x = max (binexp x - 52) (- 1074)"

lemma qexp_mono: "0 < x \<Longrightarrow> x \<le> y \<Longrightarrow> qexp x \<le> qexp y"
  using binexp_mono [of x y] by (simp add: qexp_def)

definition rnd_pos :: "rat \<Rightarrow> rat" where
  "rnd_pos x = of_int (rne (x / pow2 (qexp x))) * pow2 (qexp x)"

definition rnd64 :: "rat \<Rightarrow> rat" where
  "rnd64 x = (if x = 0 then 0 else if 0 < x then rnd_pos x else - rnd_pos (- x))"


subsection \<open>Multiples of a power of two bound their roundings\<close>

lemma rnd_pos_le:
  assumes "0 < x" "x \<le> of_int m * pow2 k" "qexp x \<le> k"
  shows "rnd_pos x \<le> of_int m * pow2 k"
proof -
  let ?q = "pow2 (qexp x)" and ?m = "m * 2 ^ nat (k - qexp x)"
  have eq: "of_int m * pow2 k = of_int ?m * ?q"
    using pow2_diff_int [OF assms(3)] by simp
  have "x / ?q \<le> of_int ?m"
    using assms(2) unfolding eq by (simp add: pos_divide_le_eq)
  then have "rne (x / ?q) \<le> ?m"
    using rne_mono rne_of_int by metis
  then have "of_int (rne (x / ?q)) \<le> (of_int ?m :: rat)"
    by (simp only: of_int_le_iff)
  then show ?thesis
    unfolding eq rnd_pos_def by (rule mult_right_mono) simp
qed

lemma rnd_pos_ge:
  assumes "0 < x" "of_int m * pow2 k \<le> x" "qexp x \<le> k"
  shows "of_int m * pow2 k \<le> rnd_pos x"
proof -
  let ?q = "pow2 (qexp x)" and ?m = "m * 2 ^ nat (k - qexp x)"
  have eq: "of_int m * pow2 k = of_int ?m * ?q"
    using pow2_diff_int [OF assms(3)] by simp
  have "of_int ?m \<le> x / ?q"
    using assms(2) unfolding eq by (simp add: pos_le_divide_eq)
  then have "?m \<le> rne (x / ?q)"
    using rne_mono rne_of_int by metis
  then have "(of_int ?m :: rat) \<le> of_int (rne (x / ?q))"
    by (simp only: of_int_le_iff)
  then show ?thesis
    unfolding eq rnd_pos_def by (rule mult_right_mono) simp
qed

lemma rnd_pos_nonneg: "0 < x \<Longrightarrow> 0 \<le> rnd_pos x"
  using rnd_pos_ge [of x 0 "qexp x"] by simp

lemma rnd_pos_mono:
  assumes "0 < x" "x \<le> y"
  shows "rnd_pos x \<le> rnd_pos y"
proof (cases "qexp x = qexp y")
  case True
  have "x / pow2 (qexp y) \<le> y / pow2 (qexp y)"
    using assms(2) by (rule divide_right_mono) simp
  then have "rne (x / pow2 (qexp y)) \<le> rne (y / pow2 (qexp y))"
    by (rule rne_mono)
  then have "of_int (rne (x / pow2 (qexp y))) \<le> (of_int (rne (y / pow2 (qexp y))) :: rat)"
    by (simp only: of_int_le_iff)
  then show ?thesis
    unfolding rnd_pos_def True by (rule mult_right_mono) simp
next
  case False
  with qexp_mono [OF assms] have lt: "qexp x < qexp y" by simp
  then have e: "binexp x < binexp y" "qexp y \<le> binexp y"
    by (auto simp: qexp_def max_def split: if_splits)
  have "x \<le> of_int 1 * pow2 (binexp y)"
    using binexp_bounds [OF assms(1)] pow2_mono [of "binexp x + 1" "binexp y"] e(1) by simp
  then have "rnd_pos x \<le> of_int 1 * pow2 (binexp y)"
    by (rule rnd_pos_le [OF assms(1)]) (use lt e in linarith)
  also have "of_int 1 * pow2 (binexp y) \<le> rnd_pos y"
    by (rule rnd_pos_ge) (use assms binexp_bounds [of y] e in auto)
  finally show ?thesis .
qed

lemma rnd_pos_exact:
  assumes "0 < x" "x = of_int m * pow2 k" "qexp x \<le> k"
  shows "rnd_pos x = x"
  using rnd_pos_le [of x m k] rnd_pos_ge [of x m k] assms by simp

lemma rnd_pos_dyadic:
  assumes "0 < m" "m \<le> 2 ^ 53" "- 1074 \<le> k"
  shows "rnd_pos (of_int m * pow2 k) = of_int m * pow2 k"
proof (cases "m = 2 ^ 53")
  case True
  let ?x = "of_int m * pow2 k"
  have x: "?x = of_int 1 * pow2 (53 + k)"
    unfolding True pow2_add by simp
  have "binexp ?x \<le> 53 + k"
    by (rule binexp_le) (simp_all add: x pow2_less_iff)
  then show ?thesis
    by (intro rnd_pos_exact [OF _ x]) (use assms in \<open>auto simp: qexp_def\<close>)
next
  case False
  let ?x = "of_int m * pow2 k"
  have pos: "0 < ?x" using assms by simp
  have "(of_int m :: rat) < of_int (2 ^ 53)"
    using False assms(2) by (simp only: of_int_less_iff)
  then have "?x < of_int (2 ^ 53) * pow2 k"
    by (rule mult_strict_right_mono) simp
  also have "\<dots> = pow2 (52 + k + 1)"
    using pow2_add [of 53 k] by (simp add: algebra_simps)
  finally have "binexp ?x \<le> 52 + k"
    by (rule binexp_le [OF pos])
  then show ?thesis
    by (intro rnd_pos_exact [OF pos refl]) (use assms in \<open>simp add: qexp_def\<close>)
qed

lemma rnd_pos_form:
  assumes "0 < x"
  obtains m k where "rnd_pos x = of_int m * pow2 k" "0 \<le> m" "m \<le> 2 ^ 53" "- 1074 \<le> k"
proof
  let ?m = "rne (x / pow2 (qexp x))"
  show "rnd_pos x = of_int ?m * pow2 (qexp x)" by (simp add: rnd_pos_def)
  show "0 \<le> ?m" using assms by (simp add: rne_nonneg)
  show "- 1074 \<le> qexp x" by (simp add: qexp_def)
  have "x < pow2 (53 + qexp x)"
    using binexp_bounds [OF assms] pow2_mono [of "binexp x + 1" "53 + qexp x"]
    unfolding qexp_def by linarith
  then have "x / pow2 (qexp x) \<le> of_int (2 ^ 53)"
    unfolding pow2_add by (simp add: pos_divide_le_eq)
  then show "?m \<le> 2 ^ 53" using rne_mono rne_of_int by metis
qed

subsection \<open>The rounding function on all rationals\<close>

lemma rnd64_0 [simp]: "rnd64 0 = 0"
  by (simp add: rnd64_def)

lemma rnd64_minus [simp]: "rnd64 (- x) = - rnd64 x"
  by (simp add: rnd64_def)

lemma rnd64_nonneg: "0 \<le> x \<Longrightarrow> 0 \<le> rnd64 x"
  by (simp add: rnd64_def rnd_pos_nonneg)

lemma rnd64_mono: "x \<le> y \<Longrightarrow> rnd64 x \<le> rnd64 y"
proof -
  assume le: "x \<le> y"
  consider "0 < x" | "x \<le> 0" "0 \<le> y" | "y < 0" by linarith
  then show ?thesis
  proof cases
    case 1
    then show ?thesis using le by (simp add: rnd64_def rnd_pos_mono)
  next
    case 2
    then show ?thesis using rnd64_nonneg [of "- x"] rnd64_nonneg [of y] by simp
  next
    case 3
    then show ?thesis using le rnd_pos_mono [of "- y" "- x"] by (simp add: rnd64_def)
  qed
qed

lemma rnd64_dyadic:
  assumes "\<bar>m\<bar> \<le> 2 ^ 53" "- 1074 \<le> k"
  shows "rnd64 (of_int m * pow2 k) = of_int m * pow2 k"
proof -
  consider "m = 0" | "0 < m" | "0 < - m" by linarith
  then show ?thesis
  proof cases
    case 2
    then show ?thesis using assms by (simp add: rnd64_def rnd_pos_dyadic)
  next
    case 3
    have "rnd_pos (of_int (- m) * pow2 k) = of_int (- m) * pow2 k"
      using 3 assms by (intro rnd_pos_dyadic) auto
    with 3 show ?thesis by (simp add: rnd64_def mult_less_0_iff zero_less_mult_iff)
  qed simp
qed

lemma rnd64_of_int: "\<bar>m\<bar> \<le> 2 ^ 53 \<Longrightarrow> rnd64 (of_int m) = of_int m"
  using rnd64_dyadic [of m 0] by simp

lemma rnd64_idem [simp]: "rnd64 (rnd64 x) = rnd64 x"
proof -
  have pos: "rnd64 (rnd_pos y) = rnd_pos y" if "0 < y" for y
    using rnd_pos_form [OF that] rnd64_dyadic by (metis abs_of_nonneg)
  show ?thesis
    using pos [of x] pos [of "- x"] by (auto simp: rnd64_def)
qed

lemma rnd64_error:
  assumes "\<bar>x\<bar> \<le> pow2 e" "- 1021 \<le> e"
  shows "\<bar>rnd64 x - x\<bar> \<le> pow2 (e - 53)"
proof -
  have pos: "\<bar>rnd_pos y - y\<bar> \<le> pow2 (e - 53)" if y: "0 < y" "y \<le> pow2 e" for y
  proof (cases "y = pow2 e")
    case True
    then have "rnd_pos y = y" using rnd_pos_dyadic [of 1 e] assms(2) by simp
    then show ?thesis by simp
  next
    case False
    let ?q = "pow2 (qexp y)"
    have "binexp y \<le> e - 1" using y False by (intro binexp_le) auto
    then have q: "qexp y \<le> e - 53" using assms(2) by (simp add: qexp_def)
    have "\<bar>of_int (rne (y / ?q)) - y / ?q\<bar> * ?q \<le> 1 / 2 * ?q"
      by (rule mult_right_mono [OF rne_error]) simp
    moreover have "\<bar>of_int (rne (y / ?q)) - y / ?q\<bar> * ?q = \<bar>(of_int (rne (y / ?q)) - y / ?q) * ?q\<bar>"
      by (simp add: abs_mult)
    moreover have "(of_int (rne (y / ?q)) - y / ?q) * ?q = rnd_pos y - y"
      by (simp add: rnd_pos_def left_diff_distrib)
    ultimately have "\<bar>rnd_pos y - y\<bar> \<le> 1 / 2 * ?q" by simp
    also have "\<dots> \<le> pow2 (e - 53)" using pow2_mono [OF q] pow2_nonneg [of "qexp y"] by linarith
    finally show ?thesis .
  qed
  show ?thesis
    using pos [of x] pos [of "- x"] assms(1) by (auto simp: rnd64_def abs_if split: if_splits)
qed


section \<open>What clients use of a rounding function\<close>

locale rounding =
  fixes rnd :: "rat \<Rightarrow> rat"
  assumes mono: "x \<le> y \<Longrightarrow> rnd x \<le> rnd y"
    and idem: "rnd (rnd x) = rnd x"
    and int_exact: "\<bar>m\<bar> \<le> 2 ^ 53 \<Longrightarrow> rnd (of_int m) = of_int m"
begin

lemma between:
  assumes "rnd a = a" "rnd b = b" "a \<le> x" "x \<le> b"
  shows "a \<le> rnd x \<and> rnd x \<le> b"
  using mono [OF assms(3)] mono [OF assms(4)] assms(1,2) by simp

lemma midpoint:
  assumes "rnd a = a" "rnd b = b" "a \<le> b"
  shows "a \<le> rnd ((a + b) / 2) \<and> rnd ((a + b) / 2) \<le> b"
  by (rule between) (use assms in auto)

lemma nonneg: "0 \<le> x \<Longrightarrow> 0 \<le> rnd x"
  using mono [of 0 x] int_exact [of 0] by simp

lemma clamp:
  assumes "\<bar>a\<bar> \<le> 2 ^ 53" "\<bar>b\<bar> \<le> 2 ^ 53" "of_int a \<le> x" "x \<le> of_int b"
  shows "of_int a \<le> rnd x \<and> rnd x \<le> of_int b"
  by (rule between [OF int_exact int_exact]) (use assms in auto)

end

interpretation fp64: rounding rnd64
  by unfold_locales (auto intro: rnd64_mono rnd64_of_int)

section \<open>The type float64 and its operations\<close>

datatype f64 = NaN | PInf | NInf | Fin rat

definition fl :: "rat \<Rightarrow> f64" where
  "fl x = (let r = rnd64 x in if 2 ^ 1024 \<le> r then PInf else if r \<le> - (2 ^ 1024) then NInf else Fin r)"

definition f64_ok :: "f64 \<Rightarrow> bool" where
  "f64_ok v = (case v of Fin q \<Rightarrow> rnd64 q = q \<and> \<bar>q\<bar> < 2 ^ 1024 | _ \<Rightarrow> True)"

definition f_finite :: "f64 \<Rightarrow> bool" where
  "f_finite v = (case v of Fin _ \<Rightarrow> True | _ \<Rightarrow> False)"

fun f_neg :: "f64 \<Rightarrow> f64" where
  "f_neg (Fin x) = Fin (- x)"
| "f_neg PInf = NInf"
| "f_neg NInf = PInf"
| "f_neg NaN = NaN"

fun f_add :: "f64 \<Rightarrow> f64 \<Rightarrow> f64" where
  "f_add (Fin x) (Fin y) = fl (x + y)"
| "f_add NaN _ = NaN"
| "f_add _ NaN = NaN"
| "f_add PInf NInf = NaN"
| "f_add NInf PInf = NaN"
| "f_add PInf _ = PInf"
| "f_add _ PInf = PInf"
| "f_add NInf _ = NInf"
| "f_add _ NInf = NInf"

definition f_sub :: "f64 \<Rightarrow> f64 \<Rightarrow> f64" where
  "f_sub a b = f_add a (f_neg b)"

text \<open>The sign of a value that is not NaN, as an integer.\<close>

fun f_sgn :: "f64 \<Rightarrow> int" where
  "f_sgn (Fin x) = (if x < 0 then -1 else if x = 0 then 0 else 1)"
| "f_sgn PInf = 1"
| "f_sgn NInf = -1"
| "f_sgn NaN = 0"

definition f_inf_signed :: "int \<Rightarrow> f64" where
  "f_inf_signed s = (if s = 0 then NaN else if 0 < s then PInf else NInf)"

fun f_mul :: "f64 \<Rightarrow> f64 \<Rightarrow> f64" where
  "f_mul (Fin x) (Fin y) = fl (x * y)"
| "f_mul NaN _ = NaN"
| "f_mul _ NaN = NaN"
| "f_mul a b = f_inf_signed (f_sgn a * f_sgn b)"

fun f_div :: "f64 \<Rightarrow> f64 \<Rightarrow> f64" where
  "f_div (Fin x) (Fin y) = (if y = 0 then f_inf_signed (f_sgn (Fin x)) else fl (x / y))"
| "f_div NaN _ = NaN"
| "f_div _ NaN = NaN"
| "f_div (Fin x) _ = Fin 0"
| "f_div a (Fin y) = f_inf_signed (if y < 0 then - f_sgn a else f_sgn a)"
| "f_div _ _ = NaN"

text \<open>Comparisons: every one that involves NaN is false.\<close>

fun f_lt :: "f64 \<Rightarrow> f64 \<Rightarrow> bool" where
  "f_lt NaN _ = False"
| "f_lt _ NaN = False"
| "f_lt (Fin x) (Fin y) = (x < y)"
| "f_lt NInf b = (b \<noteq> NInf)"
| "f_lt PInf _ = False"
| "f_lt (Fin _) b = (b = PInf)"

definition f_eq :: "f64 \<Rightarrow> f64 \<Rightarrow> bool" where
  "f_eq a b \<longleftrightarrow> a \<noteq> NaN \<and> a = b"

definition f_le :: "f64 \<Rightarrow> f64 \<Rightarrow> bool" where
  "f_le a b \<longleftrightarrow> f_lt a b \<or> f_eq a b"

lemma f_le_Fin [simp]: "f_le (Fin x) (Fin y) \<longleftrightarrow> x \<le> y"
  by (auto simp: f_le_def f_eq_def)

lemma f_eq_Fin [simp]: "f_eq (Fin x) (Fin y) \<longleftrightarrow> x = y"
  by (simp add: f_eq_def)

lemma f_lt_NaN [simp]: "\<not> f_lt x NaN"
  by (cases x) auto

lemma f_le_NaN [simp]: "\<not> f_le x NaN" "\<not> f_le NaN x"
  by (auto simp: f_le_def f_eq_def)

lemma f_sub_Fin [simp]: "f_sub (Fin x) (Fin y) = fl (x - y)"
  by (simp add: f_sub_def)

section \<open>Conversions\<close>

definition f_of_int :: "int \<Rightarrow> f64" where
  "f_of_int n = fl (of_int n)"

definition rat_trunc :: "rat \<Rightarrow> int" where
  "rat_trunc x = (if x < 0 then \<lceil>x\<rceil> else \<lfloor>x\<rfloor>)"

text \<open>
  Go leaves the conversion of a float that the integer type cannot represent to the
  implementation: nothing is known here about the value it gives.
\<close>

definition impl_conv :: "f64 \<Rightarrow> int" where
  "impl_conv = undefined"

definition f_to_i64 :: "f64 \<Rightarrow> int" where
  "f_to_i64 v = (case v of
      Fin x \<Rightarrow> if int64_range (rat_trunc x) then rat_trunc x else wrap64 (impl_conv v)
    | _ \<Rightarrow> wrap64 (impl_conv v))"

definition f_to_u64 :: "f64 \<Rightarrow> u64" where
  "f_to_u64 v = (case v of
      Fin x \<Rightarrow> if 0 \<le> rat_trunc x \<and> rat_trunc x < 2 ^ 64 then word_of_int (rat_trunc x)
               else word_of_int (impl_conv v)
    | _ \<Rightarrow> word_of_int (impl_conv v))"

definition f_of_u64 :: "u64 \<Rightarrow> f64" where
  "f_of_u64 w = f_of_int (uint w)"

lemma rat_trunc_of_int [simp]: "rat_trunc (of_int n) = n"
  by (simp add: rat_trunc_def)

lemma f_to_i64_range [simp]: "int64_range (f_to_i64 v)"
  by (cases v) (simp_all add: f_to_i64_def)

lemma f_to_u64_Fin_int: "0 \<le> n \<Longrightarrow> n < 2 ^ 64 \<Longrightarrow> f_to_u64 (Fin (of_int n)) = word_of_int n"
  by (simp add: f_to_u64_def)

section \<open>Well-formed values\<close>

lemma fl_ok [simp]: "f64_ok (fl x)"
  by (auto simp: fl_def f64_ok_def Let_def abs_less_iff)

lemma fl_Fin: "rnd64 x = x \<Longrightarrow> \<bar>x\<bar> < 2 ^ 1024 \<Longrightarrow> fl x = Fin x"
  by (auto simp: fl_def Let_def abs_less_iff)

lemma f64_ok_Fin: "f64_ok (Fin x) \<longleftrightarrow> fl x = Fin x"
  by (auto simp: f64_ok_def fl_Fin fl_def Let_def abs_less_iff split: if_splits)

lemma f64_ok_simps [simp]: "f64_ok NaN" "f64_ok PInf" "f64_ok NInf"
  by (simp_all add: f64_ok_def)

lemma two_pow_53_less: "(2::rat) ^ 53 < 2 ^ 1024"
  by (rule power_strict_increasing) auto

lemma fl_bounded: "\<bar>x\<bar> \<le> 2 ^ 53 \<Longrightarrow> fl x = Fin (rnd64 x)"
proof -
  assume "\<bar>x\<bar> \<le> 2 ^ 53"
  then have "\<bar>rnd64 x\<bar> \<le> 2 ^ 53"
    using fp64.clamp [of "- (2 ^ 53)" "2 ^ 53" x] by (simp add: abs_le_iff)
  then show ?thesis
    using two_pow_53_less by (auto simp: fl_def Let_def)
qed

text \<open>Rounding stays between two binary64 numbers.\<close>

lemma fl_between:
  assumes "rnd64 a = a" "rnd64 b = b" "a \<le> x" "x \<le> b" "- (2 ^ 1024) < a" "b < 2 ^ 1024"
  shows "\<exists>y. fl x = Fin y \<and> a \<le> y \<and> y \<le> b"
  using fp64.between [OF assms(1-4)] assms(5,6) by (auto simp: fl_def Let_def)

lemma rnd64_pow2: "- 1074 \<le> k \<Longrightarrow> rnd64 (pow2 k) = pow2 k"
  using rnd64_dyadic [of 1 k] by simp

lemma pow2_less_1024: "k < 1024 \<Longrightarrow> pow2 k < 2 ^ 1024"
  using pow2_less_iff [of k 1024] by simp

lemma f_of_int_exact: "\<bar>n\<bar> \<le> 2 ^ 53 \<Longrightarrow> f_of_int n = Fin (of_int n)"
proof -
  assume le: "\<bar>n\<bar> \<le> 2 ^ 53"
  then have "\<bar>of_int n :: rat\<bar> \<le> 2 ^ 53"
    by (metis of_int_abs of_int_le_iff of_int_numeral of_int_power)
  with rnd64_of_int [OF le] show ?thesis
    by (simp add: f_of_int_def fl_bounded)
qed

lemma fl_numeral: "(numeral n :: int) \<le> 2 ^ 53 \<Longrightarrow> fl (numeral n) = Fin (numeral n)"
  using f_of_int_exact [of "numeral n"] by (simp add: f_of_int_def)

lemma fl_0 [simp]: "fl 0 = Fin 0"
  using f_of_int_exact [of 0] by (simp add: f_of_int_def)

lemma f_add_ok: "f64_ok a \<Longrightarrow> f64_ok b \<Longrightarrow> f64_ok (f_add a b)"
  by (cases a; cases b) simp_all

lemma f_inf_signed_ok [simp]: "f64_ok (f_inf_signed s)"
  by (simp add: f_inf_signed_def)

lemma f_mul_ok: "f64_ok a \<Longrightarrow> f64_ok b \<Longrightarrow> f64_ok (f_mul a b)"
  by (cases a; cases b) simp_all

lemma f64_ok_0 [simp]: "f64_ok (Fin 0)"
  by (simp add: f64_ok_Fin)

lemma f_div_ok: "f64_ok a \<Longrightarrow> f64_ok b \<Longrightarrow> f64_ok (f_div a b)"
  by (cases a; cases b) simp_all

end
