(* ===== verification/Go_Strings.thy ===== *)
theory Go_Strings
  imports Float64
begin

text \<open>
  The functions of Go's \<open>strings\<close> and \<open>strconv\<close> packages the client uses. A Go string
  is a list of bytes (\<open>char\<close>); case folding and white space are the ASCII ones.
\<close>

section \<open>Package strings\<close>

definition ch_code :: "char \<Rightarrow> nat" where
  "ch_code c = of_char c"

definition is_digit :: "char \<Rightarrow> bool" where
  "is_digit c \<longleftrightarrow> 48 \<le> ch_code c \<and> ch_code c \<le> 57"

definition is_space :: "char \<Rightarrow> bool" where
  "is_space c \<longleftrightarrow> ch_code c = 32 \<or> (9 \<le> ch_code c \<and> ch_code c \<le> 13)"

definition lower_char :: "char \<Rightarrow> char" where
  "lower_char c = (if 65 \<le> ch_code c \<and> ch_code c \<le> 90 then char_of (ch_code c + 32) else c)"

definition to_lower :: "string \<Rightarrow> string" where
  "to_lower s = map lower_char s"

definition trim_space :: "string \<Rightarrow> string" where
  "trim_space s = rev (dropWhile is_space (rev (dropWhile is_space s)))"

definition has_prefix :: "string \<Rightarrow> string \<Rightarrow> bool" where
  "has_prefix s p \<longleftrightarrow> take (length p) s = p"

definition has_suffix :: "string \<Rightarrow> string \<Rightarrow> bool" where
  "has_suffix s t \<longleftrightarrow> length t \<le> length s \<and> drop (length s - length t) s = t"

definition trim_suffix :: "string \<Rightarrow> string \<Rightarrow> string" where
  "trim_suffix s t = (if has_suffix s t then take (length s - length t) s else s)"

text \<open>\<open>strings.Cut\<close> at the first occurrence of a one-byte separator.\<close>

fun cut :: "char \<Rightarrow> string \<Rightarrow> string \<times> string \<times> bool" where
  "cut c [] = ([], [], False)"
| "cut c (x # xs) =
     (if x = c then ([], xs, True) else (case cut c xs of (a, b, f) \<Rightarrow> (x # a, b, f)))"

text \<open>\<open>strings.Split\<close> at a one-byte separator, and \<open>strings.Join\<close> with one.\<close>

fun split_on :: "char \<Rightarrow> string \<Rightarrow> string list" where
  "split_on c [] = [[]]"
| "split_on c (x # xs) = (case split_on c xs of
      [] \<Rightarrow> []
    | w # ws \<Rightarrow> if x = c then [] # w # ws else (x # w) # ws)"

fun join_with :: "char \<Rightarrow> string list \<Rightarrow> string" where
  "join_with c [] = []"
| "join_with c [w] = w"
| "join_with c (w # ws) = w @ c # join_with c ws"

text \<open>\<open>strings.LastIndex\<close> of a byte, as the text up to and including it and the text after it.\<close>

definition split_last :: "char \<Rightarrow> string \<Rightarrow> (string \<times> string) option" where
  "split_last c s = (if c \<in> set s
     then Some (rev (dropWhile (\<lambda>x. x \<noteq> c) (rev s)), rev (takeWhile (\<lambda>x. x \<noteq> c) (rev s))) else None)"

text \<open>\<open>strings.Contains\<close>.\<close>

fun contains :: "string \<Rightarrow> string \<Rightarrow> bool" where
  "contains [] t = (t = [])"
| "contains (x # xs) t = (has_prefix (x # xs) t \<or> contains xs t)"

text \<open>\<open>strings.Fields\<close>: the maximal runs of bytes that are not white space.\<close>

function fields_of :: "string \<Rightarrow> string list" where
  "fields_of s = (case dropWhile is_space s of
      [] \<Rightarrow> []
    | c # cs \<Rightarrow> (c # takeWhile (Not \<circ> is_space) cs) # fields_of (dropWhile (Not \<circ> is_space) cs))"
  by pat_completeness auto
termination
proof (relation "measure length", goal_cases)
  case 1
  show ?case by simp
next
  case (2 s c cs)
  have "length (dropWhile (Not \<circ> is_space) cs) \<le> length cs" by (rule length_dropWhile_le)
  also have "length cs < length (dropWhile is_space s)" using 2 by simp
  also have "length (dropWhile is_space s) \<le> length s" by (rule length_dropWhile_le)
  finally show ?case by simp
qed

declare fields_of.simps [simp del]

lemma has_suffix_append [simp]: "has_suffix (s @ t) t"
  by (simp add: has_suffix_def)

lemma trim_suffix_append [simp]: "trim_suffix (s @ t) t = s"
  by (simp add: trim_suffix_def)

lemma has_prefix_append [simp]: "has_prefix (s @ t) s"
  by (simp add: has_prefix_def)

lemma has_suffix_iff: "has_suffix s t \<longleftrightarrow> (\<exists>u. s = u @ t)"
proof
  assume "has_suffix s t"
  then have "s = take (length s - length t) s @ t"
    unfolding has_suffix_def by (metis append_take_drop_id)
  then show "\<exists>u. s = u @ t" ..
qed auto

lemma drop_spaces: "list_all is_space l \<Longrightarrow> dropWhile is_space (l @ s) = dropWhile is_space s"
  by (induction l) auto

lemma no_spaces: "s \<noteq> [] \<Longrightarrow> \<not> is_space (hd s) \<Longrightarrow> dropWhile is_space s = s"
  by (cases s) auto

lemma trim_space_pad:
  assumes "list_all is_space l" "list_all is_space r" "s \<noteq> []" "\<not> is_space (hd s)" "\<not> is_space (last s)"
  shows "trim_space (l @ s @ r) = s"
proof -
  have "dropWhile is_space (l @ s @ r) = s @ r"
    using assms by (simp add: drop_spaces no_spaces)
  moreover have "dropWhile is_space (rev (s @ r)) = rev s"
    using assms by (simp add: drop_spaces no_spaces hd_rev list_all_rev)
  ultimately show ?thesis by (simp add: trim_space_def)
qed

lemma trim_space_id: "s \<noteq> [] \<Longrightarrow> \<not> is_space (hd s) \<Longrightarrow> \<not> is_space (last s) \<Longrightarrow> trim_space s = s"
  using trim_space_pad [of "[]" "[]" s] by simp

lemma to_lower_append [simp]: "to_lower (s @ t) = to_lower s @ to_lower t"
  by (simp add: to_lower_def)

lemma cut_none: "c \<notin> set s \<Longrightarrow> cut c s = (s, [], False)"
  by (induction s) auto

lemma cut_some: "c \<notin> set s \<Longrightarrow> cut c (s @ c # t) = (s, t, True)"
  by (induction s) auto

lemma split_on_nonempty [simp]: "split_on c s \<noteq> []"
  by (induction s) (auto split: list.splits)

lemma join_split [simp]: "join_with c (split_on c s) = s"
proof (induction s)
  case (Cons x s)
  then show ?case by (cases "split_on c s" rule: list.exhaust; cases "tl (split_on c s)") auto
qed simp

lemma split_on_append: "split_on c (s @ c # t) = split_on c s @ split_on c t"
  by (induction s) (auto split: list.splits)

lemma split_on_none: "c \<notin> set s \<Longrightarrow> split_on c s = [s]"
  by (induction s) auto

lemma split_last_Some:
  assumes "split_last c s = Some (a, b)"
  shows "s = a @ b \<and> a \<noteq> [] \<and> last a = c \<and> c \<notin> set b"
proof -
  have c: "c \<in> set (rev s)" and a: "rev a = dropWhile (\<lambda>x. x \<noteq> c) (rev s)" and b: "rev b = takeWhile (\<lambda>x. x \<noteq> c) (rev s)"
    using assms by (auto simp: split_last_def split: if_splits)
  have "rev s = rev b @ rev a"
    by (simp add: a b)
  then have "s = a @ b"
    by (metis rev_append rev_rev_ident)
  moreover have ne: "rev a \<noteq> []"
    using c by (auto simp: a dropWhile_eq_Nil_conv)
  moreover have "hd (rev a) = c"
    using ne hd_dropWhile [of "\<lambda>x. x \<noteq> c" "rev s"] by (simp add: a)
  moreover have "c \<notin> set (rev b)"
    unfolding b by (auto dest: set_takeWhileD)
  ultimately show ?thesis
    by (simp add: hd_rev)
qed

section \<open>Decimal numerals\<close>

definition digit_char :: "nat \<Rightarrow> char" where
  "digit_char d = char_of (48 + d)"

definition digit_val :: "char \<Rightarrow> nat" where
  "digit_val c = ch_code c - 48"

fun nat_digits :: "nat \<Rightarrow> string" where
  "nat_digits n = (if n < 10 then [digit_char n] else nat_digits (n div 10) @ [digit_char (n mod 10)])"

declare nat_digits.simps [simp del]

text \<open>\<open>strconv.Itoa\<close>, which is also what \<open>%d\<close> prints.\<close>

definition itoa :: "int \<Rightarrow> string" where
  "itoa i = (if i < 0 then CHR ''-'' # nat_digits (nat (- i)) else nat_digits (nat i))"

definition digits_val :: "string \<Rightarrow> nat" where
  "digits_val s = foldl (\<lambda>v c. 10 * v + digit_val c) 0 s"

lemma digit_char_numerals [simp]:
  "digit_char 0 = CHR ''0''" "digit_char (Suc 0) = CHR ''1''" "digit_char 1 = CHR ''1''"
  "digit_char 2 = CHR ''2''" "digit_char 3 = CHR ''3''" "digit_char 4 = CHR ''4''"
  "digit_char 5 = CHR ''5''" "digit_char 6 = CHR ''6''" "digit_char 7 = CHR ''7''"
  "digit_char 8 = CHR ''8''" "digit_char 9 = CHR ''9''"
  by code_simp+

lemma ch_code_digit [simp]: "d < 10 \<Longrightarrow> ch_code (digit_char d) = 48 + d"
  by (simp add: ch_code_def digit_char_def)

lemma is_digit_digit_char [simp]: "d < 10 \<Longrightarrow> is_digit (digit_char d)"
  by (simp add: is_digit_def)

lemma digit_val_digit_char [simp]: "d < 10 \<Longrightarrow> digit_val (digit_char d) = d"
  by (simp add: digit_val_def)

lemma nat_digits_nonempty [simp]: "nat_digits n \<noteq> []"
  by (subst nat_digits.simps) simp

lemma nat_digits_digits: "list_all is_digit (nat_digits n)"
proof (induction n rule: nat_digits.induct)
  case (1 n)
  then show ?case by (subst nat_digits.simps) simp
qed

lemma digits_val_snoc: "digits_val (s @ [c]) = 10 * digits_val s + digit_val c"
  by (simp add: digits_val_def)

lemma digits_val_nat_digits [simp]: "digits_val (nat_digits n) = n"
proof (induction n rule: nat_digits.induct)
  case (1 n)
  show ?case
  proof (cases "n < 10")
    case True
    then show ?thesis by (subst nat_digits.simps) (simp add: digits_val_def)
  next
    case False
    with 1 show ?thesis by (subst nat_digits.simps) (simp add: digits_val_snoc)
  qed
qed

lemma nat_digits_inject [simp]: "nat_digits m = nat_digits n \<longleftrightarrow> m = n"
  by (metis digits_val_nat_digits)

lemma digit_not_space: "is_digit c \<Longrightarrow> \<not> is_space c"
  by (auto simp: is_digit_def is_space_def)

lemma digit_lower: "is_digit c \<Longrightarrow> lower_char c = c"
  by (auto simp: is_digit_def lower_char_def)

lemma to_lower_nat_digits [simp]: "to_lower (nat_digits n) = nat_digits n"
  using nat_digits_digits [of n]
  by (auto simp: to_lower_def list_all_iff digit_lower intro!: map_idI)

end
