(* ===== verification/Go_Strconv.thy ===== *)
theory Go_Strconv
  imports Go_Strings
begin

text \<open>
  Number parsing as Go's \<open>strconv\<close> does it: \<open>ParseFloat\<close> (decimal and hexadecimal
  literals, underscores, infinities and NaN, range errors), \<open>Atoi\<close>, and \<open>ParseInt\<close> and
  \<open>ParseUint\<close> with base 0, whose value on a range error is the saturated bound and on a
  syntax error 0 (the callers ignore the error and use the value).
\<close>

section \<open>Underscores\<close>

text \<open>
  The last byte seen, as \<open>strconv\<close> tracks it: \<open>^\<close> at the start, \<open>0\<close> after a digit or
  base prefix, \<open>_\<close> after an underscore, \<open>!\<close> otherwise.
\<close>

definition is_hex_letter :: "char \<Rightarrow> bool" where
  "is_hex_letter c \<longleftrightarrow> 97 \<le> ch_code (lower_char c) \<and> ch_code (lower_char c) \<le> 102"

fun underscore_scan :: "bool \<Rightarrow> char \<Rightarrow> string \<Rightarrow> bool" where
  "underscore_scan hx saw [] = (saw \<noteq> CHR ''_'')"
| "underscore_scan hx saw (c # cs) =
     (if is_digit c \<or> (hx \<and> is_hex_letter c) then underscore_scan hx CHR ''0'' cs
      else if c = CHR ''_'' then saw = CHR ''0'' \<and> underscore_scan hx CHR ''_'' cs
      else saw \<noteq> CHR ''_'' \<and> underscore_scan hx CHR ''!'' cs)"

definition strip_sign :: "string \<Rightarrow> string" where
  "strip_sign s = (case s of [] \<Rightarrow> [] | c # cs \<Rightarrow> if c = CHR ''-'' \<or> c = CHR ''+'' then cs else s)"

definition underscore_ok :: "string \<Rightarrow> bool" where
  "underscore_ok s0 = (let s = strip_sign s0 in
     case s of
       z # b # cs \<Rightarrow>
         if z = CHR ''0'' \<and> lower_char b \<in> {CHR ''b'', CHR ''o'', CHR ''x''}
         then underscore_scan (lower_char b = CHR ''x'') CHR ''0'' cs
         else underscore_scan False CHR ''^'' s
     | _ \<Rightarrow> underscore_scan False CHR ''^'' s)"

section \<open>ParseFloat\<close>

text \<open>The digits before the exponent: mantissa, digits after the point, what was seen, the rest.\<close>

record mant_scan =
  ms_mant :: nat
  ms_frac :: nat
  ms_dot :: bool
  ms_digits :: bool
  ms_under :: bool

definition hex_digit_val :: "char \<Rightarrow> nat" where
  "hex_digit_val c = (if is_digit c then digit_val c else ch_code (lower_char c) - 87)"

definition push_digit :: "nat \<Rightarrow> char \<Rightarrow> mant_scan \<Rightarrow> mant_scan" where
  "push_digit base c st = st\<lparr>
     ms_mant := ms_mant st * base + hex_digit_val c,
     ms_frac := (if ms_dot st then Suc (ms_frac st) else ms_frac st),
     ms_digits := True\<rparr>"

fun scan_mant :: "bool \<Rightarrow> string \<Rightarrow> mant_scan \<Rightarrow> mant_scan \<times> string" where
  "scan_mant hx [] st = (st, [])"
| "scan_mant hx (c # cs) st =
     (if c = CHR ''_'' then scan_mant hx cs (st\<lparr>ms_under := True\<rparr>)
      else if c = CHR ''.'' then
        (if ms_dot st then (st, c # cs) else scan_mant hx cs (st\<lparr>ms_dot := True\<rparr>))
      else if is_digit c \<or> (hx \<and> is_hex_letter c)
        then scan_mant hx cs (push_digit (if hx then 16 else 10) c st)
      else (st, c # cs))"

text \<open>The exponent digits, which stop growing at 10000; a flag for underscores; the rest.\<close>

fun scan_exp :: "string \<Rightarrow> nat \<Rightarrow> bool \<Rightarrow> nat \<times> bool \<times> string" where
  "scan_exp [] e u = (e, u, [])"
| "scan_exp (c # cs) e u =
     (if c = CHR ''_'' then scan_exp cs e True
      else if is_digit c then scan_exp cs (if e < 10000 then e * 10 + digit_val c else e) u
      else (e, u, c # cs))"

definition parse_exp :: "string \<Rightarrow> (int \<times> bool \<times> string) option" where
  "parse_exp s = (let neg = has_prefix s ''-''; t = strip_sign s in
     case t of
       [] \<Rightarrow> None
     | c # _ \<Rightarrow> if is_digit c
         then (case scan_exp t 0 False of (e, u, r) \<Rightarrow> Some (if neg then - int e else int e, u, r))
         else None)"

definition mant_init :: mant_scan where
  "mant_init = \<lparr>ms_mant = 0, ms_frac = 0, ms_dot = False, ms_digits = False, ms_under = False\<rparr>"

text \<open>The exact value of a literal that is well formed and used up.\<close>

definition read_float :: "string \<Rightarrow> rat option" where
  "read_float s = (let neg = has_prefix s ''-''; t = strip_sign s;
      hx = (case t of z # x # _ # _ \<Rightarrow> z = CHR ''0'' \<and> lower_char x = CHR ''x'' | _ \<Rightarrow> False);
      (st, r) = scan_mant hx (if hx then drop 2 t else t) mant_init;
      ex = (case r of
              c # cs \<Rightarrow> if lower_char c = (if hx then CHR ''p'' else CHR ''e'') then parse_exp cs
                       else if hx then None else Some (0, False, r)
            | [] \<Rightarrow> if hx then None else Some (0, False, []))
    in if \<not> ms_digits st then None
       else case ex of
         None \<Rightarrow> None
       | Some (e, u, rest) \<Rightarrow>
           if rest \<noteq> [] \<or> ((ms_under st \<or> u) \<and> \<not> underscore_ok s) then None
           else let v = of_nat (ms_mant st) *
                  (if hx then 2 powi (e - 4 * int (ms_frac st)) else 10 powi (e - int (ms_frac st)))
                in Some (if neg then - v else v))"

definition special_float :: "string \<Rightarrow> f64 option" where
  "special_float s = (let t = to_lower s; u = strip_sign t in
     if t = ''nan'' then Some NaN
     else if u = ''inf'' \<or> u = ''infinity'' then Some (if has_prefix t ''-'' then NInf else PInf)
     else None)"

text \<open>\<open>strconv.ParseFloat(s, 64)\<close>: \<open>None\<close> is a syntax or a range error.\<close>

definition parse_float :: "string \<Rightarrow> f64 option" where
  "parse_float s = (case special_float s of
      Some v \<Rightarrow> Some v
    | None \<Rightarrow> (case read_float s of
        None \<Rightarrow> None
      | Some x \<Rightarrow> (if f_finite (fl x) then Some (fl x) else None)))"

lemma parse_float_ok: "parse_float s = Some v \<Longrightarrow> f64_ok v"
  by (auto simp: parse_float_def special_float_def Let_def split: option.splits if_splits)

subsection \<open>Plain decimal digits\<close>

lemma is_digit_chars:
  assumes "is_digit c"
  shows "c \<noteq> CHR ''_''" "c \<noteq> CHR ''.''" "c \<noteq> CHR ''-''" "c \<noteq> CHR ''+''" "c \<noteq> CHR ''i''"
    "c \<noteq> CHR ''n''" "c \<noteq> CHR ''x''"
  using assms by (auto simp: is_digit_def ch_code_def)

lemma scan_mant_digits:
  "list_all is_digit s \<Longrightarrow> \<not> ms_dot st \<Longrightarrow> s \<noteq> [] \<Longrightarrow>
   scan_mant False (s @ r) st =
     scan_mant False r (st\<lparr>ms_mant := foldl (\<lambda>v c. 10 * v + digit_val c) (ms_mant st) s, ms_digits := True\<rparr>)"
proof (induction s arbitrary: st)
  case Nil
  then show ?case by simp
next
  case (Cons c cs)
  have step: "scan_mant False ((c # cs) @ r) st = scan_mant False (cs @ r) (push_digit 10 c st)"
    using Cons.prems is_digit_chars [of c] by simp
  show ?case
  proof (cases "cs = []")
    case True
    then show ?thesis
      using step Cons.prems by (simp add: push_digit_def hex_digit_val_def mult.commute)
  next
    case False
    then show ?thesis
      unfolding step using Cons.prems
      by (subst Cons.IH) (simp_all add: push_digit_def hex_digit_val_def mult.commute)
  qed
qed

lemma strip_sign_digit: "is_digit (hd s) \<Longrightarrow> strip_sign s = s"
  using is_digit_chars [of "hd s"] by (cases s) (auto simp: strip_sign_def)

lemma has_prefix_digit: "s \<noteq> [] \<Longrightarrow> is_digit (hd s) \<Longrightarrow> \<not> has_prefix s ''-''"
  using is_digit_chars [of "hd s"] by (cases s) (auto simp: has_prefix_def)

lemma hd_nat_digits: "is_digit (hd (nat_digits n))"
  using nat_digits_digits [of n] by (cases "nat_digits n") auto

lemma last_nat_digits: "is_digit (last (nat_digits n))"
  using nat_digits_digits [of n] by (simp add: list_all_iff)

lemma read_float_digits:
  assumes "list_all is_digit s" "s \<noteq> []"
  shows "read_float s = Some (of_nat (digits_val s))"
proof -
  have hd: "is_digit (hd s)" using assms by (cases s) auto
  have hx: "\<not> (case s of z # x # _ # _ \<Rightarrow> z = CHR ''0'' \<and> lower_char x = CHR ''x'' | _ \<Rightarrow> False)"
    using assms(1) by (auto simp: digit_lower is_digit_chars split: list.splits)
  have "scan_mant False s mant_init =
      (mant_init\<lparr>ms_mant := digits_val s, ms_digits := True\<rparr>, [])"
    using scan_mant_digits [OF assms(1) _ assms(2), of mant_init "[]"]
    by (simp add: mant_init_def digits_val_def)
  then show ?thesis
    using hx strip_sign_digit [OF hd] has_prefix_digit [OF assms(2) hd]
    by (simp add: read_float_def mant_init_def)
qed

lemma special_float_digits:
  assumes "s \<noteq> []" "is_digit (hd s)"
  shows "special_float s = None"
proof -
  have "hd (to_lower s) = hd s"
    using assms by (cases s) (simp_all add: to_lower_def digit_lower)
  moreover have "strip_sign (to_lower s) = to_lower s"
    by (rule strip_sign_digit) (use assms calculation in simp)
  ultimately show ?thesis
    using is_digit_chars [OF assms(2)] by (auto simp: special_float_def Let_def)
qed

lemma parse_float_nat_digits:
  assumes "f_finite (f_of_int (int n))"
  shows "parse_float (nat_digits n) = Some (f_of_int (int n))"
  using assms read_float_digits [OF nat_digits_digits nat_digits_nonempty, of n]
    special_float_digits [OF nat_digits_nonempty hd_nat_digits, of n]
  by (simp add: parse_float_def f_of_int_def)

lemma parse_float_empty [simp]: "parse_float [] = None"
  by (simp add: parse_float_def special_float_def read_float_def to_lower_def strip_sign_def
      mant_init_def Let_def)

section \<open>Integers\<close>

text \<open>\<open>strconv.Atoi\<close>; \<open>None\<close> is a syntax or a range error.\<close>

definition Atoi :: "string \<Rightarrow> int option" where
  "Atoi s = (let t = strip_sign s; n = int (digits_val t);
      v = (if has_prefix s ''-'' then - n else n) in
     if t = [] \<or> \<not> list_all is_digit t \<or> \<not> int64_range v then None else Some v)"

datatype num_error = ESyntax | ERange

definition alnum_val :: "char \<Rightarrow> nat option" where
  "alnum_val c = (if is_digit c then Some (digit_val c)
     else if 97 \<le> ch_code (lower_char c) \<and> ch_code (lower_char c) \<le> 122
       then Some (ch_code (lower_char c) - 87)
     else None)"

text \<open>The digits of \<open>ParseUint\<close> with base 0; an overflow is noticed at the digit it happens at.\<close>

fun uint_scan :: "nat \<Rightarrow> string \<Rightarrow> nat \<Rightarrow> bool \<Rightarrow> num_error + nat \<times> bool" where
  "uint_scan base [] n u = Inr (n, u)"
| "uint_scan base (c # cs) n u =
     (if c = CHR ''_'' then uint_scan base cs n True
      else case alnum_val c of
        None \<Rightarrow> Inl ESyntax
      | Some d \<Rightarrow>
          (if base \<le> d then Inl ESyntax
           else if 2 ^ 64 \<le> n * base + d then Inl ERange
           else uint_scan base cs (n * base + d) u))"

definition base_prefix :: "string \<Rightarrow> nat \<times> string" where
  "base_prefix s = (case s of
      z # b # c # cs \<Rightarrow>
        if z \<noteq> CHR ''0'' then (10, s)
        else if lower_char b = CHR ''b'' then (2, c # cs)
        else if lower_char b = CHR ''o'' then (8, c # cs)
        else if lower_char b = CHR ''x'' then (16, c # cs)
        else (8, b # c # cs)
    | z # cs \<Rightarrow> if z = CHR ''0'' then (8, cs) else (10, s)
    | [] \<Rightarrow> (10, []))"

definition ParseUint0 :: "string \<Rightarrow> num_error + nat" where
  "ParseUint0 s = (if s = [] then Inl ESyntax else
     (case base_prefix s of (base, t) \<Rightarrow>
        (case uint_scan base t 0 False of
           Inl e \<Rightarrow> Inl e
         | Inr (n, u) \<Rightarrow> if u \<and> \<not> underscore_ok s then Inl ESyntax else Inr n)))"

text \<open>The value returned beside the error, which is all that callers ignoring the error see.\<close>

definition uint0_value :: "string \<Rightarrow> u64" where
  "uint0_value s = (case ParseUint0 s of
      Inl ESyntax \<Rightarrow> 0 | Inl ERange \<Rightarrow> - 1 | Inr n \<Rightarrow> word_of_nat n)"

definition int0_value :: "string \<Rightarrow> int" where
  "int0_value s = (let neg = has_prefix s ''-'' in
     case ParseUint0 (strip_sign s) of
       Inl ESyntax \<Rightarrow> 0
     | Inl ERange \<Rightarrow> (if neg then - (2 ^ 63) else 2 ^ 63 - 1)
     | Inr n \<Rightarrow>
         (if \<not> neg \<and> 2 ^ 63 \<le> n then 2 ^ 63 - 1
          else if neg \<and> 2 ^ 63 < n then - (2 ^ 63)
          else if neg then - int n else int n))"

lemma Atoi_nat_digits: "int n < 2 ^ 63 \<Longrightarrow> Atoi (nat_digits n) = Some (int n)"
proof -
  assume n: "int n < 2 ^ 63"
  obtain c cs where c: "nat_digits n = c # cs" by (metis list.exhaust nat_digits_nonempty)
  then have "is_digit c"
    using nat_digits_digits [of n] by simp
  then have "c \<noteq> CHR ''-''" "c \<noteq> CHR ''+''"
    by (auto simp: is_digit_def ch_code_def)
  then have "strip_sign (nat_digits n) = nat_digits n" "\<not> has_prefix (nat_digits n) ''-''"
    by (simp_all add: strip_sign_def has_prefix_def c)
  then show ?thesis
    using n nat_digits_digits [of n] by (simp add: Atoi_def int64_range_def)
qed

lemma Atoi_itoa: "int64_range i \<Longrightarrow> Atoi (itoa i) = Some i"
proof (cases "i < 0")
  case True
  assume r: "int64_range i"
  have "strip_sign (CHR ''-'' # s) = s" "has_prefix (CHR ''-'' # s) ''-''" for s
    by (simp_all add: strip_sign_def has_prefix_def)
  with True r nat_digits_digits show ?thesis
    by (simp add: itoa_def Atoi_def)
next
  case False
  assume "int64_range i"
  with False show ?thesis
    using Atoi_nat_digits [of "nat i"] by (simp add: itoa_def int64_range_def)
qed

lemma itoa_inject: "int64_range i \<Longrightarrow> int64_range j \<Longrightarrow> itoa i = itoa j \<longleftrightarrow> i = j"
  by (metis Atoi_itoa option.inject)

lemma int0_value_range: "int64_range (int0_value s)"
  by (auto simp: int0_value_def Let_def int64_range_def split: sum.split num_error.split)

text \<open>Canonical decimal numerals, read with base 0.\<close>

lemma hd_nat_digits_nonzero: "0 < n \<Longrightarrow> hd (nat_digits n) \<noteq> CHR ''0''"
proof (induction n rule: nat_digits.induct)
  case (1 n)
  show ?case
  proof (cases "n < 10")
    case True
    have "nat_digits n = [digit_char n]"
      using True by (subst nat_digits.simps) simp
    moreover have "digit_val (digit_char n) \<noteq> digit_val (CHR ''0'')"
      using 1(2) True by (simp add: digit_val_def ch_code_def [of "CHR ''0''"])
    ultimately show ?thesis by auto
  next
    case False
    then have "nat_digits n = nat_digits (n div 10) @ [digit_char (n mod 10)]"
      by (subst nat_digits.simps) simp
    moreover have "hd (nat_digits (n div 10)) \<noteq> CHR ''0''"
      using 1(1) False by simp
    ultimately show ?thesis by simp
  qed
qed

lemma base_prefix_nat_digits: "0 < n \<Longrightarrow> base_prefix (nat_digits n) = (10, nat_digits n)"
  using hd_nat_digits_nonzero [of n] by (auto simp: base_prefix_def split: list.split)

lemma uint_scan_snoc:
  "list_all is_digit s \<Longrightarrow> uint_scan 10 s m u = Inr (n, u) \<Longrightarrow> is_digit c \<Longrightarrow> n * 10 + digit_val c < 2 ^ 64 \<Longrightarrow>
   uint_scan 10 (s @ [c]) m u = Inr (n * 10 + digit_val c, u)"
proof (induction s arbitrary: m)
  case Nil
  then show ?case
    by (auto simp: alnum_val_def is_digit_def digit_val_def ch_code_def)
next
  case (Cons x s)
  have "x \<noteq> CHR ''_''"
    using Cons.prems(1) by (auto simp: is_digit_def ch_code_def)
  with Cons show ?case
    by (auto split: option.splits if_splits)
qed

lemma uint_scan_nat_digits: "n < 2 ^ 64 \<Longrightarrow> uint_scan 10 (nat_digits n) 0 u = Inr (n, u)"
proof (induction n rule: nat_digits.induct)
  case (1 n)
  show ?case
  proof (cases "n < 10")
    case True
    then have d: "nat_digits n = [digit_char n]"
      by (subst nat_digits.simps) simp
    have "digit_char n \<noteq> CHR ''_''"
      using is_digit_digit_char [OF True] by (auto simp: is_digit_def ch_code_def)
    with True 1(2) show ?thesis
      by (simp add: d alnum_val_def)
  next
    case False
    then have "nat_digits n = nat_digits (n div 10) @ [digit_char (n mod 10)]"
      by (subst nat_digits.simps) simp
    moreover have "uint_scan 10 (nat_digits (n div 10)) 0 u = Inr (n div 10, u)"
      using 1 False by simp
    ultimately show ?thesis
      using uint_scan_snoc [OF nat_digits_digits, of "n div 10" 0 u "n div 10" "digit_char (n mod 10)"] 1(2) by simp
  qed
qed

lemma ParseUint0_nat_digits: "n < 2 ^ 64 \<Longrightarrow> ParseUint0 (nat_digits n) = Inr n"
proof (cases "n = 0")
  case True
  have "nat_digits 0 = ''0''"
    by (subst nat_digits.simps) simp
  then show ?thesis
    by (simp add: True ParseUint0_def base_prefix_def)
next
  case False
  assume "n < 2 ^ 64"
  with False show ?thesis
    by (simp add: ParseUint0_def base_prefix_nat_digits uint_scan_nat_digits)
qed

lemma uint0_value_nat_digits: "n < 2 ^ 64 \<Longrightarrow> uint0_value (nat_digits n) = word_of_nat n"
  by (simp add: uint0_value_def ParseUint0_nat_digits)

lemma int0_value_nat_digits: "n < 2 ^ 63 \<Longrightarrow> int0_value (nat_digits n) = int n"
  by (simp add: int0_value_def ParseUint0_nat_digits strip_sign_digit has_prefix_digit hd_nat_digits)

lemma int0_value_itoa: "int64_range i \<Longrightarrow> int0_value (itoa i) = i"
proof (cases "i < 0")
  case True
  assume "int64_range i"
  then have "- i \<le> 2 ^ 63"
    by (simp add: int64_range_def)
  then have "nat (- i) \<le> nat (2 ^ 63)"
    by (rule nat_mono)
  then have "ParseUint0 (nat_digits (nat (- i))) = Inr (nat (- i))" "nat (- i) \<le> 2 ^ 63"
    by (simp_all add: ParseUint0_nat_digits)
  with True show ?thesis
    by (simp add: int0_value_def itoa_def strip_sign_def has_prefix_def)
next
  case False
  assume "int64_range i"
  with False show ?thesis
    using int0_value_nat_digits [of "nat i"] by (simp add: itoa_def int64_range_def)
qed

end
