(* ===== verification/Stl_Rate.thy ===== *)
theory Stl_Rate
  imports Go_Strconv
begin

text \<open>
  Transmit rates and transmit modes: \<open>pkg/stl/rate.go\<close> and \<open>pkg/stl/mode.go\<close>.
\<close>

section \<open>Rates\<close>

record rate =
  rate_type :: string
  rate_value :: f64

definition RatePPS :: string where "RatePPS = ''pps''"
definition RateBPSL1 :: string where "RateBPSL1 = ''bps_L1''"
definition RateBPSL2 :: string where "RateBPSL2 = ''bps_L2''"
definition RatePercentage :: string where "RatePercentage = ''percentage''"

lemmas rate_consts = RatePPS_def RateBPSL1_def RateBPSL2_def RatePercentage_def

datatype rate_error =
    EmptyRate
  | InvalidPercentage string
  | InvalidRate string

text \<open>The value of a number with an optional \<open>k\<close>, \<open>m\<close> or \<open>g\<close> suffix.\<close>

definition parseSINumber :: "string \<Rightarrow> f64 option" where
  "parseSINumber s0 = (let
      (mult, s) = (if s0 \<noteq> [] then
          (if last s0 = CHR ''k'' then (Fin 1000, butlast s0)
           else if last s0 = CHR ''m'' then (Fin 1000000, butlast s0)
           else if last s0 = CHR ''g'' then (Fin 1000000000, butlast s0)
           else (Fin 1, s0))
        else (Fin 1, s0))
    in case parse_float s of
         None \<Rightarrow> None
       | Some v \<Rightarrow> Some (f_mul v mult))"

definition rate_suffixes :: "(string \<times> string) list" where
  "rate_suffixes = [(''bpsl2'', RateBPSL2), (''bps'', RateBPSL1), (''pps'', RatePPS)]"

text \<open>The loop over the suffix table: the first suffix that matches decides.\<close>

fun parse_suffixes :: "(string \<times> string) list \<Rightarrow> string \<Rightarrow> (rate_error + rate) option" where
  "parse_suffixes [] s = None"
| "parse_suffixes ((suffix, typ) # rest) s =
     (if has_suffix s suffix then
        Some (case parseSINumber (trim_suffix s suffix) of
                None \<Rightarrow> Inl (InvalidRate s)
              | Some v \<Rightarrow> Inr \<lparr>rate_type = typ, rate_value = v\<rparr>)
      else parse_suffixes rest s)"

definition ParseRate :: "string \<Rightarrow> rate_error + rate" where
  "ParseRate s0 = (let s = trim_space (to_lower s0) in
     if s = [] then Inl EmptyRate
     else if has_suffix s ''%'' then
       (case parse_float (trim_suffix s ''%'') of
          None \<Rightarrow> Inl (InvalidPercentage s)
        | Some v \<Rightarrow> Inr \<lparr>rate_type = RatePercentage, rate_value = v\<rparr>)
     else case parse_suffixes rate_suffixes s of
       Some r \<Rightarrow> r
     | None \<Rightarrow>
         (case parseSINumber s of
            None \<Rightarrow> Inl (InvalidRate s)
          | Some v \<Rightarrow> Inr \<lparr>rate_type = RatePPS, rate_value = v\<rparr>))"

section \<open>Modes\<close>

record tx_mode =
  mode_rate :: rate
  mode_type :: string
  mode_total_pkts :: "int option"
  mode_pkts_per_burst :: "int option"
  mode_ibg :: "f64 option"
  mode_count :: "int option"

definition ModeContinuous :: string where "ModeContinuous = ''continuous''"
definition ModeSingleBurst :: string where "ModeSingleBurst = ''single_burst''"
definition ModeMultiBurst :: string where "ModeMultiBurst = ''multi_burst''"

lemmas mode_consts = ModeContinuous_def ModeSingleBurst_def ModeMultiBurst_def

definition Continuous :: "rate \<Rightarrow> tx_mode" where
  "Continuous r = \<lparr>mode_rate = r, mode_type = ModeContinuous, mode_total_pkts = None,
     mode_pkts_per_burst = None, mode_ibg = None, mode_count = None\<rparr>"

definition SingleBurst :: "rate \<Rightarrow> int \<Rightarrow> tx_mode" where
  "SingleBurst r totalPkts = \<lparr>mode_rate = r, mode_type = ModeSingleBurst,
     mode_total_pkts = Some totalPkts, mode_pkts_per_burst = None, mode_ibg = None, mode_count = None\<rparr>"

definition MultiBurst :: "rate \<Rightarrow> int \<Rightarrow> f64 \<Rightarrow> int \<Rightarrow> tx_mode" where
  "MultiBurst r pktsPerBurst ibg count = \<lparr>mode_rate = r, mode_type = ModeMultiBurst,
     mode_total_pkts = None, mode_pkts_per_burst = Some pktsPerBurst, mode_ibg = Some ibg,
     mode_count = Some count\<rparr>"

text \<open>The modes the constructors build: the fields set are those of the mode's type.\<close>

definition mode_wf :: "tx_mode \<Rightarrow> bool" where
  "mode_wf m \<longleftrightarrow>
     (mode_type m = ModeContinuous \<and> mode_total_pkts m = None \<and> mode_pkts_per_burst m = None \<and>
        mode_ibg m = None \<and> mode_count m = None) \<or>
     (mode_type m = ModeSingleBurst \<and> mode_total_pkts m \<noteq> None \<and> mode_pkts_per_burst m = None \<and>
        mode_ibg m = None \<and> mode_count m = None) \<or>
     (mode_type m = ModeMultiBurst \<and> mode_total_pkts m = None \<and> mode_pkts_per_burst m \<noteq> None \<and>
        mode_ibg m \<noteq> None \<and> mode_count m \<noteq> None)"

lemma mode_wf_constructors [simp]:
  "mode_wf (Continuous r)" "mode_wf (SingleBurst r n)" "mode_wf (MultiBurst r n g c)"
  by (simp_all add: mode_wf_def Continuous_def SingleBurst_def MultiBurst_def)

lemma mode_rate_constructors [simp]:
  "mode_rate (Continuous r) = r" "mode_rate (SingleBurst r n) = r" "mode_rate (MultiBurst r n g c) = r"
  by (simp_all add: Continuous_def SingleBurst_def MultiBurst_def)

section \<open>What ParseRate accepts and what it returns\<close>

text \<open>The units a rate can be written in: multiplier letters and rate suffixes.\<close>

definition si_prefixes :: "(string \<times> rat) list" where
  "si_prefixes = [('''', 1), (''k'', 1000), (''m'', 1000000), (''g'', 1000000000)]"

definition rate_units :: "(string \<times> string) list" where
  "rate_units = [('''', RatePPS), (''pps'', RatePPS), (''bps'', RateBPSL1), (''bpsl2'', RateBPSL2)]"

lemma parseSINumber_digits:
  assumes "(p, m) \<in> set si_prefixes" "f_finite (f_of_int (int n))"
  shows "parseSINumber (nat_digits n @ p) = Some (f_mul (f_of_int (int n)) (Fin m))"
proof -
  have "last (nat_digits n) \<noteq> CHR ''k''" "last (nat_digits n) \<noteq> CHR ''m''" "last (nat_digits n) \<noteq> CHR ''g''"
    using last_nat_digits [of n] by (auto simp: is_digit_def ch_code_def)
  with assms show ?thesis
    by (auto simp: si_prefixes_def parseSINumber_def parse_float_nat_digits Let_def)
qed

lemma no_suffix:
  assumes "t \<noteq> []" "s \<noteq> []" "last s \<noteq> last t"
  shows "\<not> has_suffix s t"
  using assms by (auto simp: has_suffix_iff)

lemma parseSINumber_ok: "parseSINumber s = Some v \<Longrightarrow> f64_ok v"
proof -
  have "fl 1000 = Fin 1000" "fl 1000000 = Fin 1000000" "fl 1000000000 = Fin 1000000000"
    by (rule fl_numeral, simp)+
  moreover have "fl 1 = Fin 1"
    using f_of_int_exact [of 1] by (simp add: f_of_int_def)
  ultimately have "f64_ok (Fin 1)" "f64_ok (Fin 1000)" "f64_ok (Fin 1000000)" "f64_ok (Fin 1000000000)"
    by (simp_all add: f64_ok_Fin)
  then show "parseSINumber s = Some v \<Longrightarrow> f64_ok v"
    by (auto simp: parseSINumber_def Let_def parse_float_ok f_mul_ok split: option.splits if_splits)
qed

lemma parse_suffixes_type:
  "parse_suffixes tbl s = Some (Inr r) \<Longrightarrow> rate_type r \<in> snd ` set tbl \<and> f64_ok (rate_value r)"
  by (induction tbl) (auto simp: parseSINumber_ok split: if_splits option.splits)


lemma to_lower_spaces: "list_all is_space l \<Longrightarrow> to_lower l = l"
  by (induction l) (auto simp: to_lower_def lower_char_def is_space_def)

lemma rate_text_shape:
  assumes "(p, m) \<in> set si_prefixes" "(u, ty) \<in> set rate_units"
  shows "nat_digits n @ p @ u \<noteq> []" "\<not> is_space (hd (nat_digits n @ p @ u))"
    "\<not> is_space (last (nat_digits n @ p @ u))" "\<not> has_suffix (nat_digits n @ p @ u) ''%''"
proof -
  have d: "\<not> is_space (hd (nat_digits n))" "\<not> is_space (last (nat_digits n))"
    using hd_nat_digits last_nat_digits digit_not_space by blast+
  have pc: "last (nat_digits n) \<noteq> CHR ''%''"
    using last_nat_digits [of n] by (auto simp: is_digit_def ch_code_def)
  show "nat_digits n @ p @ u \<noteq> []" by simp
  show "\<not> is_space (hd (nat_digits n @ p @ u))" using d by simp
  show "\<not> is_space (last (nat_digits n @ p @ u))"
    using assms d by (auto simp: si_prefixes_def rate_units_def is_space_def ch_code_def)
  show "\<not> has_suffix (nat_digits n @ p @ u) ''%''"
    using assms pc by (intro no_suffix) (auto simp: si_prefixes_def rate_units_def)
qed

lemma has_suffix_set: "has_suffix s t \<Longrightarrow> set t \<subseteq> set s"
  by (auto simp: has_suffix_iff)

lemma has_suffix_same_length: "length a = length b \<Longrightarrow> has_suffix (x @ a) b \<longleftrightarrow> a = b"
  by (auto simp: has_suffix_def)

lemma parse_suffixes_append:
  assumes "CHR ''s'' \<notin> set x"
  shows "parse_suffixes rate_suffixes x = None"
    "parse_suffixes rate_suffixes (x @ ''pps'') =
       Some (case parseSINumber x of None \<Rightarrow> Inl (InvalidRate (x @ ''pps''))
               | Some v \<Rightarrow> Inr \<lparr>rate_type = RatePPS, rate_value = v\<rparr>)"
    "parse_suffixes rate_suffixes (x @ ''bps'') =
       Some (case parseSINumber x of None \<Rightarrow> Inl (InvalidRate (x @ ''bps''))
               | Some v \<Rightarrow> Inr \<lparr>rate_type = RateBPSL1, rate_value = v\<rparr>)"
    "parse_suffixes rate_suffixes (x @ ''bpsl2'') =
       Some (case parseSINumber x of None \<Rightarrow> Inl (InvalidRate (x @ ''bpsl2''))
               | Some v \<Rightarrow> Inr \<lparr>rate_type = RateBPSL2, rate_value = v\<rparr>)"
  using assms has_suffix_set [of x "''pps''"] has_suffix_set [of x "''bps''"]
    has_suffix_set [of x "''bpsl2''"] no_suffix [of "''bpsl2''" "x @ ''pps''"]
    no_suffix [of "''bpsl2''" "x @ ''bps''"]
  by (auto simp: rate_suffixes_def has_suffix_same_length simp del: append_Cons)

lemma ParseRate_normal:
  assumes "s \<noteq> []" "trim_space (to_lower s0) = s"
  shows "ParseRate s0 = (if has_suffix s ''%'' then
       (case parse_float (trim_suffix s ''%'') of
          None \<Rightarrow> Inl (InvalidPercentage s)
        | Some v \<Rightarrow> Inr \<lparr>rate_type = RatePercentage, rate_value = v\<rparr>)
     else case parse_suffixes rate_suffixes s of
       Some r \<Rightarrow> r
     | None \<Rightarrow>
         (case parseSINumber s of
            None \<Rightarrow> Inl (InvalidRate s)
          | Some v \<Rightarrow> Inr \<lparr>rate_type = RatePPS, rate_value = v\<rparr>))"
  using assms by (simp add: ParseRate_def)

text \<open>A number with a multiplier and a unit.\<close>

lemma ParseRate_units:
  assumes "(p, m) \<in> set si_prefixes" "(u, ty) \<in> set rate_units"
    and "f_finite (f_of_int (int n))"
    and "list_all is_space l" "list_all is_space r" "to_lower t = nat_digits n @ p @ u"
  shows "ParseRate (l @ t @ r) = Inr \<lparr>rate_type = ty, rate_value = f_mul (f_of_int (int n)) (Fin m)\<rparr>"
proof -
  let ?s = "nat_digits n @ p @ u"
  have trim: "trim_space (to_lower (l @ t @ r)) = ?s"
    using rate_text_shape [OF assms(1,2), of n] assms(4-6)
    by (simp add: to_lower_spaces trim_space_pad del: append_assoc)
  have s_free: "CHR ''s'' \<notin> set (nat_digits n @ p)"
    using assms(1) nat_digits_digits [of n]
    by (auto simp: si_prefixes_def list_all_iff is_digit_def ch_code_def)
  show ?thesis
    using assms(2) rate_text_shape [OF assms(1,2), of n] ParseRate_normal [OF _ trim]
      parse_suffixes_append [OF s_free] parseSINumber_digits [OF assms(1,3)]
    by (auto simp: rate_units_def)
qed

text \<open>A percentage.\<close>

lemma ParseRate_percentage:
  assumes "f_finite (f_of_int (int n))" "list_all is_space l" "list_all is_space r" "to_lower t = nat_digits n @ ''%''"
  shows "ParseRate (l @ t @ r) = Inr \<lparr>rate_type = RatePercentage, rate_value = f_mul (f_of_int (int n)) (Fin 1)\<rparr>"
proof -
  let ?s = "nat_digits n @ ''%''"
  have "\<not> is_space (hd ?s)" "\<not> is_space (last ?s)"
    using hd_nat_digits [of n] digit_not_space by (auto simp: is_space_def ch_code_def)
  then have trim: "trim_space (to_lower (l @ t @ r)) = ?s"
    using assms(2-4) by (simp add: to_lower_spaces trim_space_pad del: append_assoc)
  have "has_suffix ?s ''%''"
    by (auto simp: has_suffix_iff)
  moreover have "f_mul (f_of_int (int n)) (Fin 1) = f_of_int (int n)"
    using assms(1) by (cases "fl (of_nat n)") (simp_all add: f_of_int_def f_finite_def, metis f64_ok_Fin fl_ok)
  moreover have "?s \<noteq> []" by simp
  ultimately show ?thesis
    using ParseRate_normal [OF _ trim] parse_float_nat_digits [OF assms(1)] by simp
qed

text \<open>What may follow the number in a rate: the forms in the comment on \<open>ParseRate\<close>.\<close>

definition rate_forms :: "(string \<times> string \<times> rat) list" where
  "rate_forms = (''%'', RatePercentage, 1) #
     concat (map (\<lambda>(p, m). map (\<lambda>(u, ty). (p @ u, ty, m)) rate_units) si_prefixes)"

section \<open>Properties\<close>

text \<open>C31: a whole number written in any of the documented forms is parsed to the rate it denotes, in
  any letter case and with white space around it: a percentage, packets per second, and bits per
  second with or without the framing, with the multipliers k, m and g; the value is the number
  times the multiplier as binary64 numbers.\<close>

theorem ParseRate_forms:
  assumes "(form, ty, m) \<in> set rate_forms" "to_lower t = nat_digits n @ form"
    and "f_finite (f_of_int (int n))" "list_all is_space l" "list_all is_space r"
  shows "ParseRate (l @ t @ r) = Inr \<lparr>rate_type = ty, rate_value = f_mul (f_of_int (int n)) (Fin m)\<rparr>"
proof (cases "form = ''%''")
  case True
  then have "ty = RatePercentage" "m = 1"
    using assms(1) by (auto simp: rate_forms_def rate_units_def si_prefixes_def)
  then show ?thesis
    using ParseRate_percentage [OF assms(3-5)] assms(2) True by simp
next
  case False
  then obtain p u where "(p, m) \<in> set si_prefixes" "(u, ty) \<in> set rate_units" "form = p @ u"
    using assms(1) by (auto simp: rate_forms_def)
  then show ?thesis
    using ParseRate_units [OF _ _ assms(3-5)] assms(2) by simp
qed

theorem ParseRate_forms_witness:
  "ParseRate '' 10KPPS '' = Inr \<lparr>rate_type = ''pps'', rate_value = f_mul (f_of_int 10) (Fin 1000)\<rparr>"
proof -
  have "nat_digits 10 = ''10''"
    by (simp add: nat_digits.simps)
  moreover have "to_lower ''10KPPS'' = ''10kpps''"
    by code_simp
  moreover have "f_finite (f_of_int (int 10))"
    using f_of_int_exact [of 10] by (simp add: f_finite_def)
  moreover have "(''kpps'', ''pps'', 1000) \<in> set rate_forms"
    by (simp add: rate_forms_def si_prefixes_def rate_units_def rate_consts)
  ultimately show ?thesis
    using ParseRate_forms [of "''kpps''" "''pps''" 1000 "''10KPPS''" 10 "'' ''" "'' ''"]
    by (simp add: is_space_def ch_code_def)
qed

text \<open>whatever the text, a rate that \<open>ParseRate\<close> returns has one of the four rate
  types the server knows and a value that is a binary64 number.\<close>

theorem ParseRate_type:
  assumes "ParseRate s = Inr r"
  shows "rate_type r \<in> {RatePPS, RateBPSL1, RateBPSL2, RatePercentage} \<and> f64_ok (rate_value r)"
proof -
  have "rate_type r \<in> snd ` set rate_suffixes \<and> f64_ok (rate_value r)"
    if "parse_suffixes rate_suffixes t = Some (Inr r)" for t
    using parse_suffixes_type [OF that] .
  with assms show ?thesis
    by (auto simp: ParseRate_def Let_def rate_suffixes_def parse_float_ok parseSINumber_ok
        split: if_splits option.splits)
qed

theorem ParseRate_type_witness:
  "\<exists>r. ParseRate ''5'' = Inr r \<and>
     rate_type r \<in> {RatePPS, RateBPSL1, RateBPSL2, RatePercentage} \<and> f64_ok (rate_value r)"
proof -
  have five: "nat_digits 5 = ''5''" "f_of_int 5 = Fin 5"
    using f_of_int_exact [of 5] by (simp_all add: nat_digits.simps)
  have "f_finite (f_of_int (int 5))"
    by (simp add: five f_finite_def)
  then have num: "parseSINumber ''5'' = Some (Fin 5)"
    using parseSINumber_digits [of "[]" 1 5] fl_numeral [of "num.Bit1 (num.Bit0 num.One)"]
    by (simp add: five si_prefixes_def)
  have "trim_space (to_lower ''5'') = ''5''"
    by code_simp
  moreover have "parse_suffixes rate_suffixes ''5'' = None"
    by (rule parse_suffixes_append(1)) simp
  ultimately have r: "ParseRate ''5'' = Inr \<lparr>rate_type = ''pps'', rate_value = Fin 5\<rparr>"
    using num ParseRate_normal [of "''5''" "''5''"] by (simp add: has_suffix_def rate_consts)
  from ParseRate_type [OF this] r show ?thesis by blast
qed

end
