(* ===== verification/Go_Base64.thy ===== *)
theory Go_Base64
  imports Go_Strings
begin

text \<open>
  Go's \<open>base64.StdEncoding\<close>: the packet bytes travel in this form. Decoding skips line
  breaks, requires padding and ignores the unused low bits of the last digit.
\<close>

definition b64_char :: "nat \<Rightarrow> char" where
  "b64_char n = (if n < 26 then char_of (65 + n) else if n < 52 then char_of (71 + n)
     else if n < 62 then char_of (n - 4) else if n = 62 then CHR ''+'' else CHR ''/'')"

definition b64_val :: "char \<Rightarrow> nat option" where
  "b64_val c = (let n = ch_code c in
     if 65 \<le> n \<and> n \<le> 90 then Some (n - 65) else if 97 \<le> n \<and> n \<le> 122 then Some (n - 71)
     else if 48 \<le> n \<and> n \<le> 57 then Some (n + 4) else if n = 43 then Some 62
     else if n = 47 then Some 63 else None)"

fun b64_encode :: "u8 list \<Rightarrow> string" where
  "b64_encode [] = []"
| "b64_encode [a] =
     [b64_char (unat a div 4), b64_char (unat a mod 4 * 16), CHR ''='', CHR ''='']"
| "b64_encode [a, b] =
     [b64_char (unat a div 4), b64_char (unat a mod 4 * 16 + unat b div 16),
      b64_char (unat b mod 16 * 4), CHR ''='']"
| "b64_encode (a # b # c # rest) =
     b64_char (unat a div 4) # b64_char (unat a mod 4 * 16 + unat b div 16) #
     b64_char (unat b mod 16 * 4 + unat c div 64) # b64_char (unat c mod 64) # b64_encode rest"

definition byte :: "nat \<Rightarrow> u8" where
  "byte n = of_nat n"

fun b64_groups :: "string \<Rightarrow> u8 list option" where
  "b64_groups [] = Some []"
| "b64_groups (a # b # c # d # rest) =
     (case (b64_val a, b64_val b) of
        (Some x, Some y) \<Rightarrow>
          if c = CHR ''='' then
            (if d = CHR ''='' \<and> rest = [] then Some [byte (x * 4 + y div 16)] else None)
          else (case b64_val c of
            None \<Rightarrow> None
          | Some z \<Rightarrow>
              if d = CHR ''='' then
                (if rest = [] then Some [byte (x * 4 + y div 16), byte (y mod 16 * 16 + z div 4)] else None)
              else (case b64_val d of
                None \<Rightarrow> None
              | Some w \<Rightarrow> map_option
                  (\<lambda>r. byte (x * 4 + y div 16) # byte (y mod 16 * 16 + z div 4) # byte (z mod 4 * 64 + w) # r)
                  (b64_groups rest)))
      | _ \<Rightarrow> None)"
| "b64_groups _ = None"

definition b64_decode :: "string \<Rightarrow> u8 list option" where
  "b64_decode s = b64_groups (filter (\<lambda>c. ch_code c \<noteq> 10 \<and> ch_code c \<noteq> 13) s)"

lemma b64_code: "n < 64 \<Longrightarrow> ch_code (b64_char n) =
    (if n < 26 then 65 + n else if n < 52 then 71 + n else if n < 62 then n - 4 else if n = 62 then 43 else 47)"
  by (auto simp: b64_char_def ch_code_def)

lemma b64_val_char [simp]: "n < 64 \<Longrightarrow> b64_val (b64_char n) = Some n"
  by (auto simp: b64_val_def b64_code Let_def)

lemma b64_char_no_pad [simp]: "n < 64 \<Longrightarrow> b64_char n \<noteq> CHR ''=''"
  using b64_code [of n] by (auto simp: ch_code_def split: if_splits)

lemma b64_char_no_break: "n < 64 \<Longrightarrow> ch_code (b64_char n) \<noteq> 10 \<and> ch_code (b64_char n) \<noteq> 13"
  by (auto simp: b64_code)

lemma byte_unat [simp]: "byte (unat w) = w"
  by (simp add: byte_def)

lemma b64_bounds:
  "unat (a :: u8) div 4 < 64" "unat a mod 4 * 16 < 64" "unat a mod 4 * 16 + unat (b :: u8) div 16 < 64"
  "unat b mod 16 * 4 < 64" "unat b mod 16 * 4 + unat (c :: u8) div 64 < 64" "unat c mod 64 < 64"
  using unat_byte_less [of a] unat_byte_less [of b] unat_byte_less [of c] by auto

lemma b64_pieces:
  "unat (b :: u8) div 16 mod 16 = unat b div 16" "unat b div 16 div 16 = 0"
  "unat b div 64 mod 4 = unat b div 64" "unat b div 64 div 4 = 0"
  using unat_byte_less [of b] by auto

lemma b64_groups_encode: "b64_groups (b64_encode bs) = Some bs"
  by (induction bs rule: b64_encode.induct) (simp_all add: b64_bounds b64_pieces div_mult_mod_eq)

lemma b64_encode_no_break:
  "list_all (\<lambda>c. ch_code c \<noteq> 10 \<and> ch_code c \<noteq> 13) (b64_encode bs)"
  by (induction bs rule: b64_encode.induct)
    (simp_all add: b64_char_no_break b64_bounds, simp_all add: ch_code_def)

lemma b64_decode_encode [simp]: "b64_decode (b64_encode bs) = Some bs"
proof -
  have "filter (\<lambda>c. ch_code c \<noteq> 10 \<and> ch_code c \<noteq> 13) (b64_encode bs) = b64_encode bs"
    using b64_encode_no_break [of bs] by (simp add: list_all_iff filter_id_conv)
  then show ?thesis by (simp add: b64_decode_def b64_groups_encode)
qed

lemma b64_encode_inject: "b64_encode bs = b64_encode cs \<longleftrightarrow> bs = cs"
  by (metis b64_decode_encode option.inject)

end
