(* ===== verification/Stl_Packet.thy ===== *)
theory Stl_Packet
  imports Go_Base64
begin

text \<open>
  Packets and symbolic field offsets: \<open>pkg/stl/packet.go\<close>. The gopacket library, which
  serializes layers and decodes frames, is a parameter of the definitions that use it.
\<close>

section \<open>The packet library and the packet type\<close>

text \<open>The layer types the code tells apart; every other type is \<open>LOther\<close> with its number.\<close>

datatype layer_type = LEthernet | LDot1Q | LIPv4 | LIPv6 | LUDP | LTCP | LOther nat

text \<open>
  \<open>gp_serialize\<close> is \<open>gopacket.SerializeLayers\<close> with lengths and checksums fixed up;
  \<open>gp_decode\<close> is \<open>gopacket.NewPacket\<close> on an Ethernet frame: an error layer, or the layers
  in order with the number of bytes of each header (\<open>LayerContents\<close>).
\<close>

record 'l gopacket =
  gp_serialize :: "'l list \<Rightarrow> string + u8 list"
  gp_decode :: "u8 list \<Rightarrow> string + (layer_type \<times> nat) list"

record packet =
  pkt_binary :: "u8 list"
  pkt_starts :: "string \<rightharpoonup> int"

datatype packet_error =
    SerializeError string
  | DecodeError string
  | UnknownLayer string string
  | LayerNotPresent string
  | NoFieldTable string
  | UnknownField string string

definition Base64 :: "packet \<Rightarrow> string" where
  "Base64 p = b64_encode (pkt_binary p)"

text \<open>\<open>Payload(size)\<close>: Go's \<open>make\<close> panics on a negative size, which is \<open>None\<close>.\<close>

definition Payload :: "int \<Rightarrow> u8 list option" where
  "Payload sz = (if sz < 0 then None else Some (replicate (nat sz) 0))"

definition canonicalLayerName :: "layer_type \<Rightarrow> string option" where
  "canonicalLayerName t = (case t of
      LEthernet \<Rightarrow> Some ''Ether''
    | LDot1Q \<Rightarrow> Some ''Dot1Q''
    | LIPv4 \<Rightarrow> Some ''IP''
    | LIPv6 \<Rightarrow> Some ''IPv6''
    | LUDP \<Rightarrow> Some ''UDP''
    | LTCP \<Rightarrow> Some ''TCP''
    | LOther _ \<Rightarrow> None)"

definition aliasLayerName :: "string \<Rightarrow> string option" where
  "aliasLayerName name =
     (if name \<in> {''Ether'', ''Eth'', ''eth'', ''ether''} then Some ''Ether''
      else if name \<in> {''Dot1Q'', ''VLAN'', ''vlan''} then Some ''Dot1Q''
      else if name \<in> {''IP'', ''IPv4'', ''ip'', ''ipv4''} then Some ''IP''
      else if name \<in> {''IPv6'', ''ipv6''} then Some ''IPv6''
      else if name \<in> {''UDP'', ''udp''} then Some ''UDP''
      else if name \<in> {''TCP'', ''tcp''} then Some ''TCP''
      else None)"

definition fieldOffsets :: "string \<rightharpoonup> (string \<rightharpoonup> int)" where
  "fieldOffsets = map_of
    [(''Ether'', map_of [(''dst'', 0), (''src'', 6), (''type'', 12)]),
     (''Dot1Q'', map_of [(''vlan'', 0), (''type'', 2)]),
     (''IP'', map_of
       [(''tos'', 1), (''len'', 2), (''id'', 4), (''flags'', 6), (''frag'', 6),
        (''ttl'', 8), (''proto'', 9), (''chksum'', 10), (''src'', 12), (''dst'', 16)]),
     (''IPv6'', map_of [(''src'', 8), (''dst'', 24)]),
     (''UDP'', map_of [(''sport'', 0), (''dport'', 2), (''len'', 4), (''chksum'', 6)]),
     (''TCP'', map_of
       [(''sport'', 0), (''dport'', 2), (''seq'', 4), (''ack'', 8),
        (''flags'', 13), (''window'', 14), (''chksum'', 16), (''urgptr'', 18)])]"

section \<open>Layer offsets\<close>

text \<open>The loop over the decoded layers: the first layer of a name keeps its offset.\<close>

fun layer_starts :: "(layer_type \<times> nat) list \<Rightarrow> int \<Rightarrow> (string \<rightharpoonup> int) \<Rightarrow> (string \<rightharpoonup> int)" where
  "layer_starts [] offset starts = starts"
| "layer_starts ((t, n) # ls) offset starts =
     layer_starts ls (offset + int n)
       (case canonicalLayerName t of
          Some name \<Rightarrow> (if starts name = None then starts(name \<mapsto> offset) else starts)
        | None \<Rightarrow> starts)"

definition decodeLayerStarts :: "'l gopacket \<Rightarrow> u8 list \<Rightarrow> packet_error + (string \<rightharpoonup> int)" where
  "decodeLayerStarts gp bin = (case gp_decode gp bin of
      Inl e \<Rightarrow> Inl (DecodeError e)
    | Inr ls \<Rightarrow> Inr (layer_starts ls 0 Map.empty))"

definition RawPacket :: "'l gopacket \<Rightarrow> u8 list \<Rightarrow> packet_error + packet" where
  "RawPacket gp bin = (case decodeLayerStarts gp bin of
      Inl e \<Rightarrow> Inl e
    | Inr starts \<Rightarrow> Inr \<lparr>pkt_binary = bin, pkt_starts = starts\<rparr>)"

definition BuildPacket :: "'l gopacket \<Rightarrow> 'l list \<Rightarrow> packet_error + packet" where
  "BuildPacket gp ls = (case gp_serialize gp ls of
      Inl e \<Rightarrow> Inl (SerializeError e)
    | Inr bin \<Rightarrow> (case decodeLayerStarts gp bin of
        Inl e \<Rightarrow> Inl e
      | Inr starts \<Rightarrow> Inr \<lparr>pkt_binary = bin, pkt_starts = starts\<rparr>))"

definition ResolveOffset :: "packet \<Rightarrow> string \<Rightarrow> packet_error + int" where
  "ResolveOffset p ref = (case cut CHR ''.'' ref of (layerName, field, hasField) \<Rightarrow>
     (case aliasLayerName layerName of
        None \<Rightarrow> Inl (UnknownLayer layerName ref)
      | Some canon \<Rightarrow>
          (case pkt_starts p canon of
             None \<Rightarrow> Inl (LayerNotPresent canon)
           | Some start \<Rightarrow>
               if \<not> hasField then Inr start
               else (case fieldOffsets canon of
                 None \<Rightarrow> Inl (NoFieldTable canon)
               | Some ftab \<Rightarrow>
                   (case ftab field of
                      None \<Rightarrow> Inl (UnknownField field canon)
                    | Some foffset \<Rightarrow> Inr (start + foffset))))))"

section \<open>Lemmas\<close>

text \<open>
  The specification of the offset table: the first layer with a given canonical name, and
  the number of header bytes in front of it.
\<close>

definition first_layer :: "string \<Rightarrow> (layer_type \<times> nat) list \<Rightarrow> nat \<Rightarrow> bool" where
  "first_layer name ls i \<longleftrightarrow> i < length ls \<and> canonicalLayerName (fst (ls ! i)) = Some name \<and>
     (\<forall>j < i. canonicalLayerName (fst (ls ! j)) \<noteq> Some name)"

definition bytes_before :: "(layer_type \<times> nat) list \<Rightarrow> nat \<Rightarrow> nat" where
  "bytes_before ls i = sum_list (map snd (take i ls))"

lemma first_layer_Cons_0:
  "first_layer name ((t, n) # ls) 0 \<longleftrightarrow> canonicalLayerName t = Some name"
  by (simp add: first_layer_def)

lemma first_layer_Cons_Suc:
  "first_layer name ((t, n) # ls) (Suc i) \<longleftrightarrow>
     canonicalLayerName t \<noteq> Some name \<and> first_layer name ls i"
  by (auto simp: first_layer_def All_less_Suc2)

lemma layer_starts_iff:
  "layer_starts ls off st name = Some v \<longleftrightarrow>
     (case st name of
        Some w \<Rightarrow> v = w
      | None \<Rightarrow> \<exists>i. first_layer name ls i \<and> v = off + int (bytes_before ls i))"
proof (induction ls off st rule: layer_starts.induct)
  case (1 off st)
  then show ?case by (auto simp: first_layer_def split: option.splits)
next
  case (2 t n ls off st)
  have ex: "(\<exists>i. first_layer name ((t, n) # ls) i \<and> v = off + int (bytes_before ((t, n) # ls) i)) \<longleftrightarrow>
      (if canonicalLayerName t = Some name then v = off
       else \<exists>i. first_layer name ls i \<and> v = off + int n + int (bytes_before ls i))"
    (is "(\<exists>i. ?P i) \<longleftrightarrow> _")
  proof -
    have "(\<exists>i. ?P i) \<longleftrightarrow> ?P 0 \<or> (\<exists>i. ?P (Suc i))"
      by (metis not0_implies_Suc)
    then show ?thesis
      by (auto simp: first_layer_Cons_0 first_layer_Cons_Suc bytes_before_def)
  qed
  show ?case
    unfolding layer_starts.simps 2 ex by (auto split: option.splits if_splits)
qed

lemma first_layer_unique: "first_layer name ls i \<Longrightarrow> first_layer name ls j \<Longrightarrow> i = j"
  unfolding first_layer_def by (metis nat_neq_iff)

lemma decodeLayerStarts_iff:
  assumes "gp_decode gp bin = Inr ls" "decodeLayerStarts gp bin = Inr st"
  shows "st name = Some v \<longleftrightarrow> (\<exists>i. first_layer name ls i \<and> v = int (bytes_before ls i))"
  using assms by (auto simp: decodeLayerStarts_def layer_starts_iff)

text \<open>
  The formats of the headers as their standards give them: the fields in order with their widths
  in bits, those that a reference can name by the name that Scapy gives them; and the names of
  the layers.
\<close>

definition header_format :: "layer_type \<Rightarrow> (string option \<times> nat) list" where
  "header_format t = (case t of
      LEthernet \<Rightarrow> [(Some ''dst'', 48), (Some ''src'', 48), (Some ''type'', 16)]
    | LDot1Q \<Rightarrow> [(None, 3), (None, 1), (Some ''vlan'', 12), (Some ''type'', 16)]
    | LIPv4 \<Rightarrow> [(None, 4), (None, 4), (Some ''tos'', 8), (Some ''len'', 16), (Some ''id'', 16), (Some ''flags'', 3),
        (Some ''frag'', 13), (Some ''ttl'', 8), (Some ''proto'', 8), (Some ''chksum'', 16), (Some ''src'', 32), (Some ''dst'', 32)]
    | LIPv6 \<Rightarrow> [(None, 4), (None, 8), (None, 20), (None, 16), (None, 8), (None, 8), (Some ''src'', 128), (Some ''dst'', 128)]
    | LUDP \<Rightarrow> [(Some ''sport'', 16), (Some ''dport'', 16), (Some ''len'', 16), (Some ''chksum'', 16)]
    | LTCP \<Rightarrow> [(Some ''sport'', 16), (Some ''dport'', 16), (Some ''seq'', 32), (Some ''ack'', 32), (None, 4), (None, 4),
        (Some ''flags'', 8), (Some ''window'', 16), (Some ''chksum'', 16), (Some ''urgptr'', 16)]
    | LOther _ \<Rightarrow> [])"

definition layer_names :: "layer_type \<Rightarrow> string list" where
  "layer_names t = (case t of
      LEthernet \<Rightarrow> [''Ether'', ''Eth'', ''eth'', ''ether''] | LDot1Q \<Rightarrow> [''Dot1Q'', ''VLAN'', ''vlan'']
    | LIPv4 \<Rightarrow> [''IP'', ''IPv4'', ''ip'', ''ipv4''] | LIPv6 \<Rightarrow> [''IPv6'', ''ipv6'']
    | LUDP \<Rightarrow> [''UDP'', ''udp''] | LTCP \<Rightarrow> [''TCP'', ''tcp''] | LOther _ \<Rightarrow> [])"

definition header_bits :: "layer_type \<Rightarrow> nat" where
  "header_bits t = sum_list (map snd (header_format t))"

text \<open>The byte in which a field begins.\<close>

fun field_bit :: "string \<Rightarrow> (string option \<times> nat) list \<Rightarrow> nat option" where
  "field_bit f [] = None"
| "field_bit f ((g, w) # fs) = (if g = Some f then Some 0 else map_option ((+) w) (field_bit f fs))"

definition field_byte :: "layer_type \<Rightarrow> string \<Rightarrow> nat option" where
  "field_byte t f = map_option (\<lambda>b. b div 8) (field_bit f (header_format t))"

lemma field_bit_less: "field_bit f fs = Some b \<Longrightarrow> \<forall>(g, w) \<in> set fs. 0 < w \<Longrightarrow> b < sum_list (map snd fs)"
  by (induction fs arbitrary: b) (auto split: if_splits)

lemma field_byte_less:
  assumes "field_byte t f = Some b"
  shows "8 * b < header_bits t"
proof -
  obtain k where k: "field_bit f (header_format t) = Some k" "b = k div 8"
    using assms by (auto simp: field_byte_def)
  have "\<forall>(g, w) \<in> set (header_format t). 0 < w"
    by (cases t) (simp_all add: header_format_def)
  from field_bit_less [OF k(1) this] show ?thesis
    unfolding header_bits_def k(2) by (rule le_less_trans [rotated]) simp
qed

lemma header_bits_pos: "n \<in> set (layer_names t) \<Longrightarrow> 0 < header_bits t"
  by (auto simp: layer_names_def header_bits_def header_format_def split: layer_type.splits)

lemma field_byte_offset: "canonicalLayerName t = Some c \<Longrightarrow>
    \<exists>ftab. fieldOffsets c = Some ftab \<and> (\<forall>f. ftab f = map_option int (field_byte t f))"
  by (cases t) (auto simp: canonicalLayerName_def fieldOffsets_def field_byte_def header_format_def)

lemma layer_names_alias: "n \<in> set (layer_names t) \<Longrightarrow> aliasLayerName n = canonicalLayerName t"
  by (cases t) (simp_all add: layer_names_def, (elim disjE, simp_all add: aliasLayerName_def canonicalLayerName_def)+)

lemma aliasLayerName_layer: "aliasLayerName n = Some c \<Longrightarrow> \<exists>t. n \<in> set (layer_names t)"
proof (rule ccontr)
  assume some: "aliasLayerName n = Some c" and "\<nexists>t. n \<in> set (layer_names t)"
  then have "n \<notin> set (layer_names LEthernet)" "n \<notin> set (layer_names LDot1Q)" "n \<notin> set (layer_names LIPv4)"
    "n \<notin> set (layer_names LIPv6)" "n \<notin> set (layer_names LUDP)" "n \<notin> set (layer_names LTCP)"
    by blast+
  then have "aliasLayerName n = None"
    unfolding layer_names_def aliasLayerName_def by simp
  with some show False by simp
qed

lemma aliasLayerName_names:
  "aliasLayerName n = Some c \<longleftrightarrow> (\<exists>t. n \<in> set (layer_names t) \<and> canonicalLayerName t = Some c)"
  using layer_names_alias aliasLayerName_layer by metis

lemma canonical_inj: "canonicalLayerName t = Some c \<Longrightarrow> canonicalLayerName u = Some c \<longleftrightarrow> u = t"
  by (cases t; cases u) (auto simp: canonicalLayerName_def)

text \<open>A reference: the name of a layer, and the name of a field of it.\<close>

lemma layer_names_no_dot: "n \<in> set (layer_names t) \<Longrightarrow> CHR ''.'' \<notin> set n"
  by (auto simp: layer_names_def split: layer_type.splits)

lemma bytes_before_le: "i < length ls \<Longrightarrow> bytes_before ls i + snd (ls ! i) \<le> sum_list (map snd ls)"
proof -
  assume i: "i < length ls"
  have "sum_list (map snd ls) = sum_list (map snd (take (Suc i) ls)) + sum_list (map snd (drop (Suc i) ls))"
    by (metis append_take_drop_id map_append sum_list_append)
  also have "sum_list (map snd (take (Suc i) ls)) = bytes_before ls i + snd (ls ! i)"
    using i by (simp add: bytes_before_def take_Suc_conv_app_nth)
  finally show ?thesis by simp
qed

lemma RawPacket_Inr:
  "RawPacket gp bin = Inr p \<longleftrightarrow>
     (\<exists>ls. gp_decode gp bin = Inr ls \<and> p = \<lparr>pkt_binary = bin, pkt_starts = layer_starts ls 0 Map.empty\<rparr>)"
  by (auto simp: RawPacket_def decodeLayerStarts_def split: sum.splits)

lemma BuildPacket_Inr:
  "BuildPacket gp l = Inr p \<longleftrightarrow>
     (\<exists>bin. gp_serialize gp l = Inr bin \<and> RawPacket gp bin = Inr p)"
  by (auto simp: BuildPacket_def RawPacket_def split: sum.splits)


text \<open>The first layer of a type.\<close>

definition first_of :: "layer_type \<Rightarrow> (layer_type \<times> nat) list \<Rightarrow> nat \<Rightarrow> bool" where
  "first_of t ls i \<longleftrightarrow> i < length ls \<and> fst (ls ! i) = t \<and> (\<forall>j < i. fst (ls ! j) \<noteq> t)"

lemma first_layer_of: "canonicalLayerName t = Some c \<Longrightarrow> first_layer c ls i \<longleftrightarrow> first_of t ls i"
  by (auto simp: first_layer_def first_of_def canonical_inj)

lemma layer_names_canonical: "n \<in> set (layer_names t) \<Longrightarrow> \<exists>c. canonicalLayerName t = Some c"
  by (cases t) (simp_all add: layer_names_def canonicalLayerName_def)

lemma pkt_starts_of:
  assumes "RawPacket gp bin = Inr p" "gp_decode gp bin = Inr ls" "canonicalLayerName t = Some c"
  shows "pkt_starts p c = Some v \<longleftrightarrow> (\<exists>i. first_of t ls i \<and> v = int (bytes_before ls i))"
  using assms by (auto simp: RawPacket_Inr layer_starts_iff first_layer_of)

lemma ResolveOffset_parts:
  assumes "cut CHR ''.'' ref = (n, f, h)"
  shows "ResolveOffset p ref = Inr off \<longleftrightarrow> (\<exists>t c start. n \<in> set (layer_names t) \<and>
    canonicalLayerName t = Some c \<and> pkt_starts p c = Some start \<and>
    (if h then \<exists>b. field_byte t f = Some b \<and> off = start + int b else off = start))"
proof -
  have "ResolveOffset p ref = Inr off \<longleftrightarrow> (\<exists>c start. aliasLayerName n = Some c \<and> pkt_starts p c = Some start \<and>
      (if h then \<exists>ftab o'. fieldOffsets c = Some ftab \<and> ftab f = Some o' \<and> off = start + o' else off = start))"
    by (auto simp: ResolveOffset_def assms split: option.splits)
  also have "\<dots> \<longleftrightarrow> (\<exists>t c start. n \<in> set (layer_names t) \<and> canonicalLayerName t = Some c \<and> pkt_starts p c = Some start \<and>
      (if h then \<exists>ftab o'. fieldOffsets c = Some ftab \<and> ftab f = Some o' \<and> off = start + o' else off = start))"
    unfolding aliasLayerName_names by blast
  also have "\<dots> \<longleftrightarrow> (\<exists>t c start. n \<in> set (layer_names t) \<and> canonicalLayerName t = Some c \<and> pkt_starts p c = Some start \<and>
      (if h then \<exists>b. field_byte t f = Some b \<and> off = start + int b else off = start))"
  proof (intro ex_cong1 conj_cong refl)
    fix t c start assume "canonicalLayerName t = Some c"
    then obtain ftab where "fieldOffsets c = Some ftab" "\<And>f. ftab f = map_option int (field_byte t f)"
      using field_byte_offset by blast
    then show "(if h then \<exists>ftab o'. fieldOffsets c = Some ftab \<and> ftab f = Some o' \<and> off = start + o' else off = start) \<longleftrightarrow>
        (if h then \<exists>b. field_byte t f = Some b \<and> off = start + int b else off = start)"
      by auto
  qed
  finally show ?thesis .
qed

lemma ResolveOffset_layer:
  assumes "RawPacket gp bin = Inr p" "gp_decode gp bin = Inr ls" "cut CHR ''.'' ref = (n, f, h)"
  shows "ResolveOffset p ref = Inr off \<longleftrightarrow> (\<exists>t i. n \<in> set (layer_names t) \<and> first_of t ls i \<and>
    (if h then \<exists>b. field_byte t f = Some b \<and> off = int (bytes_before ls i + b) else off = int (bytes_before ls i)))"
proof -
  have "(\<exists>c start. canonicalLayerName t = Some c \<and> pkt_starts p c = Some start \<and>
      (if h then \<exists>b. field_byte t f = Some b \<and> off = start + int b else off = start)) \<longleftrightarrow>
    (\<exists>i. first_of t ls i \<and>
      (if h then \<exists>b. field_byte t f = Some b \<and> off = int (bytes_before ls i + b) else off = int (bytes_before ls i)))"
    if n: "n \<in> set (layer_names t)" for t
  proof -
    obtain c where c: "canonicalLayerName t = Some c"
      using layer_names_canonical [OF n] by blast
    have "pkt_starts p c = Some v \<longleftrightarrow> (\<exists>i. first_of t ls i \<and> v = int (bytes_before ls i))" for v
      by (rule pkt_starts_of [OF assms(1,2) c])
    then show ?thesis
      using c by (cases h) auto
  qed
  then show ?thesis
    unfolding ResolveOffset_parts [OF assms(3)] by blast
qed

text \<open>A reference is the name of a layer, or this and the name of a field with a dot between.\<close>

lemma cut_inverse: "cut c s = (a, b, h) \<Longrightarrow> s = (if h then a @ c # b else a) \<and> c \<notin> set a"
  by (induction c s arbitrary: a b h rule: cut.induct) (auto split: if_splits prod.splits)

lemma cut_reference:
  assumes "n \<in> set (layer_names t)" "cut CHR ''.'' ref = (m, f, h)"
  shows "ref = n \<longleftrightarrow> m = n \<and> \<not> h" "ref = n @ ''.'' @ g \<longleftrightarrow> m = n \<and> h \<and> f = g"
proof -
  have dot: "CHR ''.'' \<notin> set n"
    by (rule layer_names_no_dot [OF assms(1)])
  have ref: "ref = (if h then m @ CHR ''.'' # f else m)"
    using cut_inverse [OF assms(2)] by simp
  have "h = False \<and> m = n" if "ref = n"
    using cut_none [OF dot] assms(2) that by simp
  with ref show "ref = n \<longleftrightarrow> m = n \<and> \<not> h" by auto
  have "h \<and> m = n \<and> f = g" if "ref = n @ CHR ''.'' # g"
    using cut_some [OF dot, of g] assms(2) that by simp
  with ref show "ref = n @ ''.'' @ g \<longleftrightarrow> m = n \<and> h \<and> f = g" by auto
qed

section \<open>Properties\<close>

text \<open>C24: the offset table of a packet maps each canonical layer name to the number of
  header bytes in front of the first layer of that name, and holds no other name: in a
  tunnel packet the symbolic names mean the outermost header.\<close>

theorem RawPacket_starts:
  assumes "gp_decode gp bin = Inr ls" "RawPacket gp bin = Inr p"
  shows "pkt_binary p = bin \<and>
    (\<forall>name v. pkt_starts p name = Some v \<longleftrightarrow>
       (\<exists>i. first_layer name ls i \<and> v = int (bytes_before ls i)))"
  using assms by (auto simp: RawPacket_Inr layer_starts_iff)

text \<open>An Ethernet/IPv4/UDP/VXLAN/Ethernet/IPv4/UDP frame, as the decoder reports it.\<close>

definition vxlan_layers :: "(layer_type \<times> nat) list" where
  "vxlan_layers = [(LEthernet, 14), (LIPv4, 20), (LUDP, 8), (LOther 0, 8), (LEthernet, 14),
     (LIPv4, 20), (LUDP, 8), (LOther 1, 18)]"

definition vxlan_gp :: "unit gopacket" where
  "vxlan_gp = \<lparr>gp_serialize = (\<lambda>_. Inr (replicate 110 0)), gp_decode = (\<lambda>_. Inr vxlan_layers)\<rparr>"

definition vxlan_packet :: packet where
  "vxlan_packet = \<lparr>pkt_binary = replicate 110 0,
     pkt_starts = [''Ether'' \<mapsto> 0, ''IP'' \<mapsto> 14, ''UDP'' \<mapsto> 34]\<rparr>"

lemma vxlan_RawPacket: "RawPacket vxlan_gp (replicate 110 0) = Inr vxlan_packet"
  by (simp add: RawPacket_Inr vxlan_gp_def vxlan_layers_def vxlan_packet_def canonicalLayerName_def)

theorem RawPacket_starts_witness:
  "pkt_starts vxlan_packet ''UDP'' = Some 34 \<longleftrightarrow>
     (\<exists>i. first_layer ''UDP'' vxlan_layers i \<and> 34 = int (bytes_before vxlan_layers i))"
  using RawPacket_starts [of vxlan_gp "replicate 110 0" vxlan_layers vxlan_packet] vxlan_RawPacket
  by (simp add: vxlan_gp_def)

text \<open>C23: a reference resolves exactly when it names a layer of the packet, alone or with a dot and
  an addressable field of its header; the offset is the number of bytes in front of the first
  layer of that type, and of the header in front of the field as the standard of the protocol lays
  it out. The offset is inside the packet when the decoder reports headers that are no
  shorter than the standard's and that fit into the frame.\<close>

theorem ResolveOffset_standard:
  assumes "gp_decode gp bin = Inr ls" "RawPacket gp bin = Inr p"
  shows "(ResolveOffset p ref = Inr off \<longleftrightarrow> (\<exists>t n i. n \<in> set (layer_names t) \<and> first_of t ls i \<and>
      (ref = n \<and> off = int (bytes_before ls i) \<or>
       (\<exists>f b. ref = n @ ''.'' @ f \<and> field_byte t f = Some b \<and> off = int (bytes_before ls i + b))))) \<and>
    ((\<forall>(t, k) \<in> set ls. header_bits t \<le> 8 * k) \<and> sum_list (map snd ls) \<le> length bin \<and>
      ResolveOffset p ref = Inr off \<longrightarrow> 0 \<le> off \<and> off < int (length bin))"
proof -
  obtain m f h where cut: "cut CHR ''.'' ref = (m, f, h)"
    by (metis prod_cases3)
  note layer = ResolveOffset_layer [OF assms(2,1) cut]
  have "ResolveOffset p ref = Inr off \<longleftrightarrow> (\<exists>t n i. n \<in> set (layer_names t) \<and> first_of t ls i \<and>
      (ref = n \<and> off = int (bytes_before ls i) \<or>
       (\<exists>f b. ref = n @ ''.'' @ f \<and> field_byte t f = Some b \<and> off = int (bytes_before ls i + b))))"
    unfolding layer using cut_reference [OF _ cut] by (cases h) (simp; metis)+
  moreover have "0 \<le> off \<and> off < int (length bin)"
    if hdr: "\<forall>(t, k) \<in> set ls. header_bits t \<le> 8 * k" and fit: "sum_list (map snd ls) \<le> length bin"
      and res: "ResolveOffset p ref = Inr off"
  proof -
    obtain t i where i: "m \<in> set (layer_names t)" "first_of t ls i"
      and off: "if h then \<exists>b. field_byte t f = Some b \<and> off = int (bytes_before ls i + b) else off = int (bytes_before ls i)"
      using res layer by blast
    have len: "i < length ls" "fst (ls ! i) = t"
      using i(2) by (simp_all add: first_of_def)
    have k: "header_bits t \<le> 8 * snd (ls ! i)"
      using bspec [OF hdr nth_mem [OF len(1)]] len(2) by (simp add: case_prod_beta)
    moreover have "\<exists>b. off = int (bytes_before ls i + b) \<and> 8 * b < header_bits t"
      using off header_bits_pos [OF i(1)] by (cases h) (auto dest: field_byte_less intro: exI [of _ 0])
    ultimately show ?thesis
      using bytes_before_le [OF len(1)] fit by auto
  qed
  ultimately show ?thesis by blast
qed

theorem ResolveOffset_standard_witness:
  "ResolveOffset vxlan_packet ''UDP.chksum'' = Inr 40 \<and> (40::int) < int (length (replicate 110 (0::u8)))"
proof -
  have dec: "gp_decode vxlan_gp (replicate 110 0) = Inr vxlan_layers"
    by (simp add: vxlan_gp_def)
  note std = ResolveOffset_standard [OF dec vxlan_RawPacket, of "''UDP.chksum''" 40]
  have "first_of LUDP vxlan_layers 2" "bytes_before vxlan_layers 2 = 34"
    by (auto simp: first_of_def vxlan_layers_def less_Suc_eq numeral_2_eq_2 bytes_before_def)
  moreover have "''UDP'' \<in> set (layer_names LUDP)" "field_byte LUDP ''chksum'' = Some 6"
    by code_simp+
  moreover have "''UDP.chksum'' = ''UDP'' @ ''.'' @ ''chksum''" "(40 :: int) = int (34 + 6)"
    by simp_all
  ultimately have res: "ResolveOffset vxlan_packet ''UDP.chksum'' = Inr 40"
    using std by metis
  have "\<forall>(t, k) \<in> set vxlan_layers. header_bits t \<le> 8 * k" "sum_list (map snd vxlan_layers) \<le> length (replicate 110 (0::u8))"
    by (simp_all add: vxlan_layers_def header_bits_def header_format_def)
  with std res show ?thesis by blast
qed

end
