(* ===== verification/Json.thy ===== *)
theory Json
  imports Float64
begin

text \<open>
  JSON values as \<open>encoding/json\<close> reads and writes them. A \<open>json.RawMessage\<close> is the value it
  encodes. A number literal without fraction and exponent is \<open>JInt\<close>, any other is \<open>JDec\<close>
  with the value it denotes; only the former decodes into a Go integer.
\<close>

datatype json =
    JNull
  | JBool bool
  | JInt int
  | JDec rat
  | JStr string
  | JArr "json list"
  | JObj "(string \<times> json) list"

section \<open>Encoding\<close>

text \<open>
  A \<open>float64\<close> is written as its shortest decimal: an integer literal when the value is
  integral and below \<open>10 ^ 21\<close>. NaN and the infinities are an error of \<open>json.Marshal\<close>.
\<close>

definition json_of_f64 :: "f64 \<Rightarrow> json option" where
  "json_of_f64 v = (case v of
      Fin q \<Rightarrow> Some (if of_int \<lfloor>q\<rfloor> = q \<and> \<bar>q\<bar> < 10 ^ 21 then JInt \<lfloor>q\<rfloor> else JDec q)
    | _ \<Rightarrow> None)"

definition json_of_u64 :: "u64 \<Rightarrow> json" where
  "json_of_u64 w = JInt (uint w)"

text \<open>A struct field tagged \<open>omitempty\<close>: absent for the zero value or a nil pointer.\<close>

definition opt_field :: "string \<Rightarrow> ('a \<Rightarrow> json) \<Rightarrow> 'a option \<Rightarrow> (string \<times> json) list" where
  "opt_field k f x = (case x of None \<Rightarrow> [] | Some a \<Rightarrow> [(k, f a)])"

definition str_field :: "string \<Rightarrow> string \<Rightarrow> (string \<times> json) list" where
  "str_field k s = (if s = [] then [] else [(k, JStr s)])"

lemma json_of_f64_None [simp]: "json_of_f64 v = None \<longleftrightarrow> \<not> f_finite v"
  by (cases v) (simp_all add: json_of_f64_def f_finite_def)

lemma json_of_f64_Some_finite: "json_of_f64 v = Some j \<Longrightarrow> f_finite v"
  by (cases v) (simp_all add: json_of_f64_def f_finite_def)

section \<open>Decoding into Go values\<close>

text \<open>
  \<open>json.Unmarshal\<close> into a struct: a key sets the field whose name it equals up to letter
  case, a later key overrides an earlier one. \<open>jget\<close> is the value that wins; a missing key
  and \<open>null\<close> leave the zero value, a value of the wrong kind is an error (\<open>None\<close>).
\<close>

definition fold_key :: "string \<Rightarrow> string" where
  "fold_key s = map (\<lambda>c. if 65 \<le> (of_char c :: nat) \<and> (of_char c :: nat) \<le> 90
                         then char_of ((of_char c :: nat) + 32) else c) s"

definition jget :: "string \<Rightarrow> (string \<times> json) list \<Rightarrow> json option" where
  "jget k kvs = map_of (rev (map (\<lambda>(n, v). (fold_key n, v)) kvs)) (fold_key k)"

definition as_obj :: "json \<Rightarrow> (string \<times> json) list option" where
  "as_obj j = (case j of JObj kvs \<Rightarrow> Some kvs | JNull \<Rightarrow> Some [] | _ \<Rightarrow> None)"

definition dec_bool :: "json option \<Rightarrow> bool option" where
  "dec_bool j = (case j of None \<Rightarrow> Some False | Some JNull \<Rightarrow> Some False
     | Some (JBool b) \<Rightarrow> Some b | _ \<Rightarrow> None)"

definition dec_str :: "json option \<Rightarrow> string option" where
  "dec_str j = (case j of None \<Rightarrow> Some [] | Some JNull \<Rightarrow> Some []
     | Some (JStr s) \<Rightarrow> Some s | _ \<Rightarrow> None)"

definition dec_int :: "json option \<Rightarrow> int option" where
  "dec_int j = (case j of None \<Rightarrow> Some 0 | Some JNull \<Rightarrow> Some 0
     | Some (JInt n) \<Rightarrow> (if int64_range n then Some n else None) | _ \<Rightarrow> None)"

definition dec_u64 :: "json option \<Rightarrow> u64 option" where
  "dec_u64 j = (case j of None \<Rightarrow> Some 0 | Some JNull \<Rightarrow> Some 0
     | Some (JInt n) \<Rightarrow> (if 0 \<le> n \<and> n < 2 ^ 64 then Some (word_of_int n) else None) | _ \<Rightarrow> None)"

text \<open>A float field takes any number literal; one whose rounding overflows is an error.\<close>

definition finite_or_none :: "f64 \<Rightarrow> f64 option" where
  "finite_or_none v = (if f_finite v then Some v else None)"

definition dec_f64 :: "json option \<Rightarrow> f64 option" where
  "dec_f64 j = (case j of None \<Rightarrow> Some (Fin 0) | Some JNull \<Rightarrow> Some (Fin 0)
     | Some (JInt n) \<Rightarrow> finite_or_none (fl (of_int n))
     | Some (JDec q) \<Rightarrow> finite_or_none (fl q) | _ \<Rightarrow> None)"

text \<open>A pointer field: nil for a missing key and for \<open>null\<close>.\<close>

definition dec_int_ptr :: "json option \<Rightarrow> int option option" where
  "dec_int_ptr j = (case j of None \<Rightarrow> Some None | Some JNull \<Rightarrow> Some None
     | Some v \<Rightarrow> map_option Some (dec_int (Some v)))"

text \<open>A slice: nil for a missing key and for \<open>null\<close>; every element must decode.\<close>

fun dec_all :: "(json \<Rightarrow> 'a option) \<Rightarrow> json list \<Rightarrow> 'a list option" where
  "dec_all f [] = Some []"
| "dec_all f (x # xs) =
     (case f x of None \<Rightarrow> None | Some y \<Rightarrow> map_option ((#) y) (dec_all f xs))"

definition dec_list :: "(json \<Rightarrow> 'a option) \<Rightarrow> json option \<Rightarrow> 'a list option" where
  "dec_list f j = (case j of None \<Rightarrow> Some [] | Some JNull \<Rightarrow> Some []
     | Some (JArr xs) \<Rightarrow> dec_all f xs | _ \<Rightarrow> None)"

lemma dec_f64_ok: "dec_f64 j = Some v \<Longrightarrow> f64_ok v \<and> f_finite v"
  by (auto simp: dec_f64_def finite_or_none_def f_finite_def split: option.splits json.splits if_splits)

lemma dec_f64_json_of_f64:
  "json_of_f64 v = Some j \<Longrightarrow> f64_ok v \<Longrightarrow> dec_f64 (Some j) = Some v"
  by (cases v) (auto simp: json_of_f64_def dec_f64_def finite_or_none_def f64_ok_Fin f_finite_def
      split: if_splits)

lemma dec_all_length: "dec_all f xs = Some ys \<Longrightarrow> length ys = length xs"
  by (induction xs arbitrary: ys) (auto split: option.splits)

lemma dec_all_map: "(\<And>x. x \<in> set xs \<Longrightarrow> f (g x) = Some x) \<Longrightarrow> dec_all f (map g xs) = Some xs"
  by (induction xs) auto

lemma jget_append: "jget k (xs @ ys) = (case jget k ys of None \<Rightarrow> jget k xs | r \<Rightarrow> r)"
  by (simp add: jget_def map_add_def split: option.splits)

lemma jget_Cons: "jget k ((n, v) # kvs) =
    (case jget k kvs of None \<Rightarrow> if fold_key n = fold_key k then Some v else None | r \<Rightarrow> r)"
  by (simp add: jget_def map_add_def split: option.splits)

lemma jget_Nil [simp]: "jget k [] = None"
  by (simp add: jget_def)

end
