(* ===== verification/Stl_Vm.thy ===== *)
theory Stl_Vm
  imports Json
begin

text \<open>
  The field engine program of a stream and its flow statistics rule: \<open>pkg/stl/vm.go\<close>. Every
  Go struct is a record with the struct's fields, tag included; the interface
  \<open>VMInstruction\<close> is the sum of the types that implement it. The marshalled form is a
  \<open>json\<close> value, \<open>None\<close> when \<open>json.Marshal\<close> fails.
\<close>

section \<open>Instructions\<close>

text \<open>A \<open>RawInstruction\<close>: no bytes, the bytes of a JSON value, or bytes that are not JSON.\<close>

datatype raw_instruction = RawEmpty | RawJson json | RawInvalid string

record flow_var =
  fv_type :: string
  fv_name :: string
  fv_size :: int
  fv_op :: string
  fv_step :: int
  fv_split :: bool
  fv_next_var :: string
  fv_init :: "u64 option"
  fv_min :: "u64 option"
  fv_max :: "u64 option"
  fv_values :: "u64 list"

record flow_var_rand =
  fr_type :: string
  fr_name :: string
  fr_size :: int
  fr_limit :: int
  fr_seed :: int
  fr_min :: u64
  fr_max :: u64
  fr_split :: bool
  fr_next_var :: string

record write_flow_var =
  wf_type :: string
  wf_name :: string
  wf_pkt_offset :: int
  wf_add_value :: int
  wf_big_endian :: bool

record write_mask_flow_var =
  wm_type :: string
  wm_name :: string
  wm_pkt_offset :: int
  wm_cast_size :: int
  wm_mask :: u64
  wm_shift :: int
  wm_add_value :: int
  wm_big_endian :: bool

record fix_checksum_ipv4 =
  fc_type :: string
  fc_pkt_offset :: int

record fix_checksum_hw =
  fh_type :: string
  fh_l2_len :: int
  fh_l3_len :: int
  fh_l4_type :: int

record fix_checksum_icmpv6 =
  f6_type :: string
  f6_l2_len :: int
  f6_l3_len :: int

record trim_pkt_size =
  tr_type :: string
  tr_name :: string

record tuple_gen =
  tg_type :: string
  tg_name :: string
  tg_ip_min :: u64
  tg_ip_max :: u64
  tg_port_min :: int
  tg_port_max :: int
  tg_limit_flows :: int
  tg_flags :: int

datatype vm_instruction =
    IRaw raw_instruction
  | IFlowVar flow_var
  | IFlowVarRand flow_var_rand
  | IWriteFlowVar write_flow_var
  | IWriteMaskFlowVar write_mask_flow_var
  | IFixChecksumIPv4 fix_checksum_ipv4
  | IFixChecksumHw fix_checksum_hw
  | IFixChecksumICMPv6 fix_checksum_icmpv6
  | ITrimPktSize trim_pkt_size
  | ITupleGen tuple_gen

text \<open>The program; \<open>vm_instructions\<close> is \<open>None\<close> for the nil slice of a zero \<open>VM\<close>.\<close>

record vm =
  vm_instructions :: "vm_instruction list option"
  vm_cache :: "int option"

section \<open>Constructors\<close>

definition L4TypeUDP :: int where "L4TypeUDP = 11"
definition L4TypeTCP :: int where "L4TypeTCP = 13"
definition L4TypeIP :: int where "L4TypeIP = 17"

definition OpInc :: string where "OpInc = ''inc''"
definition OpDec :: string where "OpDec = ''dec''"
definition OpRandom :: string where "OpRandom = ''random''"

definition NewFlowVar ::
  "string \<Rightarrow> int \<Rightarrow> string \<Rightarrow> u64 \<Rightarrow> u64 \<Rightarrow> u64 \<Rightarrow> int \<Rightarrow> bool \<Rightarrow> flow_var" where
  "NewFlowVar name sz op init mn mx step splitToCores =
     \<lparr>fv_type = ''flow_var'', fv_name = name, fv_size = sz, fv_op = op, fv_step = step,
      fv_split = splitToCores, fv_next_var = [], fv_init = Some init, fv_min = Some mn,
      fv_max = Some mx, fv_values = []\<rparr>"

definition NewFlowVarList ::
  "string \<Rightarrow> int \<Rightarrow> string \<Rightarrow> u64 list \<Rightarrow> int \<Rightarrow> bool \<Rightarrow> flow_var" where
  "NewFlowVarList name sz op vals step splitToCores =
     \<lparr>fv_type = ''flow_var'', fv_name = name, fv_size = sz, fv_op = op, fv_step = step,
      fv_split = splitToCores, fv_next_var = [], fv_init = None, fv_min = None,
      fv_max = None, fv_values = vals\<rparr>"

definition NewFlowVarRandLimit ::
  "string \<Rightarrow> int \<Rightarrow> int \<Rightarrow> int \<Rightarrow> u64 \<Rightarrow> u64 \<Rightarrow> bool \<Rightarrow> flow_var_rand" where
  "NewFlowVarRandLimit name sz limit seed mn mx splitToCores =
     \<lparr>fr_type = ''flow_var_rand_limit'', fr_name = name, fr_size = sz, fr_limit = limit,
      fr_seed = seed, fr_min = mn, fr_max = mx, fr_split = splitToCores, fr_next_var = []\<rparr>"

definition NewWriteFlowVar :: "string \<Rightarrow> int \<Rightarrow> int \<Rightarrow> bool \<Rightarrow> write_flow_var" where
  "NewWriteFlowVar name pktOffset addValue bigEndian =
     \<lparr>wf_type = ''write_flow_var'', wf_name = name, wf_pkt_offset = pktOffset,
      wf_add_value = addValue, wf_big_endian = bigEndian\<rparr>"

definition NewFixChecksumIPv4 :: "int \<Rightarrow> fix_checksum_ipv4" where
  "NewFixChecksumIPv4 pktOffset = \<lparr>fc_type = ''fix_checksum_ipv4'', fc_pkt_offset = pktOffset\<rparr>"

definition NewFixChecksumHw :: "int \<Rightarrow> int \<Rightarrow> int \<Rightarrow> fix_checksum_hw" where
  "NewFixChecksumHw l2Len l3Len l4Type =
     \<lparr>fh_type = ''fix_checksum_hw'', fh_l2_len = l2Len, fh_l3_len = l3Len, fh_l4_type = l4Type\<rparr>"

definition NewTrimPktSize :: "string \<Rightarrow> trim_pkt_size" where
  "NewTrimPktSize name = \<lparr>tr_type = ''trim_pkt_size'', tr_name = name\<rparr>"

section \<open>Marshalling\<close>

definition RawInstruction_MarshalJSON :: "raw_instruction \<Rightarrow> json option" where
  "RawInstruction_MarshalJSON r = (case r of
      RawEmpty \<Rightarrow> Some JNull | RawJson j \<Rightarrow> Some j | RawInvalid _ \<Rightarrow> None)"

definition flow_var_json :: "flow_var \<Rightarrow> json" where
  "flow_var_json v = JObj (
     [(''type'', JStr (fv_type v)), (''name'', JStr (fv_name v)), (''size'', JInt (fv_size v)),
      (''op'', JStr (fv_op v)), (''step'', JInt (fv_step v)),
      (''split_to_cores'', JBool (fv_split v))]
     @ str_field ''next_var'' (fv_next_var v)
     @ opt_field ''init_value'' json_of_u64 (fv_init v)
     @ opt_field ''min_value'' json_of_u64 (fv_min v)
     @ opt_field ''max_value'' json_of_u64 (fv_max v)
     @ (if fv_values v = [] then [] else [(''value_list'', JArr (map json_of_u64 (fv_values v)))]))"

definition flow_var_rand_json :: "flow_var_rand \<Rightarrow> json" where
  "flow_var_rand_json v = JObj (
     [(''type'', JStr (fr_type v)), (''name'', JStr (fr_name v)), (''size'', JInt (fr_size v)),
      (''limit'', JInt (fr_limit v)), (''seed'', JInt (fr_seed v)),
      (''min_value'', json_of_u64 (fr_min v)), (''max_value'', json_of_u64 (fr_max v)),
      (''split_to_cores'', JBool (fr_split v))]
     @ str_field ''next_var'' (fr_next_var v))"

definition write_flow_var_json :: "write_flow_var \<Rightarrow> json" where
  "write_flow_var_json v = JObj
     [(''type'', JStr (wf_type v)), (''name'', JStr (wf_name v)),
      (''pkt_offset'', JInt (wf_pkt_offset v)), (''add_value'', JInt (wf_add_value v)),
      (''is_big_endian'', JBool (wf_big_endian v))]"

definition write_mask_flow_var_json :: "write_mask_flow_var \<Rightarrow> json" where
  "write_mask_flow_var_json v = JObj
     [(''type'', JStr (wm_type v)), (''name'', JStr (wm_name v)),
      (''pkt_offset'', JInt (wm_pkt_offset v)), (''pkt_cast_size'', JInt (wm_cast_size v)),
      (''mask'', json_of_u64 (wm_mask v)), (''shift'', JInt (wm_shift v)),
      (''add_value'', JInt (wm_add_value v)), (''is_big_endian'', JBool (wm_big_endian v))]"

definition fix_checksum_ipv4_json :: "fix_checksum_ipv4 \<Rightarrow> json" where
  "fix_checksum_ipv4_json v = JObj
     [(''type'', JStr (fc_type v)), (''pkt_offset'', JInt (fc_pkt_offset v))]"

definition fix_checksum_hw_json :: "fix_checksum_hw \<Rightarrow> json" where
  "fix_checksum_hw_json v = JObj
     [(''type'', JStr (fh_type v)), (''l2_len'', JInt (fh_l2_len v)),
      (''l3_len'', JInt (fh_l3_len v)), (''l4_type'', JInt (fh_l4_type v))]"

definition fix_checksum_icmpv6_json :: "fix_checksum_icmpv6 \<Rightarrow> json" where
  "fix_checksum_icmpv6_json v = JObj
     [(''type'', JStr (f6_type v)), (''l2_len'', JInt (f6_l2_len v)),
      (''l3_len'', JInt (f6_l3_len v))]"

definition trim_pkt_size_json :: "trim_pkt_size \<Rightarrow> json" where
  "trim_pkt_size_json v = JObj [(''type'', JStr (tr_type v)), (''name'', JStr (tr_name v))]"

definition tuple_gen_json :: "tuple_gen \<Rightarrow> json" where
  "tuple_gen_json v = JObj
     [(''type'', JStr (tg_type v)), (''name'', JStr (tg_name v)),
      (''ip_min'', json_of_u64 (tg_ip_min v)), (''ip_max'', json_of_u64 (tg_ip_max v)),
      (''port_min'', JInt (tg_port_min v)), (''port_max'', JInt (tg_port_max v)),
      (''limit_flows'', JInt (tg_limit_flows v)), (''flags'', JInt (tg_flags v))]"

fun instruction_json :: "vm_instruction \<Rightarrow> json option" where
  "instruction_json (IRaw r) = RawInstruction_MarshalJSON r"
| "instruction_json (IFlowVar v) = Some (flow_var_json v)"
| "instruction_json (IFlowVarRand v) = Some (flow_var_rand_json v)"
| "instruction_json (IWriteFlowVar v) = Some (write_flow_var_json v)"
| "instruction_json (IWriteMaskFlowVar v) = Some (write_mask_flow_var_json v)"
| "instruction_json (IFixChecksumIPv4 v) = Some (fix_checksum_ipv4_json v)"
| "instruction_json (IFixChecksumHw v) = Some (fix_checksum_hw_json v)"
| "instruction_json (IFixChecksumICMPv6 v) = Some (fix_checksum_icmpv6_json v)"
| "instruction_json (ITrimPktSize v) = Some (trim_pkt_size_json v)"
| "instruction_json (ITupleGen v) = Some (tuple_gen_json v)"

text \<open>Marshalling the instruction slice fails with its first element that fails.\<close>

fun instructions_json :: "vm_instruction list \<Rightarrow> json list option" where
  "instructions_json [] = Some []"
| "instructions_json (i # is) = (case instruction_json i of
      None \<Rightarrow> None
    | Some j \<Rightarrow> (case instructions_json is of None \<Rightarrow> None | Some js \<Rightarrow> Some (j # js)))"

definition vm_json :: "vm \<Rightarrow> json option" where
  "vm_json v = (case (case vm_instructions v of
        None \<Rightarrow> Some JNull
      | Some is \<Rightarrow> map_option JArr (instructions_json is)) of
      None \<Rightarrow> None
    | Some j \<Rightarrow> Some (JObj ((''instructions'', j) # opt_field ''cache'' JInt (vm_cache v))))"

section \<open>Flow statistics\<close>

record flow_stats =
  fs_enabled :: bool
  fs_pgid :: int
  fs_rule_type :: string
  fs_vxlan :: bool
  fs_ieee1588 :: bool

definition FSStats :: string where "FSStats = ''stats''"
definition FSLatency :: string where "FSLatency = ''latency''"
definition FSTpg :: string where "FSTpg = ''tpg''"

definition zero_flow_stats :: flow_stats where
  "zero_flow_stats = \<lparr>fs_enabled = False, fs_pgid = 0, fs_rule_type = [], fs_vxlan = False,
     fs_ieee1588 = False\<rparr>"

definition FlowStats_MarshalJSON :: "flow_stats \<Rightarrow> json" where
  "FlowStats_MarshalJSON f =
     (if \<not> fs_enabled f then JObj [(''enabled'', JBool False)]
      else JObj [(''enabled'', JBool True), (''stream_id'', JInt (fs_pgid f)),
        (''vxlan'', JBool (fs_vxlan f)), (''ieee_1588'', JBool (fs_ieee1588 f)),
        (''rule_type'', JStr (fs_rule_type f))])"

section \<open>Lemmas\<close>

lemma opt_field_inject:
  "inj f \<Longrightarrow> k \<notin> fst ` set xs \<Longrightarrow> k \<notin> fst ` set ys \<Longrightarrow>
   opt_field k f a @ xs = opt_field k f b @ ys \<longleftrightarrow> a = b \<and> xs = ys"
  by (auto simp: opt_field_def inj_def split: option.splits)

lemma str_field_inject:
  "k \<notin> fst ` set xs \<Longrightarrow> k \<notin> fst ` set ys \<Longrightarrow>
   str_field k a @ xs = str_field k b @ ys \<longleftrightarrow> a = b \<and> xs = ys"
  by (auto simp: str_field_def)

lemma str_field_eq [simp]: "str_field k a = str_field k b \<longleftrightarrow> a = b"
  by (simp add: str_field_def)

lemma json_of_u64_inj: "inj json_of_u64"
  by (simp add: inj_def json_of_u64_def word_uint_eq_iff)

lemma json_of_u64_eq [simp]: "json_of_u64 a = json_of_u64 b \<longleftrightarrow> a = b"
  by (simp add: json_of_u64_def word_uint_eq_iff)

lemma map_json_of_u64_eq [simp]: "map json_of_u64 xs = map json_of_u64 ys \<longleftrightarrow> xs = ys"
  by (simp add: inj_map_eq_map [OF json_of_u64_inj])

lemma fst_opt_field: "fst ` set (opt_field k f x) \<subseteq> {k}"
  by (auto simp: opt_field_def split: option.splits)

lemma opt_field_mem [simp]: "k \<noteq> k' \<Longrightarrow> (k, v) \<notin> set (opt_field k' f x)"
  by (auto simp: opt_field_def split: option.splits)

lemma opt_field_img [simp]: "k \<noteq> k' \<Longrightarrow> k \<notin> fst ` set (opt_field k' f x)"
  using fst_opt_field [of k' f x] by blast

lemma flow_var_json_inject: "flow_var_json v = flow_var_json w \<longleftrightarrow> v = w"
proof
  assume eq: "flow_var_json v = flow_var_json w"
  define tail where "tail x = (if fv_values x = [] then []
      else [(''value_list'', JArr (map json_of_u64 (fv_values x)))])" for x :: flow_var
  have tail: "tail v = tail w \<longleftrightarrow> fv_values v = fv_values w"
    by (simp add: tail_def)
  have keys: "k \<notin> fst ` set (tail x)" if "k \<noteq> ''value_list''" for k x
    using that by (simp add: tail_def)
  from eq show "v = w"
    unfolding flow_var_json_def tail_def [symmetric]
    by (simp add: str_field_inject opt_field_inject json_of_u64_inj keys image_Un tail
        del: image_iff)
qed simp

lemma instructions_json_eq_Some:
  "instructions_json is = Some js \<longleftrightarrow> map instruction_json is = map Some js"
proof (induction "is" arbitrary: js)
  case (Cons i "is")
  show ?case
  proof (cases js)
    case (Cons k ks)
    then show ?thesis
      using Cons.IH [of ks] by (cases "instructions_json is") (auto split: option.splits)
  qed (auto split: option.splits)
qed auto

text \<open>
  The instructions the package's constructors and struct literals build: each carries the
  tag of its own kind.
\<close>

fun tagged :: "vm_instruction \<Rightarrow> bool" where
  "tagged (IRaw r) = False"
| "tagged (IFlowVar v) = (fv_type v = ''flow_var'')"
| "tagged (IFlowVarRand v) = (fr_type v = ''flow_var_rand_limit'')"
| "tagged (IWriteFlowVar v) = (wf_type v = ''write_flow_var'')"
| "tagged (IWriteMaskFlowVar v) = (wm_type v = ''write_mask_flow_var'')"
| "tagged (IFixChecksumIPv4 v) = (fc_type v = ''fix_checksum_ipv4'')"
| "tagged (IFixChecksumHw v) = (fh_type v = ''fix_checksum_hw'')"
| "tagged (IFixChecksumICMPv6 v) = (f6_type v = ''fix_checksum_icmpv6'')"
| "tagged (ITrimPktSize v) = (tr_type v = ''trim_pkt_size'')"
| "tagged (ITupleGen v) = (tg_type v = ''tuple_flow_var'')"

lemma tagged_constructors [simp]:
  "tagged (IFlowVar (NewFlowVar n s op i lo hi st sp))"
  "tagged (IFlowVar (NewFlowVarList n s op vs st sp))"
  "tagged (IFlowVarRand (NewFlowVarRandLimit n s l sd lo hi sp))"
  "tagged (IWriteFlowVar (NewWriteFlowVar n off add be))"
  "tagged (IFixChecksumIPv4 (NewFixChecksumIPv4 off))"
  "tagged (IFixChecksumHw (NewFixChecksumHw l2 l3 l4))"
  "tagged (ITrimPktSize (NewTrimPktSize n))"
  by (simp_all add: NewFlowVar_def NewFlowVarList_def NewFlowVarRandLimit_def NewWriteFlowVar_def
      NewFixChecksumIPv4_def NewFixChecksumHw_def NewTrimPktSize_def)

lemma other_json_inject:
  "flow_var_rand_json a = flow_var_rand_json b \<longleftrightarrow> a = b"
  "write_flow_var_json c = write_flow_var_json d \<longleftrightarrow> c = d"
  "write_mask_flow_var_json e = write_mask_flow_var_json f \<longleftrightarrow> e = f"
  "fix_checksum_ipv4_json g = fix_checksum_ipv4_json h \<longleftrightarrow> g = h"
  "fix_checksum_hw_json i = fix_checksum_hw_json j \<longleftrightarrow> i = j"
  "fix_checksum_icmpv6_json k = fix_checksum_icmpv6_json l \<longleftrightarrow> k = l"
  "trim_pkt_size_json m = trim_pkt_size_json n \<longleftrightarrow> m = n"
  "tuple_gen_json p = tuple_gen_json q \<longleftrightarrow> p = q"
  by (auto simp: flow_var_rand_json_def write_flow_var_json_def write_mask_flow_var_json_def
      fix_checksum_ipv4_json_def fix_checksum_hw_json_def fix_checksum_icmpv6_json_def
      trim_pkt_size_json_def tuple_gen_json_def)

text \<open>The tag of a tagged instruction is the first member of its object.\<close>

fun tag_of :: "vm_instruction \<Rightarrow> string" where
  "tag_of (IRaw r) = []"
| "tag_of (IFlowVar v) = ''flow_var''"
| "tag_of (IFlowVarRand v) = ''flow_var_rand_limit''"
| "tag_of (IWriteFlowVar v) = ''write_flow_var''"
| "tag_of (IWriteMaskFlowVar v) = ''write_mask_flow_var''"
| "tag_of (IFixChecksumIPv4 v) = ''fix_checksum_ipv4''"
| "tag_of (IFixChecksumHw v) = ''fix_checksum_hw''"
| "tag_of (IFixChecksumICMPv6 v) = ''fix_checksum_icmpv6''"
| "tag_of (ITrimPktSize v) = ''trim_pkt_size''"
| "tag_of (ITupleGen v) = ''tuple_flow_var''"

lemma tagged_json:
  "tagged i \<Longrightarrow> \<exists>kvs. instruction_json i = Some (JObj ((''type'', JStr (tag_of i)) # kvs))"
  by (cases i) (simp_all add: flow_var_json_def flow_var_rand_json_def write_flow_var_json_def
      write_mask_flow_var_json_def fix_checksum_ipv4_json_def fix_checksum_hw_json_def
      fix_checksum_icmpv6_json_def trim_pkt_size_json_def tuple_gen_json_def)

lemma instruction_json_inject:
  assumes "tagged i" "tagged j" "instruction_json i = instruction_json j"
  shows "i = j"
proof -
  have "tag_of i = tag_of j"
    using tagged_json [OF assms(1)] tagged_json [OF assms(2)] assms(3) by auto
  with assms show ?thesis
    by (cases i; cases j) (simp_all add: flow_var_json_inject other_json_inject)
qed

lemma instructions_json_total: "list_all tagged zs \<Longrightarrow> \<exists>js. instructions_json zs = Some js"
proof (induction zs)
  case (Cons z zs)
  then show ?case using tagged_json [of z] by auto
qed simp

lemma instructions_json_inject:
  assumes "list_all tagged xs" "list_all tagged ys" "instructions_json xs = instructions_json ys"
  shows "xs = ys"
proof -
  obtain js where "instructions_json xs = Some js" "instructions_json ys = Some js"
    using instructions_json_total assms by metis
  then have m: "map instruction_json xs = map instruction_json ys"
    by (simp add: instructions_json_eq_Some)
  then have len: "length xs = length ys"
    by (rule map_eq_imp_length_eq)
  show ?thesis
  proof (rule nth_equalityI [OF len])
    fix i assume i: "i < length xs"
    with m len have "instruction_json (xs ! i) = instruction_json (ys ! i)"
      by (metis nth_map)
    with assms(1,2) i len show "xs ! i = ys ! i"
      by (auto simp: list_all_length intro: instruction_json_inject)
  qed
qed

lemma FlowStats_MarshalJSON_eq:
  "FlowStats_MarshalJSON f = FlowStats_MarshalJSON g \<longleftrightarrow>
     (if fs_enabled f then f = g else \<not> fs_enabled g)"
  by (auto simp: FlowStats_MarshalJSON_def)

section \<open>Properties\<close>

text \<open>Marshalling a field engine program loses nothing: two different programs whose
  instructions carry the tag of their kind marshal to different JSON objects, so the server
  tells each instruction, its operands and the cache size from every other.\<close>

theorem vm_json_faithful:
  assumes "vm_instructions v = Some is" "vm_instructions w = Some js"
    and "list_all tagged is" "list_all tagged js" "v \<noteq> w"
  shows "vm_json v \<noteq> vm_json w"
proof
  assume eq: "vm_json v = vm_json w"
  obtain ks ls where ks: "instructions_json is = Some ks" and ls: "instructions_json js = Some ls"
    using instructions_json_total assms(3,4) by blast
  then have "opt_field ''cache'' JInt (vm_cache v) = opt_field ''cache'' JInt (vm_cache w)" "ks = ls"
    using assms(1,2) eq by (simp_all add: vm_json_def)
  then have "vm_cache v = vm_cache w" "is = js"
    using opt_field_inject [of JInt "''cache''" "[]" "[]"] instructions_json_inject [OF assms(3,4)] ks ls
    by (simp_all add: inj_def)
  with assms(1,2,5) show False by simp
qed

theorem vm_json_faithful_witness:
  "vm_json \<lparr>vm_instructions = Some [IFlowVar (NewFlowVar ''a'' 2 OpInc 1 1 9 1 True)], vm_cache = None\<rparr>
   \<noteq> vm_json \<lparr>vm_instructions = Some [IFlowVar (NewFlowVarList ''a'' 2 OpInc [1] 1 True)], vm_cache = None\<rparr>"
  by (rule vm_json_faithful [OF vm.select_convs(1) vm.select_convs(1)])
    (simp_all add: NewFlowVar_def NewFlowVarList_def)

end
