(* ===== verification/Stl_Stream.thy ===== *)
theory Stl_Stream
  imports Stl_Rate Stl_Packet Stl_Vm "HOL-Library.Multiset"
begin

text \<open>
  Streams and profiles: \<open>pkg/stl/stream.go\<close>. A profile is a slice of pointers to distinct
  stream objects; it is a list of stream records, and the operation that writes to the
  streams (\<open>EnsureFlowStats\<close>) returns the updated list.
\<close>

section \<open>Streams\<close>

record stream =
  st_name :: string
  st_next :: string
  st_packet :: "packet option"
  st_mode :: tx_mode
  st_vm :: vm
  st_stats :: flow_stats
  st_enabled :: bool
  st_self_start :: bool
  st_start_paused :: bool
  st_isg :: f64
  st_core_id :: int
  st_action_count :: int
  st_random_seed :: int
  st_mac_src_override :: bool
  st_mac_dst_mode :: int
  st_dummy :: bool
  st_stream_id :: "int option"
  st_direction :: "int option"

type_synonym profile = "stream list"

definition DstMACCfgFile :: int where "DstMACCfgFile = 0"
definition DstMACPkt :: int where "DstMACPkt = 1"
definition DstMACArp :: int where "DstMACArp = 2"

record resolved_stream =
  rs_id :: int
  rs_json :: json

datatype resolve_error =
    DuplicateName string
  | NoPacket nat string
  | UnknownNext string string
  | MarshalStream string

definition ForPort :: "profile \<Rightarrow> int \<Rightarrow> profile" where
  "ForPort p portID = (let dir = go_rem portID 2 in
     filter (\<lambda>s. case st_direction s of None \<Rightarrow> True | Some d \<Rightarrow> d = dir) p)"

text \<open>The loop of \<open>EnsureFlowStats\<close>: \<open>pg\<close> is the next pg id to give out.\<close>

fun EnsureFlowStats :: "profile \<Rightarrow> int \<Rightarrow> profile \<times> int" where
  "EnsureFlowStats [] pg = ([], pg)"
| "EnsureFlowStats (s # p) pg =
     (if st_dummy s \<or> fs_enabled (st_stats s) then
        (let (p', pg') = EnsureFlowStats p pg in (s # p', pg'))
      else
        (let s' = s\<lparr>st_stats := \<lparr>fs_enabled = True, fs_pgid = pg, fs_rule_type = FSStats,
                      fs_vxlan = False, fs_ieee1588 = False\<rparr>\<rparr>;
             (p', pg') = EnsureFlowStats p (wrap64 (pg + 1)) in (s' # p', pg')))"

definition flags :: "stream \<Rightarrow> int" where
  "flags s = (let
      f0 = 0;
      f1 = (if st_mac_src_override s then f0 OR 1 else f0);
      f2 = f1 OR push_bit 1 (st_mac_dst_mode s AND 3)
    in if st_dummy s then f2 OR push_bit 3 1 else f2)"

section \<open>Resolving a profile\<close>

subsection \<open>Stream ids\<close>

text \<open>
  The inner loop \<open>for used[id]\<close>: \<open>None\<close> is a loop that does not return.
\<close>

partial_function (option) probe :: "int set \<Rightarrow> int \<Rightarrow> int \<Rightarrow> int option" where
  "probe used nextAuto i =
     (if i \<in> used then probe used (wrap64 (nextAuto + 1)) (wrap64 (nextAuto + 1)) else Some i)"

text \<open>
  The first loop: the ids of the streams in order and the table from names to ids, or the
  first duplicate name.
\<close>

fun allocate :: "stream list \<Rightarrow> int \<Rightarrow> int set \<Rightarrow> (string \<rightharpoonup> int) \<Rightarrow>
    (resolve_error + int list \<times> (string \<rightharpoonup> int)) option" where
  "allocate [] nextAuto used lookup = Some (Inr ([], lookup))"
| "allocate (s # p) nextAuto used lookup =
     (case probe used nextAuto (case st_stream_id s of None \<Rightarrow> nextAuto | Some i \<Rightarrow> i) of
        None \<Rightarrow> None
      | Some sid \<Rightarrow>
          (if st_name s \<noteq> [] \<and> lookup (st_name s) \<noteq> None then Some (Inl (DuplicateName (st_name s)))
           else case allocate p (wrap64 (sid + 1)) (insert sid used)
                  (if st_name s \<noteq> [] then lookup(st_name s \<mapsto> sid) else lookup) of
             None \<Rightarrow> None
           | Some (Inl e) \<Rightarrow> Some (Inl e)
           | Some (Inr (ids, lookup')) \<Rightarrow> Some (Inr (sid # ids, lookup'))))"

subsection \<open>Wire objects\<close>

definition rate_json :: "rate \<Rightarrow> json option" where
  "rate_json r = map_option
     (\<lambda>v. JObj [(''type'', JStr (rate_type r)), (''value'', v)]) (json_of_f64 (rate_value r))"

definition mode_json :: "tx_mode \<Rightarrow> json option" where
  "mode_json m = (case rate_json (mode_rate m) of None \<Rightarrow> None | Some r \<Rightarrow>
     (case (case mode_ibg m of None \<Rightarrow> Some [] | Some g \<Rightarrow>
              map_option (\<lambda>v. [(''ibg'', v)]) (json_of_f64 g)) of
        None \<Rightarrow> None
      | Some ibg \<Rightarrow> Some (JObj (
          [(''rate'', r), (''type'', JStr (mode_type m))]
          @ opt_field ''total_pkts'' JInt (mode_total_pkts m)
          @ opt_field ''pkts_per_burst'' JInt (mode_pkts_per_burst m)
          @ ibg @ opt_field ''count'' JInt (mode_count m)))))"

text \<open>
  \<open>json.Marshal\<close> of the \<open>wireStream\<close> of stream \<open>s\<close> with packet \<open>pkt\<close> and \<open>next_stream_id\<close>
  \<open>nextID\<close>; a nil instruction slice has been replaced by an empty one.
\<close>

definition wire_stream :: "stream \<Rightarrow> packet \<Rightarrow> int \<Rightarrow> json option" where
  "wire_stream s pkt nextID =
     (let wvm = (case vm_instructions (st_vm s) of
          None \<Rightarrow> (st_vm s)\<lparr>vm_instructions := Some []\<rparr> | Some _ \<Rightarrow> st_vm s) in
      case (json_of_f64 (st_isg s), mode_json (st_mode s), vm_json wvm) of
        (Some isg, Some md, Some vmj) \<Rightarrow> Some (JObj (
          [(''flags'', JInt (flags s)), (''action_count'', JInt (st_action_count s)),
           (''enabled'', JBool (st_enabled s)), (''self_start'', JBool (st_self_start s)),
           (''start_paused'', JBool (st_start_paused s)), (''isg'', isg),
           (''core_id'', JInt (st_core_id s))]
          @ (if st_random_seed s \<noteq> 0 then [(''random_seed'', JInt (st_random_seed s))] else [])
          @ [(''mode'', md),
             (''packet'', JObj [(''binary'', JStr (Base64 pkt)), (''meta'', JStr [])]),
             (''vm'', vmj), (''flow_stats'', FlowStats_MarshalJSON (st_stats s))]
          @ str_field ''name'' (st_name s) @ str_field ''next'' (st_next s)
          @ [(''next_stream_id'', JInt nextID)]))
      | _ \<Rightarrow> None)"

text \<open>The body of the second loop for stream \<open>s\<close> at position \<open>i\<close>.\<close>

definition resolve_one :: "(string \<rightharpoonup> int) \<Rightarrow> int list \<Rightarrow> nat \<Rightarrow> stream \<Rightarrow> resolve_error + resolved_stream" where
  "resolve_one lookup ids i s =
     (case st_packet s of
        None \<Rightarrow> Inl (NoPacket i (st_name s))
      | Some pkt \<Rightarrow>
          bind_res
            (if st_next s \<noteq> [] then
               (case lookup (st_next s) of
                  None \<Rightarrow> Inl (UnknownNext (st_name s) (st_next s))
                | Some nid \<Rightarrow> Inr nid)
             else Inr (-1))
            (\<lambda>nextID. case wire_stream s pkt nextID of
               None \<Rightarrow> Inl (MarshalStream (st_name s))
             | Some raw \<Rightarrow> Inr \<lparr>rs_id = ids ! i, rs_json = raw\<rparr>))"

definition Resolve :: "profile \<Rightarrow> (resolve_error + resolved_stream list) option" where
  "Resolve p = (case allocate p 0 {} Map.empty of
      None \<Rightarrow> None
    | Some (Inl e) \<Rightarrow> Some (Inl e)
    | Some (Inr (ids, lookup)) \<Rightarrow> Some (traverse (resolve_one lookup ids) 0 p))"

section \<open>Lemmas on flags, directions and flow statistics\<close>

lemma mac_mode_bits:
  "bit (push_bit 1 (x AND 3)) n \<longleftrightarrow> (n = 1 \<or> n = 2) \<and> bit x (n - 1)" for x :: int
proof -
  have "(3::int) = mask 2"
    by (simp add: mask_eq_exp_minus_1)
  then have three: "bit (3::int) k \<longleftrightarrow> k < 2" for k
    by (simp only: bit_mask_iff possible_bit_int) simp
  have "1 \<le> n \<and> n - 1 < 2 \<longleftrightarrow> n = 1 \<or> n = 2"
    by arith
  then show ?thesis
    unfolding bit_push_bit_iff_int bit_and_iff three by blast
qed

lemma bit_if_0: "bit (if b then x else 0) n \<longleftrightarrow> b \<and> bit x n" for x :: int
  by simp

lemma flags_bits:
  "bit (flags s) n \<longleftrightarrow>
     n = 0 \<and> st_mac_src_override s \<or>
     (n = 1 \<or> n = 2) \<and> bit (st_mac_dst_mode s) (n - 1) \<or> n = 3 \<and> st_dummy s"
proof -
  have eight: "bit (push_bit 3 1 :: int) n \<longleftrightarrow> n = 3"
    unfolding bit_push_bit_iff_int bit_1_iff by auto
  have eq: "flags s = (if st_mac_src_override s then 1 else 0) OR push_bit 1 (st_mac_dst_mode s AND 3)
      OR (if st_dummy s then push_bit 3 1 else 0)"
    by (simp add: flags_def Let_def or.assoc)
  show ?thesis
    unfolding eq bit_or_iff mac_mode_bits bit_if_0 eight bit_1_iff by blast
qed

lemma flags_range: "0 \<le> flags s \<and> flags s < 16"
proof
  show "0 \<le> flags s"
    by (simp add: flags_def Let_def)
  have "take_bit 4 (flags s) = flags s"
    by (rule bit_eqI) (auto simp: bit_take_bit_iff flags_bits)
  then show "flags s < 16"
    using take_bit_int_less_exp [of 4 "flags s"] by simp
qed

section \<open>Lemmas on the allocation of stream ids\<close>

lemma wrap64_add_wrap64 [go_int_simps]: "wrap64 (wrap64 a + b) = wrap64 (a + b)"
proof -
  have "wrap64 a mod 2 ^ 64 = a mod 2 ^ 64"
    unfolding wrap64_cong [symmetric] by (rule wrap64_id) simp
  then show ?thesis
    unfolding wrap64_cong by (metis mod_add_left_eq)
qed

lemma wrap64_eq_near:
  assumes "wrap64 (a + int i) = wrap64 (a + int j)" "i < 2 ^ 64" "j < 2 ^ 64"
  shows "i = j"
proof -
  have "(a + int i - a) mod 2 ^ 64 = (a + int j - a) mod 2 ^ 64"
    using assms(1) unfolding wrap64_cong by (metis mod_diff_left_eq)
  moreover have "int i < 2 ^ 64" "int j < 2 ^ 64"
    using assms(2,3) by simp_all
  ultimately show ?thesis
    by simp
qed

lemma probe_free: "i \<notin> used \<Longrightarrow> probe used na i = Some i"
  by (simp add: probe.simps)

lemma probe_scan:
  assumes "\<And>j. j < k \<Longrightarrow> wrap64 (a + int j) \<in> used" "wrap64 (a + int k) \<notin> used"
  shows "probe used (wrap64 a) (wrap64 a) = Some (wrap64 (a + int k))"
  using assms
proof (induction k arbitrary: a)
  case 0
  then show ?case by (simp add: probe_free)
next
  case (Suc k)
  have "wrap64 a \<in> used"
    using Suc.prems(1) [of 0] by simp
  moreover have "probe used (wrap64 (a + 1)) (wrap64 (a + 1)) = Some (wrap64 (a + 1 + int k))"
  proof (rule Suc.IH)
    show "wrap64 (a + 1 + int j) \<in> used" if "j < k" for j
      using Suc.prems(1) [of "Suc j"] that by (simp add: ac_simps)
    show "wrap64 (a + 1 + int k) \<notin> used"
      using Suc.prems(2) by (simp add: ac_simps)
  qed
  moreover have "wrap64 (a + 1 + int k) = wrap64 (a + int (Suc k))"
    by (simp add: ac_simps)
  ultimately show ?case
    by (subst probe.simps) (simp only: wrap64_add_wrap64 if_True)
qed

text \<open>Among more than \<open>card used\<close> consecutive ids one is free, so the loop returns.\<close>

lemma free_id_exists:
  assumes "finite used" "card used < 2 ^ 64"
  obtains k where "\<And>j. j < k \<Longrightarrow> wrap64 (a + int j) \<in> used" "wrap64 (a + int k) \<notin> used"
proof -
  have "\<exists>k. wrap64 (a + int k) \<notin> used"
  proof (rule ccontr)
    assume "\<not> ?thesis"
    then have sub: "(\<lambda>k. wrap64 (a + int k)) ` {..card used} \<subseteq> used"
      by auto
    have "inj_on (\<lambda>k. wrap64 (a + int k)) {..card used}"
      using assms(2) by (intro inj_onI) (auto intro: wrap64_eq_near [of a])
    then have "card {..card used} \<le> card used"
      using card_inj_on_le [OF _ sub assms(1)] by blast
    then show False by simp
  qed
  then obtain k where "wrap64 (a + int k) \<notin> used" "\<And>j. j < k \<Longrightarrow> wrap64 (a + int j) \<in> used"
    using exists_least_iff [of "\<lambda>k. wrap64 (a + int k) \<notin> used"] by blast
  then show thesis by (rule that [rotated])
qed

lemma probe_total:
  assumes "finite used" "card used < 2 ^ 64"
  shows "\<exists>j. probe used na i = Some j"
proof (cases "i \<in> used")
  case True
  obtain k where "\<And>j. j < k \<Longrightarrow> wrap64 (na + 1 + int j) \<in> used" "wrap64 (na + 1 + int k) \<notin> used"
    using free_id_exists [OF assms, of "na + 1"] by blast
  then have "probe used (wrap64 (na + 1)) (wrap64 (na + 1)) = Some (wrap64 (na + 1 + int k))"
    by (rule probe_scan)
  with True show ?thesis
    by (subst probe.simps) simp
qed (auto simp: probe_free)

lemma probe_not_used:
  assumes "probe used na i = Some j"
  shows "j \<notin> used"
proof (rule probe.raw_induct [OF _ assms])
  fix probe :: "int set \<Rightarrow> int \<Rightarrow> int \<Rightarrow> int option" and used na i j
  assume "\<And>used na i b. probe used na i = Some b \<Longrightarrow> b \<notin> used"
    "(if i \<in> used then probe used (wrap64 (na + 1)) (wrap64 (na + 1)) else Some i) = Some j"
  then show "j \<notin> used"
    by (metis option.inject)
qed

text \<open>The names of a profile and the table from a name to the id of its stream.\<close>

definition stream_names :: "profile \<Rightarrow> string list" where
  "stream_names p = filter (\<lambda>n. n \<noteq> []) (map st_name p)"

fun name_table :: "profile \<Rightarrow> int list \<Rightarrow> (string \<times> int) list" where
  "name_table (s # p) (i # ids) =
     (if st_name s \<noteq> [] then [(st_name s, i)] else []) @ name_table p ids"
| "name_table p ids = []"

lemma stream_names_simps [simp]:
  "stream_names [] = []"
  "stream_names (s # p) = (if st_name s \<noteq> [] then [st_name s] else []) @ stream_names p"
  by (simp_all add: stream_names_def)

lemma name_table_dom: "length ids = length p \<Longrightarrow> map fst (name_table p ids) = stream_names p"
  by (induction p ids rule: name_table.induct) simp_all

lemma allocate_Cons_Inr:
  assumes "allocate (s # p) na used lk = Some (Inr (ids, lk'))"
  obtains i ids0 where "ids = i # ids0"
    "probe used na (case st_stream_id s of None \<Rightarrow> na | Some i \<Rightarrow> i) = Some i"
    "\<not> (st_name s \<noteq> [] \<and> lk (st_name s) \<noteq> None)"
    "allocate p (wrap64 (i + 1)) (insert i used)
       (if st_name s \<noteq> [] then lk(st_name s \<mapsto> i) else lk) = Some (Inr (ids0, lk'))"
  using assms by (auto split: option.splits if_splits sum.splits)

lemma allocate_Inr:
  assumes "allocate p na used lk = Some (Inr (ids, lk'))"
  shows "length ids = length p \<and> distinct ids \<and> set ids \<inter> used = {} \<and>
    distinct (stream_names p) \<and> set (stream_names p) \<inter> dom lk = {} \<and>
    lk' = lk ++ map_of (name_table p ids)"
  using assms
proof (induction p na used lk arbitrary: ids lk' rule: allocate.induct)
  case (2 s p na used lk)
  let ?lk = "\<lambda>i. if st_name s \<noteq> [] then lk(st_name s \<mapsto> i) else lk"
  from "2.prems" obtain i ids0 where ids: "ids = i # ids0"
    and i: "probe used na (case st_stream_id s of None \<Rightarrow> na | Some i \<Rightarrow> i) = Some i"
    and fresh: "\<not> (st_name s \<noteq> [] \<and> lk (st_name s) \<noteq> None)"
    and rest: "allocate p (wrap64 (i + 1)) (insert i used) (?lk i) = Some (Inr (ids0, lk'))"
    by (rule allocate_Cons_Inr)
  note IH = "2.IH" [OF i fresh rest]
  have new: "i \<notin> used"
    using i by (rule probe_not_used)
  have len: "length ids0 = length p"
    using IH by simp
  show ?case
  proof (cases "st_name s = []")
    case True
    with IH new ids show ?thesis by auto
  next
    case False
    have fr: "st_name s \<notin> set (stream_names p)" "set (stream_names p) \<inter> dom lk = {}"
      using IH False by auto
    have "st_name s \<notin> fst ` set (name_table p ids0)"
      using fr(1) name_table_dom [OF len] by (metis set_map)
    then have "map_of (name_table p ids0) (st_name s) = None"
      by (simp add: map_of_eq_None_iff)
    then have upd: "lk(st_name s \<mapsto> i) ++ map_of (name_table p ids0)
        = lk ++ (map_of (name_table p ids0))(st_name s \<mapsto> i)"
      by (auto simp: map_add_def fun_eq_iff split: option.splits)
    have "lk' = lk(st_name s \<mapsto> i) ++ map_of (name_table p ids0)"
      using IH False by (simp add: fun_upd_def)
    then have tab: "lk' = lk ++ map_of (name_table (s # p) ids)"
      using upd False ids by simp
    have "set (stream_names (s # p)) \<inter> dom lk = {}" "distinct (stream_names (s # p))"
      using fr fresh False IH by auto
    moreover have "length ids = length (s # p)" "distinct ids" "set ids \<inter> used = {}"
      using IH ids new by auto
    ultimately show ?thesis
      using tab by blast
  qed
qed auto

lemma allocate_total:
  assumes "finite used" "card used + length p < 2 ^ 64"
  shows "\<exists>r. allocate p na used lk = Some r \<and>
    (isl r \<longleftrightarrow> \<not> (distinct (stream_names p) \<and> set (stream_names p) \<inter> dom lk = {}))"
  using assms
proof (induction p arbitrary: na used lk)
  case (Cons s p)
  obtain i where i: "probe used na (case st_stream_id s of None \<Rightarrow> na | Some i \<Rightarrow> i) = Some i"
    using probe_total [of used] Cons.prems by fastforce
  let ?lk = "if st_name s \<noteq> [] then lk(st_name s \<mapsto> i) else lk"
  have "card (insert i used) \<le> Suc (card used)"
    by (rule card_insert_le_m1) simp_all
  then obtain r where r: "allocate p (wrap64 (i + 1)) (insert i used) ?lk = Some r"
    "isl r \<longleftrightarrow> \<not> (distinct (stream_names p) \<and> set (stream_names p) \<inter> dom ?lk = {})"
    using Cons.IH [of "insert i used" "wrap64 (i + 1)" ?lk] Cons.prems by auto
  show ?case
  proof (cases "st_name s \<noteq> [] \<and> lk (st_name s) \<noteq> None")
    case True
    with i show ?thesis by auto
  next
    case False
    have "allocate (s # p) na used lk =
        Some (map_sum id (\<lambda>(ids, lk'). (i # ids, lk')) r)"
      using i r(1) False by (cases r) (auto split: prod.splits)
    moreover have "isl r \<longleftrightarrow>
        \<not> (distinct (stream_names (s # p)) \<and> set (stream_names (s # p)) \<inter> dom lk = {})"
      unfolding r(2) using False by (cases "st_name s = []") auto
    ultimately show ?thesis
      by (metis isl_map_sum)
  qed
qed simp

lemma allocate_positional:
  assumes "allocate p na used lk = Some (Inr (ids, lk'))" "\<forall>s \<in> set p. st_stream_id s = None"
    and "\<forall>i \<in> used. i < na" "- (2 ^ 63) \<le> na" "na + int (length p) < 2 ^ 63"
  shows "ids = map (\<lambda>i. na + int i) [0..<length p]"
  using assms
proof (induction p arbitrary: na used lk ids)
  case (Cons s p)
  from Cons.prems(1) obtain j ids0 where ids0: "ids = j # ids0"
    and j: "probe used na (case st_stream_id s of None \<Rightarrow> na | Some i \<Rightarrow> i) = Some j"
    and rest0: "allocate p (wrap64 (j + 1)) (insert j used)
                 (if st_name s \<noteq> [] then lk(st_name s \<mapsto> j) else lk) = Some (Inr (ids0, lk'))"
    by (rule allocate_Cons_Inr)
  have "na \<notin> used"
    using Cons.prems(3) by blast
  then have "j = na"
    using j Cons.prems(2) by (simp add: probe_free)
  note ids = ids0 [unfolded this] and rest = rest0 [unfolded this]
  have w: "wrap64 (na + 1) = na + 1"
    using Cons.prems by (intro wrap64_id) (auto simp: int64_range_def)
  have "ids0 = map (\<lambda>i. na + 1 + int i) [0..<length p]"
    using Cons.prems by (intro Cons.IH [OF rest [unfolded w]]) auto
  then show ?case
    unfolding ids by (simp add: map_upt_Suc del: upt_Suc)
qed simp

text \<open>
  The ids that a profile asks for: the forced id of a stream, or else the number after the one
  in front of it, from \<open>k\<close> on. When they do not clash they are the ids that are given.
\<close>

fun requested_ids :: "profile \<Rightarrow> int \<Rightarrow> int list" where
  "requested_ids [] k = []"
| "requested_ids (s # p) k = (case st_stream_id s of
      None \<Rightarrow> k # requested_ids p (wrap64 (k + 1))
    | Some i \<Rightarrow> i # requested_ids p (wrap64 (i + 1)))"



text \<open>The error of the first loop names a stream and an earlier stream of the same name.\<close>

lemma allocate_Inl:
  assumes "allocate p na used lk = Some (Inl e)"
  shows "\<exists>i < length p. e = DuplicateName (st_name (p ! i)) \<and> st_name (p ! i) \<noteq> [] \<and>
    (lk (st_name (p ! i)) \<noteq> None \<or> (\<exists>j < i. st_name (p ! j) = st_name (p ! i)))"
  using assms
proof (induction p arbitrary: na used lk)
  case (Cons s p)
  then obtain j where
    j: "probe used na (case st_stream_id s of None \<Rightarrow> na | Some i \<Rightarrow> i) = Some j"
    by (auto split: option.splits)
  show ?case
  proof (cases "st_name s \<noteq> [] \<and> lk (st_name s) \<noteq> None")
    case True
    with Cons.prems j have "e = DuplicateName (st_name s)" by simp
    with True show ?thesis by (auto intro: exI [of _ 0])
  next
    case False
    let ?lk = "if st_name s \<noteq> [] then lk(st_name s \<mapsto> j) else lk"
    have "allocate p (wrap64 (j + 1)) (insert j used) ?lk = Some (Inl e)"
      using Cons.prems j False by (auto split: option.splits sum.splits if_splits)
    then obtain i where i: "i < length p" "e = DuplicateName (st_name (p ! i))" "st_name (p ! i) \<noteq> []"
      "?lk (st_name (p ! i)) \<noteq> None \<or> (\<exists>j < i. st_name (p ! j) = st_name (p ! i))"
      using Cons.IH by blast
    then have "lk (st_name (p ! i)) \<noteq> None \<or> st_name s = st_name (p ! i)
        \<or> (\<exists>j < i. st_name (p ! j) = st_name (p ! i))"
      by (auto split: if_splits)
    then have "lk (st_name (p ! i)) \<noteq> None \<or>
        (\<exists>j < Suc i. st_name ((s # p) ! j) = st_name ((s # p) ! Suc i))"
      by (auto simp: Ex_less_Suc2)
    with i(1-3) show ?thesis
      by (intro exI [of _ "Suc i"]) simp
  qed
qed simp

section \<open>Lemmas on resolving\<close>

text \<open>What \<open>json.Marshal\<close> of a stream needs: finite floats and no malformed raw instruction.\<close>

fun instruction_valid :: "vm_instruction \<Rightarrow> bool" where
  "instruction_valid (IRaw (RawInvalid _)) = False"
| "instruction_valid _ = True"

definition marshals :: "stream \<Rightarrow> bool" where
  "marshals s \<longleftrightarrow> f_finite (st_isg s) \<and> f_finite (rate_value (mode_rate (st_mode s))) \<and>
     (case mode_ibg (st_mode s) of None \<Rightarrow> True | Some g \<Rightarrow> f_finite g) \<and>
     (case vm_instructions (st_vm s) of None \<Rightarrow> True | Some is \<Rightarrow> list_all instruction_valid is)"

lemma instruction_json_None: "instruction_json i = None \<longleftrightarrow> \<not> instruction_valid i"
  by (cases i rule: instruction_valid.cases) (simp_all add: RawInstruction_MarshalJSON_def)

lemma instructions_json_None: "instructions_json is = None \<longleftrightarrow> \<not> list_all instruction_valid is"
  by (induction "is") (auto simp: instruction_json_None [symmetric] split: option.splits)

lemma vm_json_None:
  "vm_json v = None \<longleftrightarrow>
     (case vm_instructions v of None \<Rightarrow> False | Some is \<Rightarrow> \<not> list_all instruction_valid is)"
  by (auto simp: vm_json_def instructions_json_None [symmetric] split: option.splits)

lemma mode_json_None:
  "mode_json m = None \<longleftrightarrow> \<not> (f_finite (rate_value (mode_rate m)) \<and>
     (case mode_ibg m of None \<Rightarrow> True | Some g \<Rightarrow> f_finite g))"
  by (auto simp: mode_json_def rate_json_def json_of_f64_Some_finite split: option.splits
      dest: json_of_f64_Some_finite)

lemma wire_stream_None: "wire_stream s pkt n = None \<longleftrightarrow> \<not> marshals s"
proof -
  let ?v = "case vm_instructions (st_vm s) of
      None \<Rightarrow> (st_vm s)\<lparr>vm_instructions := Some []\<rparr> | Some _ \<Rightarrow> st_vm s"
  have v: "vm_json ?v = None \<longleftrightarrow>
      \<not> (case vm_instructions (st_vm s) of None \<Rightarrow> True | Some is \<Rightarrow> list_all instruction_valid is)"
    by (auto simp: vm_json_None split: option.splits)
  have "wire_stream s pkt n = None \<longleftrightarrow>
      json_of_f64 (st_isg s) = None \<or> mode_json (st_mode s) = None \<or> vm_json ?v = None"
    by (auto simp: wire_stream_def Let_def dest: json_of_f64_Some_finite split: option.splits)
  then show ?thesis
    by (simp add: v mode_json_None marshals_def) blast
qed

lemma name_table_lookup:
  assumes "length ids = length p" "distinct (stream_names p)" "i < length p" "st_name (p ! i) \<noteq> []"
  shows "map_of (name_table p ids) (st_name (p ! i)) = Some (ids ! i)"
proof -
  have "(st_name (p ! i), ids ! i) \<in> set (name_table p ids)"
    using assms(1,3,4)
  proof (induction p ids arbitrary: i rule: name_table.induct)
    case (1 s p j ids)
    then show ?case by (cases i) auto
  qed auto
  then show ?thesis
    using assms(1,2) by (simp add: name_table_dom)
qed

lemma name_table_None:
  assumes "length ids = length p"
  shows "map_of (name_table p ids) n = None \<longleftrightarrow> n \<notin> set (stream_names p)"
  by (metis assms map_of_eq_None_iff name_table_dom set_map)

lemma in_stream_names: "n \<in> set (stream_names p) \<longleftrightarrow> n \<noteq> [] \<and> (\<exists>j < length p. st_name (p ! j) = n)"
proof -
  have "(\<exists>j < length p. st_name (p ! j) = n) \<longleftrightarrow> n \<in> set (map st_name p)"
    by (metis in_set_conv_nth length_map nth_map)
  then show ?thesis
    by (auto simp: stream_names_def)
qed

lemma marshals_dests:
  "wire_stream s pkt n = Some w \<Longrightarrow> marshals s"
  "wire_stream s pkt n = None \<Longrightarrow> \<not> marshals s"
  using wire_stream_None [of s pkt n] by simp_all

lemma resolve_one_Inr:
  "resolve_one lk ids i s = Inr r \<longleftrightarrow>
     (\<exists>pkt n. st_packet s = Some pkt \<and> (if st_next s \<noteq> [] then lk (st_next s) = Some n else n = -1) \<and>
        wire_stream s pkt n = Some (rs_json r) \<and> rs_id r = ids ! i)"
  by (cases r) (auto simp: resolve_one_def bind_res_eq_Inr split: option.splits)

text \<open>The members of a wire object.\<close>

definition wire_members :: "stream \<Rightarrow> packet \<Rightarrow> (string \<times> json) list \<Rightarrow> bool" where
  "wire_members s pkt kvs \<longleftrightarrow> distinct (map fst kvs) \<and>
     map_of kvs ''packet'' = Some (JObj [(''binary'', JStr (Base64 pkt)), (''meta'', JStr [])]) \<and>
     map_of kvs ''name'' = (if st_name s = [] then None else Some (JStr (st_name s))) \<and>
     map_of kvs ''next'' = (if st_next s = [] then None else Some (JStr (st_next s))) \<and>
     map_of kvs ''flags'' = Some (JInt (flags s)) \<and> map_of kvs ''action_count'' = Some (JInt (st_action_count s)) \<and>
     map_of kvs ''enabled'' = Some (JBool (st_enabled s)) \<and> map_of kvs ''self_start'' = Some (JBool (st_self_start s)) \<and>
     map_of kvs ''start_paused'' = Some (JBool (st_start_paused s)) \<and> map_of kvs ''isg'' = json_of_f64 (st_isg s) \<and>
     map_of kvs ''core_id'' = Some (JInt (st_core_id s)) \<and>
     map_of kvs ''random_seed'' = (if st_random_seed s = 0 then None else Some (JInt (st_random_seed s))) \<and>
     map_of kvs ''mode'' = mode_json (st_mode s) \<and>
     map_of kvs ''vm'' = vm_json (case vm_instructions (st_vm s) of
        None \<Rightarrow> (st_vm s)\<lparr>vm_instructions := Some []\<rparr> | Some _ \<Rightarrow> st_vm s) \<and>
     map_of kvs ''flow_stats'' = Some (FlowStats_MarshalJSON (st_stats s))"

lemma wire_stream_members:
  assumes "wire_stream s pkt n = Some j"
  obtains kvs where "j = JObj kvs" "wire_members s pkt kvs" "map_of kvs ''next_stream_id'' = Some (JInt n)"
  using assms that
  by (auto simp: wire_stream_def wire_members_def Let_def str_field_def split: option.splits if_splits)

text \<open>Both loops of a successful \<open>Resolve\<close>.\<close>

lemma Resolve_Inr:
  assumes "Resolve p = Some (Inr out)"
  obtains ids where "allocate p 0 {} Map.empty = Some (Inr (ids, map_of (name_table p ids)))"
    "length ids = length p" "distinct ids" "distinct (stream_names p)" "length out = length p"
    "\<And>i. i < length p \<Longrightarrow> resolve_one (map_of (name_table p ids)) ids i (p ! i) = Inr (out ! i)"
    "map rs_id out = ids"
proof -
  from assms obtain ids lk where al: "allocate p 0 {} Map.empty = Some (Inr (ids, lk))"
    and tr: "traverse (resolve_one lk ids) 0 p = Inr out"
    by (auto simp: Resolve_def split: option.splits sum.splits)
  from allocate_Inr [OF al] have a: "length ids = length p" "distinct ids" "distinct (stream_names p)"
    "lk = map_of (name_table p ids)"
    by simp_all
  have len: "length out = length p"
    using tr by (rule traverse_length)
  have one: "resolve_one lk ids i (p ! i) = Inr (out ! i)" if "i < length p" for i
    using traverse_nth [OF tr that] .
  have "rs_id (out ! i) = ids ! i" if "i < length p" for i
    using one [OF that] by (auto simp: resolve_one_Inr)
  then have "map rs_id out = ids"
    using len a(1) by (intro nth_equalityI) simp_all
  with al a len one show thesis
    using that by blast
qed

lemma resolve_one_isl:
  "isl (resolve_one lk ids i s) \<longleftrightarrow>
     \<not> (st_packet s \<noteq> None \<and> (st_next s = [] \<or> lk (st_next s) \<noteq> None) \<and> marshals s)"
  by (cases "st_packet s"; cases "lk (st_next s)"; cases "st_next s = []")
    (auto simp: resolve_one_def dest: marshals_dests split: option.splits)

lemma traverse_isl: "isl (traverse f i xs) \<longleftrightarrow> (\<exists>j < length xs. isl (f (i + j) (xs ! j)))"
proof (induction xs arbitrary: i)
  case (Cons x xs)
  have "isl (traverse f i (x # xs)) \<longleftrightarrow> isl (f i x) \<or> isl (traverse f (Suc i) xs)"
    by (cases "f i x"; cases "traverse f (Suc i) xs") simp_all
  then show ?case
    by (simp add: Cons.IH Ex_less_Suc2)
qed simp

lemma Resolve_cases:
  assumes "length p < 2 ^ 64"
  obtains r where "Resolve p = Some r"
    "(\<exists>out. r = Inr out) \<longleftrightarrow> distinct (stream_names p) \<and>
       (\<forall>s \<in> set p. st_packet s \<noteq> None \<and> (st_next s = [] \<or> st_next s \<in> set (stream_names p)) \<and> marshals s)"
proof -
  obtain r where r: "allocate p 0 {} Map.empty = Some r" "isl r \<longleftrightarrow> \<not> distinct (stream_names p)"
    using allocate_total [of "{}" p 0 Map.empty] assms by auto
  show thesis
  proof (cases r)
    case (Inl e)
    with r show thesis by (intro that [of "Inl e"]) (simp_all add: Resolve_def)
  next
    case (Inr a)
    obtain ids lk where a: "a = (ids, lk)" by fastforce
    then have al: "allocate p 0 {} Map.empty = Some (Inr (ids, lk))"
      using r Inr by simp
    let ?r = "traverse (resolve_one lk ids) 0 p"
    have lk: "lk n \<noteq> None \<longleftrightarrow> n \<in> set (stream_names p)" for n
      using allocate_Inr [OF al] name_table_None by auto
    have "isl ?r \<longleftrightarrow> \<not> (\<forall>s \<in> set p. st_packet s \<noteq> None \<and>
        (st_next s = [] \<or> st_next s \<in> set (stream_names p)) \<and> marshals s)"
      unfolding traverse_isl resolve_one_isl lk by (auto simp: all_set_conv_all_nth)
    moreover have "Resolve p = Some ?r"
      by (simp add: Resolve_def al)
    moreover have "distinct (stream_names p)"
      using r(2) Inr by simp
    ultimately show thesis
      by (intro that [of ?r]) (cases ?r; auto)+
  qed
qed

lemma Resolve_returns: "length p < 2 ^ 64 \<Longrightarrow> \<exists>r. Resolve p = Some r"
  by (rule Resolve_cases) auto

lemma Resolve_ok_iff:
  "length p < 2 ^ 64 \<Longrightarrow> (\<exists>out. Resolve p = Some (Inr out)) \<longleftrightarrow> distinct (stream_names p) \<and>
     (\<forall>s \<in> set p. st_packet s \<noteq> None \<and> (st_next s = [] \<or> st_next s \<in> set (stream_names p)) \<and> marshals s)"
  by (rule Resolve_cases) auto

text \<open>Flow statistics rules change nothing that \<open>Resolve\<close> looks at.\<close>

lemma EnsureFlowStats_map:
  assumes "\<And>s r. f (s\<lparr>st_stats := r\<rparr>) = f s"
  shows "map f (fst (EnsureFlowStats p pg)) = map f p"
proof (induction p arbitrary: pg)
  case (Cons s p)
  let ?r = "\<lparr>fs_enabled = True, fs_pgid = pg, fs_rule_type = FSStats, fs_vxlan = False, fs_ieee1588 = False\<rparr>"
  have "fst (EnsureFlowStats (s # p) pg) = (if st_dummy s \<or> fs_enabled (st_stats s)
      then s # fst (EnsureFlowStats p pg)
      else s\<lparr>st_stats := ?r\<rparr> # fst (EnsureFlowStats p (wrap64 (pg + 1))))"
    by (simp only: EnsureFlowStats.simps Let_def case_prod_beta fst_conv if_distrib [of fst])
  then show ?case
    by (simp only: if_distrib [of "map f"] list.map assms Cons.IH if_cancel)
qed simp

lemma EnsureFlowStats_resolves:
  assumes "length p < 2 ^ 64"
  shows "(\<exists>out. Resolve (fst (EnsureFlowStats p pg)) = Some (Inr out)) \<longleftrightarrow> (\<exists>out. Resolve p = Some (Inr out))"
proof -
  define f where "f s = (st_name s, st_packet s, st_next s, marshals s)" for s
  let ?p = "fst (EnsureFlowStats p pg)"
  have m: "map f ?p = map f p"
    by (rule EnsureFlowStats_map) (simp add: f_def marshals_def)
  have len: "length ?p = length p"
    using arg_cong [OF m, of length] by (simp only: length_map)
  have "f ` set ?p = f ` set p"
    using arg_cong [OF m, of set] by (simp only: set_map)
  moreover have "(\<forall>s \<in> set q. st_packet s \<noteq> None \<and> (st_next s = [] \<or> st_next s \<in> N) \<and> marshals s) \<longleftrightarrow>
      (\<forall>(n, pkt, nxt, ok) \<in> f ` set q. pkt \<noteq> None \<and> (nxt = [] \<or> nxt \<in> N) \<and> ok)" for q N
    by (simp add: f_def)
  moreover have "stream_names q = filter (\<lambda>n. n \<noteq> []) (map fst (map f q))" for q
    by (simp add: stream_names_def comp_def f_def)
  ultimately show ?thesis
    using Resolve_ok_iff [of p] Resolve_ok_iff [of ?p] assms m len by presburger
qed

section \<open>Properties\<close>

text \<open>C10: resolving a profile whose streams ask for different ids always returns, and it succeeds
  exactly when the non-empty stream names are distinct, every stream has a packet, every next
  reference names a stream of the profile, and every stream can be marshalled; in every other
  case it is an error.\<close>

theorem Resolve_succeeds_iff:
  assumes "length p < 2 ^ 64" "distinct (requested_ids p 0)"
  shows "\<exists>r. Resolve p = Some r \<and>
    ((\<exists>out. r = Inr out) \<longleftrightarrow> distinct (stream_names p) \<and>
       (\<forall>s \<in> set p. st_packet s \<noteq> None \<and> (st_next s = [] \<or> st_next s \<in> set (stream_names p)) \<and>
          marshals s))"
  using Resolve_returns [OF assms(1)] Resolve_ok_iff [OF assms(1)] by auto


text \<open>in a profile without forced ids the stream ids are the positions \<open>0, 1, ...\<close>.\<close>

theorem Resolve_positional:
  assumes "Resolve p = Some (Inr out)" "\<forall>s \<in> set p. st_stream_id s = None" "length p < 2 ^ 63"
  shows "map rs_id out = map int [0..<length p]"
proof -
  obtain ids where al: "allocate p 0 {} Map.empty = Some (Inr (ids, map_of (name_table p ids)))"
    and ids: "map rs_id out = ids"
    using Resolve_Inr [OF assms(1)] by blast
  show ?thesis
    using allocate_positional [OF al assms(2)] assms(3) unfolding ids by simp
qed

text \<open>C12: every resolved stream is an object with the members of its own stream and packet, each
  once, and its \<open>next_stream_id\<close> is -1 without a next reference and otherwise the id of the one
  stream that has the name it refers to.\<close>

theorem Resolve_links:
  assumes "Resolve p = Some (Inr out)" "i < length p"
  shows "\<exists>pkt kvs. st_packet (p ! i) = Some pkt \<and> rs_json (out ! i) = JObj kvs \<and> wire_members (p ! i) pkt kvs \<and>
    (st_next (p ! i) = [] \<longrightarrow> map_of kvs ''next_stream_id'' = Some (JInt (-1))) \<and>
    (st_next (p ! i) \<noteq> [] \<longrightarrow> (\<exists>j < length p. map_of kvs ''next_stream_id'' = Some (JInt (rs_id (out ! j))) \<and>
       (\<forall>k < length p. st_name (p ! k) = st_next (p ! i) \<longleftrightarrow> k = j)))"
proof -
  obtain ids where r: "length ids = length p" "distinct ids" "distinct (stream_names p)"
    "length out = length p" "map rs_id out = ids"
    and one: "resolve_one (map_of (name_table p ids)) ids i (p ! i) = Inr (out ! i)"
    using Resolve_Inr [OF assms(1)] assms(2) by metis
  have nth: "rs_id (out ! k) = ids ! k" if "k < length p" for k
    using r that by (metis nth_map)
  from one obtain pkt n where pkt: "st_packet (p ! i) = Some pkt"
    and n: "(if st_next (p ! i) \<noteq> [] then map_of (name_table p ids) (st_next (p ! i)) = Some n else n = -1)"
    and w: "wire_stream (p ! i) pkt n = Some (rs_json (out ! i))"
    by (auto simp: resolve_one_Inr)
  have "\<exists>j < length p. n = rs_id (out ! j) \<and> (\<forall>k < length p. st_name (p ! k) = st_next (p ! i) \<longleftrightarrow> k = j)"
    if ne: "st_next (p ! i) \<noteq> []"
  proof -
    have "st_next (p ! i) \<in> set (stream_names p)"
      using n ne name_table_None [OF r(1)] by (metis option.distinct(1))
    then obtain j where j: "j < length p" "st_name (p ! j) = st_next (p ! i)"
      by (auto simp: in_stream_names)
    have "n = ids ! k" if "k < length p" "st_name (p ! k) = st_next (p ! i)" for k
      using n ne that name_table_lookup [OF r(1,3) that(1)] by simp
    then have "k = j" if "k < length p" "st_name (p ! k) = st_next (p ! i)" for k
      using that j r(1,2) by (metis nth_eq_iff_index_eq)
    moreover have "n = rs_id (out ! j)"
      using n ne j name_table_lookup [OF r(1,3) j(1)] nth [OF j(1)] by simp
    ultimately show ?thesis
      using j by blast
  qed
  with pkt n show ?thesis
    by (auto intro: wire_stream_members [OF w])
qed

text \<open>A profile of two linked streams and one stream with a forced id, for the examples.\<close>

definition sample_stream :: "string \<Rightarrow> string \<Rightarrow> int option \<Rightarrow> stream" where
  "sample_stream name next_name sid =
     \<lparr>st_name = name, st_next = next_name, st_packet = Some \<lparr>pkt_binary = [1, 2, 3], pkt_starts = Map.empty\<rparr>,
      st_mode = Continuous \<lparr>rate_type = RatePPS, rate_value = Fin 10\<rparr>,
      st_vm = \<lparr>vm_instructions = None, vm_cache = None\<rparr>, st_stats = zero_flow_stats,
      st_enabled = True, st_self_start = True, st_start_paused = False, st_isg = Fin 0,
      st_core_id = -1, st_action_count = 0, st_random_seed = 0, st_mac_src_override = False,
      st_mac_dst_mode = 0, st_dummy = False, st_stream_id = sid, st_direction = None\<rparr>"

definition sample_profile :: profile where
  "sample_profile = [sample_stream ''a'' ''b'' None, sample_stream ''b'' [] None]"

definition sample_forced :: profile where
  "sample_forced = [sample_stream ''a'' ''b'' (Some 7), sample_stream ''b'' [] None]"

lemma sample_stream_simps [simp]:
  "st_name (sample_stream n m k) = n" "st_next (sample_stream n m k) = m"
  "st_stream_id (sample_stream n m k) = k" "st_packet (sample_stream n m k) \<noteq> None"
  "st_dummy (sample_stream n m k) = False" "st_direction (sample_stream n m k) = None"
  "st_stats (sample_stream n m k) = zero_flow_stats"
  "marshals (sample_stream n m k)"
  by (simp_all add: sample_stream_def marshals_def f_finite_def Continuous_def)

lemma resolve_one_ok:
  "marshals s \<Longrightarrow> st_packet s \<noteq> None \<Longrightarrow> st_next s = [] \<or> lk (st_next s) \<noteq> None \<Longrightarrow>
   \<exists>r. resolve_one lk ids i s = Inr r"
  using resolve_one_isl [of lk ids i s] by (cases "resolve_one lk ids i s") auto

lemma sample_resolves:
  "\<exists>out. Resolve sample_profile = Some (Inr out)" "\<exists>out. Resolve sample_forced = Some (Inr out)"
proof -
  have one: "\<exists>a b. traverse (resolve_one lk ids) 0 [sample_stream ''a'' ''b'' k, sample_stream ''b'' [] k'] = Inr [a, b]"
    if "lk ''b'' \<noteq> None" for lk ids k k'
    using resolve_one_ok [of "sample_stream ''a'' ''b'' k" lk ids 0]
      resolve_one_ok [of "sample_stream ''b'' [] k'" lk ids 1] that
    by auto
  have "wrap64 1 = 1" "wrap64 8 = 8"
    by (simp_all add: wrap64_id int64_range_def)
  then have "allocate sample_profile 0 {} Map.empty = Some (Inr ([0, 1], [''a'' \<mapsto> 0, ''b'' \<mapsto> 1]))"
    "allocate sample_forced 0 {} Map.empty = Some (Inr ([7, 8], [''a'' \<mapsto> 7, ''b'' \<mapsto> 8]))"
    by (simp_all add: sample_profile_def sample_forced_def probe_free)
  then show "\<exists>out. Resolve sample_profile = Some (Inr out)" "\<exists>out. Resolve sample_forced = Some (Inr out)"
    using one [of "[''a'' \<mapsto> 0, ''b'' \<mapsto> 1]" "[0, 1]" None None]
      one [of "[''a'' \<mapsto> 7, ''b'' \<mapsto> 8]" "[7, 8]" "Some 7" None]
    by (auto simp: Resolve_def sample_profile_def sample_forced_def simp del: traverse.simps)
qed

theorem Resolve_succeeds_iff_witness: "\<exists>out. Resolve [sample_stream ''a'' ''a'' (Some 3)] = Some (Inr out)"
  using Resolve_succeeds_iff [of "[sample_stream ''a'' ''a'' (Some 3)]"] by auto


theorem Resolve_positional_witness:
  "\<exists>out. Resolve sample_profile = Some (Inr out) \<and> map rs_id out = [0, 1]"
proof -
  obtain out where out: "Resolve sample_profile = Some (Inr out)"
    using sample_resolves by blast
  with Resolve_positional [OF out] show ?thesis
    by (simp add: sample_profile_def)
qed

theorem Resolve_links_witness:
  "\<exists>out kvs. Resolve sample_profile = Some (Inr out) \<and> rs_json (out ! 0) = JObj kvs \<and>
     map_of kvs ''next_stream_id'' = Some (JInt (rs_id (out ! 1)))"
proof -
  obtain out where out: "Resolve sample_profile = Some (Inr out)"
    using sample_resolves by blast
  obtain kvs j where w: "rs_json (out ! 0) = JObj kvs" "map_of kvs ''next_stream_id'' = Some (JInt (rs_id (out ! j)))"
    and j: "\<forall>k < length sample_profile. st_name (sample_profile ! k) = ''b'' \<longleftrightarrow> k = j"
    using Resolve_links [OF out, of 0] by (auto simp: sample_profile_def)
  have "j = 1"
    using j [rule_format, of 1] by (simp add: sample_profile_def)
  with out w show ?thesis by blast
qed

text \<open>the flags word is exactly the documented bits: bit 0 the source MAC override, bits
  1 and 2 the two low bits of the destination MAC mode, bit 3 the dummy mark, and nothing
  else, for every value of the mode field.\<close>

theorem flags_layout:
  "0 \<le> flags s \<and> flags s < 16 \<and> (odd (flags s) \<longleftrightarrow> st_mac_src_override s) \<and>
   flags s div 2 mod 4 = st_mac_dst_mode s mod 4 \<and> (8 \<le> flags s \<longleftrightarrow> st_dummy s)"
proof -
  have "take_bit 2 (drop_bit 1 (flags s)) = take_bit 2 (st_mac_dst_mode s)"
    by (rule bit_eqI) (auto simp: bit_take_bit_iff bit_drop_bit_eq flags_bits)
  then have mode: "flags s div 2 mod 4 = st_mac_dst_mode s mod 4"
    by (simp add: take_bit_eq_mod drop_bit_eq_div)
  have "bit (flags s) 3 \<longleftrightarrow> 8 \<le> flags s"
    using flags_range [of s] by (simp add: bit_iff_odd) presburger
  moreover have "bit (flags s) 0 \<longleftrightarrow> odd (flags s)"
    by (simp add: bit_0)
  ultimately show ?thesis
    using flags_range [of s] mode by (auto simp: flags_bits)
qed

text \<open>loading a profile of directed and undirected streams onto an even and an odd port
  loads every undirected stream twice and every directed stream exactly once, on the port
  whose parity is its direction.\<close>

theorem ForPort_partition:
  assumes "0 \<le> a" "even a" "0 \<le> b" "odd b"
    and "\<forall>s \<in> set p. st_direction s \<in> {None, Some 0, Some 1}"
  shows "mset (ForPort p a) + mset (ForPort p b) =
      mset p + mset (filter (\<lambda>s. st_direction s = None) p) \<and>
    (\<forall>s \<in> set (ForPort p a). st_direction s \<noteq> Some 1) \<and>
    (\<forall>s \<in> set (ForPort p b). st_direction s \<noteq> Some 0)"
proof -
  have a: "ForPort p a = filter (\<lambda>s. st_direction s \<in> {None, Some 0}) p"
    and b: "ForPort p b = filter (\<lambda>s. st_direction s \<in> {None, Some 1}) p"
    using assms(1-4)
    by (simp_all add: ForPort_def Let_def go_rem_2_cases) (intro filter_cong refl; simp split: option.split)+
  have "mset (filter (\<lambda>s. st_direction s \<in> {None, Some 0}) p) +
      mset (filter (\<lambda>s. st_direction s \<in> {None, Some 1}) p) =
      mset p + mset (filter (\<lambda>s. st_direction s = None) p)"
    using assms(5) by (induction p) auto
  with a b show ?thesis by auto
qed

theorem ForPort_partition_witness:
  "mset (ForPort sample_profile 2) + mset (ForPort sample_profile 5) =
   mset sample_profile + mset (filter (\<lambda>s. st_direction s = None) sample_profile)"
  using ForPort_partition [of 2 5 sample_profile] by (simp add: sample_profile_def)

section \<open>Flow statistics rules\<close>

definition needs_rule :: "stream \<Rightarrow> bool" where
  "needs_rule s \<longleftrightarrow> \<not> st_dummy s \<and> \<not> fs_enabled (st_stats s)"

definition rule_for :: "int \<Rightarrow> flow_stats" where
  "rule_for pg = \<lparr>fs_enabled = True, fs_pgid = pg, fs_rule_type = FSStats, fs_vxlan = False,
     fs_ieee1588 = False\<rparr>"

text \<open>The number of streams before position \<open>i\<close> that get a rule.\<close>

definition rules_before :: "profile \<Rightarrow> nat \<Rightarrow> nat" where
  "rules_before p i = length (filter needs_rule (take i p))"

lemma rules_before_Cons [simp]:
  "rules_before (s # p) (Suc i) = (if needs_rule s then 1 else 0) + rules_before p i"
  "rules_before p 0 = 0"
  by (simp_all add: rules_before_def)

lemma rules_before_all [simp]: "rules_before p (length p) = length (filter needs_rule p)"
  by (simp add: rules_before_def)

lemma EnsureFlowStats_nth:
  assumes "EnsureFlowStats p pg = (p', pg')" "- (2 ^ 63) \<le> pg" "pg + int (length (filter needs_rule p)) < 2 ^ 63"
  shows "length p' = length p \<and> pg' = pg + int (length (filter needs_rule p)) \<and>
    (\<forall>i < length p. p' ! i = (if needs_rule (p ! i)
       then (p ! i)\<lparr>st_stats := rule_for (pg + int (rules_before p i))\<rparr> else p ! i))"
  using assms
proof (induction p pg arbitrary: p' pg' rule: EnsureFlowStats.induct)
  case (2 s p pg)
  show ?case
  proof (cases "needs_rule s")
    case False
    then have skip: "st_dummy s \<or> fs_enabled (st_stats s)" by (auto simp: needs_rule_def)
    obtain q pg2 where q: "EnsureFlowStats p pg = (q, pg2)" by fastforce
    have out: "p' = s # q" "pg' = pg2" using "2.prems"(1) skip q by auto
    from "2.IH"(1) [OF skip q] "2.prems"(2,3) False out show ?thesis
      by (simp add: All_less_Suc2)
  next
    case True
    then have n: "\<not> (st_dummy s \<or> fs_enabled (st_stats s))" by (simp add: needs_rule_def)
    have w: "wrap64 (pg + 1) = pg + 1"
      using True "2.prems"(2,3) by (intro wrap64_id) (simp add: int64_range_def)
    obtain q pg2 where q: "EnsureFlowStats p (wrap64 (pg + 1)) = (q, pg2)" by fastforce
    have out: "p' = s\<lparr>st_stats := rule_for pg\<rparr> # q" "pg' = pg2"
      using "2.prems"(1) n q by (simp_all add: rule_for_def)
    from "2.IH"(2) [OF n refl q] "2.prems"(2,3) True w out show ?thesis
      by (simp add: All_less_Suc2 algebra_simps)
  qed
qed simp

text \<open>\<open>EnsureFlowStats\<close> gives the streams that need a rule the pg ids \<open>start\<close>,
  \<open>start + 1\<close>, ... in profile order, leaves every other stream and every other field alone,
  and returns the pg id after the last one it gave out.\<close>

theorem EnsureFlowStats_consecutive:
  assumes "- (2 ^ 63) \<le> start" "start + int (length (filter needs_rule p)) < 2 ^ 63"
  shows "case EnsureFlowStats p start of (p', nxt) \<Rightarrow>
    length p' = length p \<and> nxt = start + int (length (filter needs_rule p)) \<and>
    (\<forall>i < length p. p' ! i = (if needs_rule (p ! i)
       then (p ! i)\<lparr>st_stats := rule_for (start + int (rules_before p i))\<rparr> else p ! i)) \<and>
    \<not> list_ex needs_rule p'"
proof -
  obtain p' nxt where e: "EnsureFlowStats p start = (p', nxt)" by fastforce
  note spec = EnsureFlowStats_nth [OF e assms]
  have "\<not> needs_rule (p' ! i)" if "i < length p'" for i
    using spec that by (simp add: needs_rule_def rule_for_def)
  then have "\<not> list_ex needs_rule p'"
    by (auto simp: list_ex_length)
  with e spec show ?thesis by simp
qed

theorem EnsureFlowStats_consecutive_witness:
  "snd (EnsureFlowStats sample_profile 5) = 7 \<and>
   fst (EnsureFlowStats sample_profile 5) ! 1 = (sample_stream ''b'' [] None)\<lparr>st_stats := rule_for 6\<rparr>"
proof -
  obtain p' nxt where e: "EnsureFlowStats sample_profile 5 = (p', nxt)" by fastforce
  have "rules_before sample_profile 1 = 1" "needs_rule (sample_profile ! 1)"
    "length (filter needs_rule sample_profile) = 2"
    by (simp_all add: sample_profile_def needs_rule_def zero_flow_stats_def rules_before_def)
  with EnsureFlowStats_consecutive [of 5 sample_profile] e show ?thesis
    by (simp add: sample_profile_def)
qed

text \<open>the pg ids the user chose are not taken into account: a stream whose own pg id lies
  in the range that \<open>EnsureFlowStats\<close> gives out ends up sharing it with another stream.\<close>

theorem EnsureFlowStats_collision:
  assumes "- (2 ^ 63) \<le> start" "start + int (length (filter needs_rule p)) < 2 ^ 63"
    and "s \<in> set p" "fs_enabled (st_stats s)" "start \<le> fs_pgid (st_stats s)"
    and "fs_pgid (st_stats s) < start + int (length (filter needs_rule p))"
  shows "\<exists>i j. i \<noteq> j \<and> i < length p \<and> j < length p \<and>
    fs_pgid (st_stats (fst (EnsureFlowStats p start) ! i)) =
    fs_pgid (st_stats (fst (EnsureFlowStats p start) ! j))"
proof -
  obtain p' nxt where e: "EnsureFlowStats p start = (p', nxt)" by fastforce
  note spec = EnsureFlowStats_nth [OF e assms(1,2)]
  obtain i where i: "i < length p" "p ! i = s"
    using assms(3) by (auto simp: in_set_conv_nth)
  have reach: "\<exists>j < length p. needs_rule (p ! j) \<and> rules_before p j = k"
    if "k < length (filter needs_rule p)" for k
    using that
  proof (induction p arbitrary: k)
    case (Cons x p)
    then show ?case
      by (cases "needs_rule x"; cases k) (auto simp: Ex_less_Suc2)
  qed simp
  obtain j where j: "j < length p" "needs_rule (p ! j)"
    "rules_before p j = nat (fs_pgid (st_stats s) - start)"
  proof -
    have "nat (fs_pgid (st_stats s) - start) < length (filter needs_rule p)"
      using assms(5,6) by linarith
    from reach [OF this] show ?thesis using that by blast
  qed
  have "p' ! i = s" "fs_pgid (st_stats (p' ! j)) = fs_pgid (st_stats s)"
    using spec i j assms(4,5) by (simp_all add: needs_rule_def rule_for_def)
  moreover have "i \<noteq> j"
    using i j(2) assms(4) by (auto simp: needs_rule_def)
  ultimately show ?thesis
    using e i(1) j(1) by (intro exI [of _ i] exI [of _ j]) simp
qed

theorem EnsureFlowStats_collision_witness:
  "\<exists>i j. i \<noteq> j \<and> i < length [sample_stream [] [] None, (sample_stream [] [] None)\<lparr>st_stats := rule_for 1\<rparr>] \<and>
     j < length [sample_stream [] [] None, (sample_stream [] [] None)\<lparr>st_stats := rule_for 1\<rparr>] \<and>
     fs_pgid (st_stats (fst (EnsureFlowStats
       [sample_stream [] [] None, (sample_stream [] [] None)\<lparr>st_stats := rule_for 1\<rparr>] 1) ! i)) =
     fs_pgid (st_stats (fst (EnsureFlowStats
       [sample_stream [] [] None, (sample_stream [] [] None)\<lparr>st_stats := rule_for 1\<rparr>] 1) ! j))"
  by (rule EnsureFlowStats_collision [of 1 _ "(sample_stream [] [] None)\<lparr>st_stats := rule_for 1\<rparr>"])
    (simp_all add: needs_rule_def rule_for_def zero_flow_stats_def)

end
