(* ===== verification/Go_Binary.thy ===== *)
theory Go_Binary
  imports Prelude
begin

text \<open>
  The big-endian encodings of Go's package \<open>encoding/binary\<close>.
\<close>

text \<open>\<open>PutUint16\<close>, \<open>Uint16\<close>, \<open>PutUint32\<close> and \<open>Uint32\<close>.\<close>

definition put_u16 :: "u16 \<Rightarrow> u8 list" where
  "put_u16 w = [ucast (drop_bit 8 w), ucast w]"

definition get_u16 :: "u8 list \<Rightarrow> u16" where
  "get_u16 bs = push_bit 8 (ucast (bs ! 0)) OR ucast (bs ! 1)"

definition put_u32 :: "u32 \<Rightarrow> u8 list" where
  "put_u32 w = [ucast (drop_bit 24 w), ucast (drop_bit 16 w), ucast (drop_bit 8 w), ucast w]"

definition get_u32 :: "u8 list \<Rightarrow> u32" where
  "get_u32 bs = push_bit 24 (ucast (bs ! 0)) OR push_bit 16 (ucast (bs ! 1))
     OR push_bit 8 (ucast (bs ! 2)) OR ucast (bs ! 3)"

lemma length_put_u32 [simp]: "length (put_u32 w) = 4"
  by (simp add: put_u32_def)

lemma get_put_u32 [simp]: "get_u32 (put_u32 w) = w"
proof (rule bit_word_eqI)
  fix n assume n: "n < LENGTH(32)"
  consider "n < 8" | "8 \<le> n" "n < 16" | "16 \<le> n" "n < 24" | "24 \<le> n" by linarith
  then show "bit (get_u32 (put_u32 w)) n \<longleftrightarrow> bit w n"
  proof cases
    case 2
    then have "8 + (n - 8) = n" by simp
    with 2 n show ?thesis
      by (auto simp: get_u32_def put_u32_def bit_or_iff bit_push_bit_iff bit_ucast_iff bit_drop_bit_eq)
  next
    case 3
    then have "16 + (n - 16) = n" by simp
    with 3 n show ?thesis
      by (auto simp: get_u32_def put_u32_def bit_or_iff bit_push_bit_iff bit_ucast_iff bit_drop_bit_eq)
  next
    case 4
    then have "24 + (n - 24) = n" by simp
    with 4 n show ?thesis
      by (auto simp: get_u32_def put_u32_def bit_or_iff bit_push_bit_iff bit_ucast_iff bit_drop_bit_eq)
  qed (auto simp: get_u32_def put_u32_def bit_or_iff bit_push_bit_iff bit_ucast_iff bit_drop_bit_eq)
qed

lemma length_put_u16 [simp]: "length (put_u16 w) = 2"
  by (simp add: put_u16_def)

lemma get_put_u16 [simp]: "get_u16 (put_u16 w) = w"
proof (rule bit_word_eqI)
  fix n assume n: "n < LENGTH(16)"
  have "8 \<le> n \<Longrightarrow> 8 + (n - 8) = n" by simp
  then show "bit (get_u16 (put_u16 w)) n \<longleftrightarrow> bit w n"
    using n by (cases "n < 8")
      (auto simp: get_u16_def put_u16_def bit_or_iff bit_push_bit_iff bit_ucast_iff bit_drop_bit_eq)
qed

text \<open>The numbers they denote.\<close>

lemma high_part:
  fixes w :: "'a::len word" and b :: u8
  shows "push_bit 8 w OR ucast b = w * 256 + ucast b"
proof -
  have "push_bit 8 w AND ucast b = 0"
    by (rule bit_word_eqI) (auto simp: bit_simps dest: bit_imp_le_length)
  then have "push_bit 8 w + ucast b = push_bit 8 w OR ucast b"
    by (rule disjunctive_add_eq_or)
  then show ?thesis
    by (simp add: push_bit_eq_mult)
qed

lemma get_u16_add: "get_u16 [a, b] = ucast a * 256 + ucast b"
  by (simp add: get_u16_def high_part)

lemma get_u32_add: "get_u32 [a, b, c, d] = ((ucast a * 256 + ucast b) * 256 + ucast c) * 256 + ucast d"
proof -
  have "get_u32 [a, b, c, d] = push_bit 8 (push_bit 8 (push_bit 8 (ucast a) OR ucast b) OR ucast c) OR ucast d"
    by (rule bit_word_eqI) (auto simp: get_u32_def bit_simps dest: bit_imp_le_length)
  then show ?thesis
    by (simp only: high_part)
qed

lemma unat_ucast_byte: "8 \<le> LENGTH('a) \<Longrightarrow> unat (ucast (b :: u8) :: 'a::len word) = unat b"
proof -
  assume len: "8 \<le> LENGTH('a)"
  have "unat b < 2 ^ LENGTH('a)"
    using unat_byte_less [of b] power_increasing [OF len, of "2::nat"] by simp
  then show ?thesis
    by (simp add: unsigned_ucast_eq take_bit_nat_eq_self)
qed

lemma unat_get_u16: "unat (get_u16 [a, b]) = unat a * 256 + unat b"
  unfolding get_u16_add using unat_byte_less [of a] unat_byte_less [of b]
  by (simp add: unat_word_ariths unat_ucast_byte)

lemma unat_get_u32:
  "unat (get_u32 [a, b, c, d]) = ((unat a * 256 + unat b) * 256 + unat c) * 256 + unat d"
proof -
  have step: "unat (w * 256 + ucast x) = n * 256 + unat x" if "unat w = n" "n < 2 ^ 24" for n and w :: u32 and x :: u8
    using that unat_byte_less [of x] by (simp add: unat_word_ariths unat_ucast_byte)
  note lt = unat_byte_less [of a] unat_byte_less [of b] unat_byte_less [of c]
  have 0: "unat (ucast a :: u32) = unat a"
    by (simp add: unat_ucast_byte)
  have 1: "unat (ucast a * 256 + ucast b :: u32) = unat a * 256 + unat b"
    by (rule step [OF 0]) (use lt in simp)
  have 2: "unat ((ucast a * 256 + ucast b) * 256 + ucast c :: u32) = (unat a * 256 + unat b) * 256 + unat c"
    by (rule step [OF 1]) (use lt in simp)
  show ?thesis
    unfolding get_u32_add by (rule step [OF 2]) (use lt in simp)
qed

end
