(* ===== verification/Rpc_Framing.thy ===== *)
theory Rpc_Framing
  imports Go_Binary
begin

text \<open>
  The zlib frame around a JSON payload: \<open>pkg/rpc/framing.go\<close>. The deflate compressor and
  decompressor are a parameter: \<open>zl_deflate\<close> is \<open>zlib.NewWriter\<close>, \<open>Write\<close> and \<open>Close\<close> on one
  payload, \<open>zl_open\<close> is \<open>zlib.NewReader\<close> (the stream header) and \<open>zl_read\<close> is \<open>io.ReadAll\<close>
  on what it returns.
\<close>

section \<open>Frames\<close>

record zlib =
  zl_deflate :: "u8 list \<Rightarrow> string + u8 list"
  zl_open :: "u8 list \<Rightarrow> string + u8 list"
  zl_read :: "u8 list \<Rightarrow> string + u8 list"

datatype frame_error =
    ZlibCompress string
  | ZlibReader string
  | ZlibDecompress string
  | LengthMismatch u32 nat

definition Magic :: u32 where "Magic = 0xABE85CEA"

definition headerLen :: nat where "headerLen = 8"

definition Frame :: "zlib \<Rightarrow> u8 list \<Rightarrow> frame_error + u8 list" where
  "Frame zl payload =
     (let header = put_u32 Magic @ put_u32 (word_of_nat (length payload)) in
      case zl_deflate zl payload of
        Inl e \<Rightarrow> Inl (ZlibCompress e)
      | Inr body \<Rightarrow> Inr (header @ body))"

definition IsFramed :: "u8 list \<Rightarrow> bool" where
  "IsFramed data \<longleftrightarrow> headerLen \<le> length data \<and> get_u32 (take 4 data) = Magic"

definition Deframe :: "zlib \<Rightarrow> u8 list \<Rightarrow> frame_error + u8 list" where
  "Deframe zl data =
     (if \<not> IsFramed data then Inr data
      else let want = get_u32 (take 4 (drop 4 data)) in
        case zl_open zl (drop headerLen data) of
          Inl e \<Rightarrow> Inl (ZlibReader e)
        | Inr zr \<Rightarrow>
            (case zl_read zl zr of
               Inl e \<Rightarrow> Inl (ZlibDecompress e)
             | Inr out \<Rightarrow>
                 (if (word_of_nat (length out) :: u32) \<noteq> want
                  then Inl (LengthMismatch want (length out))
                  else Inr out)))"

section \<open>Lemmas\<close>

lemma take4_put_u32 [simp]: "take 4 (put_u32 w @ xs) = put_u32 w" "drop 4 (put_u32 w @ xs) = xs"
  by simp_all

lemma IsFramed_frame [simp]: "IsFramed (put_u32 Magic @ put_u32 n @ body)"
  by (simp add: IsFramed_def headerLen_def)

lemma Frame_Inr:
  "Frame zl payload = Inr f \<longleftrightarrow>
     (\<exists>body. zl_deflate zl payload = Inr body \<and>
        f = put_u32 Magic @ put_u32 (word_of_nat (length payload)) @ body)"
  by (auto simp: Frame_def split: sum.splits)

lemma Deframe_framed:
  "Deframe zl (put_u32 Magic @ put_u32 n @ body) = (case zl_open zl body of
      Inl e \<Rightarrow> Inl (ZlibReader e)
    | Inr zr \<Rightarrow> (case zl_read zl zr of
        Inl e \<Rightarrow> Inl (ZlibDecompress e)
      | Inr out \<Rightarrow> (if word_of_nat (length out) \<noteq> n then Inl (LengthMismatch n (length out)) else Inr out)))"
proof -
  have "drop headerLen (put_u32 Magic @ put_u32 n @ body) = body"
    by (simp add: headerLen_def)
  then show ?thesis
    by (simp add: Deframe_def cong: sum.case_cong)
qed

text \<open>What the code relies on: a compressed payload decompresses to itself.\<close>

definition zlib_round_trip :: "zlib \<Rightarrow> bool" where
  "zlib_round_trip zl \<longleftrightarrow> (\<forall>x. \<exists>z r. zl_deflate zl x = Inr z \<and> zl_open zl z = Inr r \<and> zl_read zl r = Inr x)"

lemma Deframe_Frame:
  "zlib_round_trip zl \<Longrightarrow> \<exists>f. Frame zl x = Inr f \<and> Deframe zl f = Inr x"
proof -
  assume "zlib_round_trip zl"
  then obtain z r where z: "zl_deflate zl x = Inr z" "zl_open zl z = Inr r" "zl_read zl r = Inr x"
    unfolding zlib_round_trip_def by blast
  then show ?thesis
    by (simp add: Frame_def Let_def Deframe_framed)
qed

section \<open>Properties\<close>

text \<open>Whatever the payload and its size, framing never fails and the peer that strips the
  frame gets the payload back; every reply that does not start with the magic is passed
  through, so \<open>Deframe\<close> can be applied to any reply.\<close>

theorem Frame_round_trip:
  assumes "zlib_round_trip zl"
  shows "\<exists>f. Frame zl payload = Inr f \<and> IsFramed f \<and> Deframe zl f = Inr payload"
proof -
  obtain f where "Frame zl payload = Inr f" "Deframe zl f = Inr payload"
    using Deframe_Frame [OF assms] by blast
  then show ?thesis
    by (auto simp: Frame_Inr)
qed

text \<open>A codec that stores the payload behind a one byte stream header.\<close>

definition stored_zlib :: zlib where
  "stored_zlib = \<lparr>zl_deflate = (\<lambda>x. Inr (0x78 # x)),
     zl_open = (\<lambda>z. case z of b # r \<Rightarrow> if b = 0x78 then Inr r else Inl ''header'' | [] \<Rightarrow> Inl ''EOF''),
     zl_read = Inr\<rparr>"

lemma stored_zlib_round_trip: "zlib_round_trip stored_zlib"
  by (simp add: zlib_round_trip_def stored_zlib_def)

theorem Frame_round_trip_witness:
  "\<exists>f. Frame stored_zlib [1, 2, 3] = Inr f \<and> IsFramed f \<and> Deframe stored_zlib f = Inr [1, 2, 3]"
  by (rule Frame_round_trip [OF stored_zlib_round_trip])

text \<open>a payload that \<open>Deframe\<close> returns is either the data itself, which is then not a
  frame, or the decompressed body of a frame whose header carries the length of the payload
  (modulo \<open>2 ^ 32\<close>): a truncated or corrupted body is never returned as a payload.\<close>

theorem Deframe_checked:
  assumes "Deframe zl data = Inr out"
  shows "(\<not> IsFramed data \<and> out = data) \<or>
    (IsFramed data \<and> (\<exists>r. zl_open zl (drop 8 data) = Inr r \<and> zl_read zl r = Inr out) \<and>
     length out mod 2 ^ 32 = unat (get_u32 (take 4 (drop 4 data))))"
proof (cases "IsFramed data")
  case False
  with assms show ?thesis by (simp add: Deframe_def)
next
  case True
  with assms obtain r where r: "zl_open zl (drop 8 data) = Inr r" "zl_read zl r = Inr out"
    and "(word_of_nat (length out) :: u32) = get_u32 (take 4 (drop 4 data))"
    by (auto simp: Deframe_def Let_def headerLen_def split: sum.splits if_splits)
  then have "unat (word_of_nat (length out) :: u32) = unat (get_u32 (take 4 (drop 4 data)))"
    by simp
  then have "length out mod 2 ^ 32 = unat (get_u32 (take 4 (drop 4 data)))"
    by (simp add: unat_of_nat)
  with True r show ?thesis by blast
qed

theorem Deframe_checked_witness:
  "length [5::u8, 6] mod 2 ^ 32 = unat (get_u32 (take 4 (drop 4 (put_u32 Magic @ put_u32 2 @ [0x78, 5, 6]))))"
proof -
  have "Deframe stored_zlib (put_u32 Magic @ put_u32 2 @ [0x78, 5, 6]) = Inr [5, 6]"
    unfolding Deframe_framed by (simp add: stored_zlib_def)
  from Deframe_checked [OF this] show ?thesis
    by simp
qed

end
