(* ===== verification/Rpc_Connection.thy ===== *)
theory Rpc_Connection
  imports Rpc_Framing Json Go_Strings "HOL-Library.AList" "HOL-Library.List_Lexorder" "HOL-Library.Char_ord"
    "HOL-Library.Countable"
begin

text \<open>
  Requests, responses and the synchronous connection: \<open>pkg/rpc/jsonrpc.go\<close> and
  \<open>pkg/rpc/connection.go\<close>. What is outside the program is a parameter: the compressor, the
  JSON text codec (a pair of functions between values and bytes) and the ZeroMQ socket, whose
  \<open>Send\<close> and \<open>Recv\<close> act on the state \<open>'w\<close> of the outside world. A call holds the mutex of
  the connection from its first to its last step, so calls are single steps of the model;
  \<open>Rpc_Interleaving\<close> justifies that.
\<close>

section \<open>Requests and responses\<close>

record request =
  rq_jsonrpc :: string
  rq_id :: string
  rq_method :: string
  rq_params :: "json option"

record rpc_error =
  re_code :: int
  re_message :: string
  re_specific :: string
  re_data :: "json option"

record response =
  rp_jsonrpc :: string
  rp_id :: "json option"
  rp_result :: "json option"
  rp_error :: "rpc_error option"

text \<open>
  \<open>params\<close> is a \<open>map[string]any\<close>, \<open>None\<close> the nil map, with its keys listed once; a value
  that \<open>json.Marshal\<close> refuses is \<open>None\<close>. A value passed as \<open>any\<close> is \<open>None\<close> for the nil
  interface and otherwise what marshalling it gives; a nil map in an interface is not nil.
\<close>

type_synonym params = "(string \<times> json option) list option"

datatype call_error =
    CFrame frame_error
  | CSend string
  | CRecv string
  | CEmptyMessage
  | CMarshalParams string
  | CParseResponse
  | CParseBatch
  | CServer rpc_error
  | CHandshake call_error
  | CParseHandle
  | CNoHandle "json option"

fun marshal_entries :: "(string \<times> json option) list \<Rightarrow> (string \<times> json) list option" where
  "marshal_entries [] = Some []"
| "marshal_entries ((k, v) # kvs) = (case (v, marshal_entries kvs) of
      (Some j, Some js) \<Rightarrow> Some ((k, j) # js)
    | _ \<Rightarrow> None)"

text \<open>\<open>json.Marshal\<close> of a map: \<open>null\<close> for nil, an object with sorted keys otherwise.\<close>

definition map_json :: "params \<Rightarrow> json option" where
  "map_json p = (case p of
      None \<Rightarrow> Some JNull
    | Some kvs \<Rightarrow> map_option (\<lambda>es. JObj (sort_key fst es)) (marshal_entries kvs))"

definition request_json :: "request \<Rightarrow> json" where
  "request_json r = JObj (
     [(''jsonrpc'', JStr (rq_jsonrpc r)), (''id'', JStr (rq_id r)), (''method'', JStr (rq_method r))]
     @ opt_field ''params'' (\<lambda>j. j) (rq_params r))"

text \<open>
  The process-wide counter of request ids, and the connection: the outside world behind the
  socket, the counter and the API handle, empty before the handshake.
\<close>

record 'w conn =
  cn_world :: 'w
  cn_idCounter :: u64
  cn_apiH :: string

text \<open>The outside: the compressor, the JSON text codec and the socket.\<close>

record 'w env =
  en_zlib :: zlib
  en_write :: "json \<Rightarrow> u8 list"
  en_read :: "u8 list \<Rightarrow> json option"
  en_send :: "u8 list \<Rightarrow> 'w \<Rightarrow> string option \<times> 'w"
  en_recv :: "'w \<Rightarrow> (string + u8 list list) \<times> 'w"

definition nextID :: "'w conn \<Rightarrow> string \<times> 'w conn" where
  "nextID c = (let n = cn_idCounter c + 1 in (nat_digits (unat n), c\<lparr>cn_idCounter := n\<rparr>))"

definition BuildRequest ::
  "'w env \<Rightarrow> string \<Rightarrow> json option option \<Rightarrow> 'w conn \<Rightarrow> (call_error + request \<times> u8 list) \<times> 'w conn" where
  "BuildRequest en method params c = (let (rid, c') = nextID c;
      req = \<lparr>rq_jsonrpc = ''2.0'', rq_id = rid, rq_method = method, rq_params = None\<rparr> in
      case params of
        None \<Rightarrow> (Inr (req, en_write en (request_json req)), c')
      | Some None \<Rightarrow> (Inl (CMarshalParams method), c')
      | Some (Some raw) \<Rightarrow>
          (let req' = req\<lparr>rq_params := Some raw\<rparr> in
           (Inr (req', en_write en (request_json req')), c')))"

definition BuildBatch :: "'w env \<Rightarrow> request list \<Rightarrow> u8 list" where
  "BuildBatch en reqs = en_write en (JArr (map request_json reqs))"

definition dec_rpc_error :: "json \<Rightarrow> rpc_error option" where
  "dec_rpc_error j = (case as_obj j of None \<Rightarrow> None | Some kvs \<Rightarrow>
     (case (dec_int (jget ''code'' kvs), dec_str (jget ''message'' kvs), dec_str (jget ''specific_err'' kvs)) of
        (Some code, Some msg, Some spec) \<Rightarrow>
          Some \<lparr>re_code = code, re_message = msg, re_specific = spec, re_data = jget ''data'' kvs\<rparr>
      | _ \<Rightarrow> None))"

definition dec_response :: "json \<Rightarrow> response option" where
  "dec_response j = (case as_obj j of None \<Rightarrow> None | Some kvs \<Rightarrow>
     (case (dec_str (jget ''jsonrpc'' kvs),
            (case jget ''error'' kvs of None \<Rightarrow> Some None | Some JNull \<Rightarrow> Some None
               | Some e \<Rightarrow> map_option Some (dec_rpc_error e))) of
        (Some ver, Some err) \<Rightarrow>
          Some \<lparr>rp_jsonrpc = ver, rp_id = jget ''id'' kvs, rp_result = jget ''result'' kvs, rp_error = err\<rparr>
      | _ \<Rightarrow> None))"

definition ParseResponse :: "'w env \<Rightarrow> u8 list \<Rightarrow> call_error + response" where
  "ParseResponse en data = (case Option.bind (en_read en data) dec_response of
      None \<Rightarrow> Inl CParseResponse
    | Some r \<Rightarrow> Inr r)"

text \<open>The text of a raw value is what the value marshals to.\<close>

definition raw_text :: "'w env \<Rightarrow> json option \<Rightarrow> string" where
  "raw_text en raw = (case raw of None \<Rightarrow> [] | Some j \<Rightarrow> map (\<lambda>b. char_of (unat b)) (en_write en j))"

text \<open>The message of a server error: the specific error, or else the data, as its detail.\<close>

definition RPCError_Error :: "'w env \<Rightarrow> rpc_error \<Rightarrow> string" where
  "RPCError_Error en e = (let detail = (if re_specific e = [] then raw_text en (re_data e) else re_specific e) in
     if detail \<noteq> [] then ''rpc error '' @ itoa (re_code e) @ '': '' @ re_message e @ '': '' @ detail
     else ''rpc error '' @ itoa (re_code e) @ '': '' @ re_message e)"

text \<open>\<open>bytes.TrimSpace\<close>; the bytes of ASCII white space.\<close>

definition space_byte :: "u8 \<Rightarrow> bool" where
  "space_byte b \<longleftrightarrow> b \<in> {9, 10, 11, 12, 13, 32}"

definition trim_bytes :: "u8 list \<Rightarrow> u8 list" where
  "trim_bytes s = rev (dropWhile space_byte (rev (dropWhile space_byte s)))"

definition ParseBatchResponse :: "'w env \<Rightarrow> u8 list \<Rightarrow> call_error + response list" where
  "ParseBatchResponse en data = (let trimmed = trim_bytes data in
     if trimmed \<noteq> [] \<and> hd trimmed = 0x7B then
       (case Option.bind (en_read en trimmed) dec_response of
          None \<Rightarrow> Inl CParseBatch
        | Some r \<Rightarrow> Inr [r])
     else
       (case Option.bind (en_read en data) (\<lambda>j. dec_list dec_response (Some j)) of
          None \<Rightarrow> Inl CParseBatch
        | Some rs \<Rightarrow> Inr rs))"

section \<open>The connection\<close>

definition roundTrip :: "'w env \<Rightarrow> u8 list \<Rightarrow> 'w conn \<Rightarrow> (call_error + u8 list) \<times> 'w conn" where
  "roundTrip en payload c = (case Frame (en_zlib en) payload of
      Inl e \<Rightarrow> (Inl (CFrame e), c)
    | Inr framed \<Rightarrow>
        (case en_send en framed (cn_world c) of
          (Some e, w) \<Rightarrow> (Inl (CSend e), c\<lparr>cn_world := w\<rparr>)
        | (None, w) \<Rightarrow>
            (case en_recv en w of
              (Inl e, w') \<Rightarrow> (Inl (CRecv e), c\<lparr>cn_world := w'\<rparr>)
            | (Inr [], w') \<Rightarrow> (Inl CEmptyMessage, c\<lparr>cn_world := w'\<rparr>)
            | (Inr (f # fs), w') \<Rightarrow> (map_err CFrame (Deframe (en_zlib en) f), c\<lparr>cn_world := w'\<rparr>))))"

definition withAPIHandle :: "'w conn \<Rightarrow> params \<Rightarrow> params" where
  "withAPIHandle c params = (if cn_apiH c = [] then params
     else (let out = (case params of None \<Rightarrow> [] | Some kvs \<Rightarrow> kvs) in
       Some (AList.update ''api_h'' (Some (JStr (cn_apiH c))) out)))"

definition callLocked ::
  "'w env \<Rightarrow> string \<Rightarrow> params \<Rightarrow> 'w conn \<Rightarrow> (call_error + json option) \<times> 'w conn" where
  "callLocked en method params c = (let p = withAPIHandle c params in
     case BuildRequest en method (Some (map_json p)) c of
       (Inl e, c1) \<Rightarrow> (Inl e, c1)
     | (Inr (req, buf), c1) \<Rightarrow>
         (case roundTrip en buf c1 of
            (Inl e, c2) \<Rightarrow> (Inl e, c2)
          | (Inr reply, c2) \<Rightarrow>
              (case ParseResponse en reply of
                 Inl e \<Rightarrow> (Inl e, c2)
               | Inr resp \<Rightarrow>
                   (case rp_error resp of
                      Some e \<Rightarrow> (Inl (CServer e), c2)
                    | None \<Rightarrow> (Inr (rp_result resp), c2)))))"

definition Call ::
  "'w env \<Rightarrow> string \<Rightarrow> params \<Rightarrow> 'w conn \<Rightarrow> (call_error + json option) \<times> 'w conn" where
  "Call en method params c = callLocked en method params c"

definition APIHandle :: "'w conn \<Rightarrow> string" where
  "APIHandle c = cn_apiH c"

record batch_call =
  bc_method :: string
  bc_params :: params

text \<open>The loop of \<open>CallBatch\<close> that builds the requests.\<close>

fun build_all :: "'w env \<Rightarrow> batch_call list \<Rightarrow> 'w conn \<Rightarrow> (call_error + request list) \<times> 'w conn" where
  "build_all en [] c = (Inr [], c)"
| "build_all en (bc # bcs) c =
     (case BuildRequest en (bc_method bc) (Some (map_json (withAPIHandle c (bc_params bc)))) c of
        (Inl e, c1) \<Rightarrow> (Inl e, c1)
      | (Inr (req, buf), c1) \<Rightarrow>
          (case build_all en bcs c1 of
             (Inl e, c2) \<Rightarrow> (Inl e, c2)
           | (Inr reqs, c2) \<Rightarrow> (Inr (req # reqs), c2)))"

definition CallBatch ::
  "'w env \<Rightarrow> batch_call list \<Rightarrow> 'w conn \<Rightarrow> (call_error + response list) \<times> 'w conn" where
  "CallBatch en reqs c = (case build_all en reqs c of
      (Inl e, c1) \<Rightarrow> (Inl e, c1)
    | (Inr built, c1) \<Rightarrow>
        (case roundTrip en (BuildBatch en built) c1 of
           (Inl e, c2) \<Rightarrow> (Inl e, c2)
         | (Inr reply, c2) \<Rightarrow> (ParseBatchResponse en reply, c2)))"

definition Handshake ::
  "'w env \<Rightarrow> string \<Rightarrow> int \<Rightarrow> int \<Rightarrow> 'w conn \<Rightarrow> (call_error + unit) \<times> 'w conn" where
  "Handshake en name major minor c =
     (case callLocked en ''api_sync_v2''
             (Some [(''name'', Some (JStr name)), (''major'', Some (JInt major)),
                    (''minor'', Some (JInt minor))]) c of
        (Inl e, c1) \<Rightarrow> (Inl (CHandshake e), c1)
      | (Inr result, c1) \<Rightarrow>
          (case Option.bind result (\<lambda>j. Option.bind (as_obj j) (\<lambda>kvs. dec_str (jget ''api_h'' kvs))) of
             None \<Rightarrow> (Inl CParseHandle, c1)
           | Some h \<Rightarrow>
               (if h = [] then (Inl (CNoHandle result), c1)
                else (Inr (), c1\<lparr>cn_apiH := h\<rparr>))))"

section \<open>The contract of a call\<close>

text \<open>
  The peer the connection is written against, for any server: a REQ/REP channel in lock step
  to a server that answers each request object by a response object. \<open>lk_reply\<close> is the reply
  that waits to be received and \<open>lk_log\<close> the requests the server has seen. The server frames
  the replies whose text is in \<open>big\<close>, as it does above its size threshold.
\<close>

record 's link =
  lk_server :: 's
  lk_reply :: "u8 list option"
  lk_log :: "json list"

definition link_send ::
  "zlib \<Rightarrow> (json \<Rightarrow> u8 list) \<Rightarrow> (u8 list \<Rightarrow> json option) \<Rightarrow> (json \<Rightarrow> 's \<Rightarrow> json \<times> 's) \<Rightarrow>
   (u8 list \<Rightarrow> bool) \<Rightarrow> u8 list \<Rightarrow> 's link \<Rightarrow> string option \<times> 's link" where
  "link_send zl wr rd srv big data k = (case lk_reply k of
      Some _ \<Rightarrow> (Some ''send out of turn'', k)
    | None \<Rightarrow>
        (case Deframe zl data of
           Inl _ \<Rightarrow> (Some ''bad frame'', k)
         | Inr payload \<Rightarrow>
             (case rd payload of
                None \<Rightarrow> (Some ''bad request'', k)
              | Some j \<Rightarrow>
                  (let (resp, s') = srv j (lk_server k);
                       out = wr resp;
                       reply = (if big out then (case Frame zl out of Inr f \<Rightarrow> f | Inl _ \<Rightarrow> out) else out) in
                   (None, \<lparr>lk_server = s', lk_reply = Some reply, lk_log = lk_log k @ [j]\<rparr>)))))"

definition link_recv :: "'s link \<Rightarrow> (string + u8 list list) \<times> 's link" where
  "link_recv k = (case lk_reply k of
      None \<Rightarrow> (Inl ''receive out of turn'', k)
    | Some r \<Rightarrow> (Inr [r], k\<lparr>lk_reply := None\<rparr>))"

definition link_env ::
  "zlib \<Rightarrow> (json \<Rightarrow> u8 list) \<Rightarrow> (u8 list \<Rightarrow> json option) \<Rightarrow> (json \<Rightarrow> 's \<Rightarrow> json \<times> 's) \<Rightarrow>
   (u8 list \<Rightarrow> bool) \<Rightarrow> 's link env" where
  "link_env zl wr rd srv big = \<lparr>en_zlib = zl, en_write = wr, en_read = rd,
     en_send = link_send zl wr rd srv big, en_recv = link_recv\<rparr>"

text \<open>A JSON text reads back as the value it was written from and is not mistaken for a frame.\<close>

definition json_codec :: "(json \<Rightarrow> u8 list) \<Rightarrow> (u8 list \<Rightarrow> json option) \<Rightarrow> bool" where
  "json_codec wr rd \<longleftrightarrow> (\<forall>j. rd (wr j) = Some j \<and> \<not> IsFramed (wr j))"

text \<open>One exchange: the request that the server sees and the reply it gives.\<close>

lemma exchange:
  assumes "zlib_round_trip zl" "json_codec wr rd" "lk_reply (cn_world c) = None"
  shows "roundTrip (link_env zl wr rd srv big) (wr j) c =
    (let (resp, s') = srv j (lk_server (cn_world c)) in
     (Inr (wr resp), c\<lparr>cn_world := \<lparr>lk_server = s', lk_reply = None, lk_log = lk_log (cn_world c) @ [j]\<rparr>\<rparr>))"
proof -
  obtain f where f: "Frame zl (wr j) = Inr f" "Deframe zl f = Inr (wr j)"
    using Deframe_Frame [OF assms(1)] by blast
  obtain resp s' where s: "srv j (lk_server (cn_world c)) = (resp, s')" by fastforce
  obtain g where g: "Frame zl (wr resp) = Inr g" "Deframe zl g = Inr (wr resp)"
    using Deframe_Frame [OF assms(1)] by blast
  have plain: "Deframe zl (wr resp) = Inr (wr resp)" "rd (wr j) = Some j"
    using assms(2) by (simp_all add: json_codec_def Deframe_def)
  show ?thesis
    using assms(3) f g s plain
    by (simp add: roundTrip_def link_env_def link_send_def link_recv_def Let_def)
qed

text \<open>What the caller makes of a response object.\<close>

definition read_reply :: "json \<Rightarrow> call_error + json option" where
  "read_reply j = (case dec_response j of
      None \<Rightarrow> Inl CParseResponse
    | Some r \<Rightarrow> (case rp_error r of Some e \<Rightarrow> Inl (CServer e) | None \<Rightarrow> Inr (rp_result r)))"

text \<open>What a caller makes of the replies to successive requests.\<close>

fun replies :: "(json \<Rightarrow> 's \<Rightarrow> json \<times> 's) \<Rightarrow> json list \<Rightarrow> 's \<Rightarrow> (call_error + json option) list" where
  "replies srv [] s = []"
| "replies srv (r # rs) s = read_reply (fst (srv r s)) # replies srv rs (snd (srv r s))"

lemma length_replies [simp]: "length (replies srv rs s) = length rs"
  by (induction rs arbitrary: s) simp_all

text \<open>The abstract call: one fresh id, one request, one transition of the server.\<close>

definition abstract_call ::
  "(json \<Rightarrow> 's \<Rightarrow> json \<times> 's) \<Rightarrow> string \<Rightarrow> params \<Rightarrow> 's link conn \<Rightarrow>
   (call_error + json option) \<times> 's link conn" where
  "abstract_call srv method params c = (let c1 = c\<lparr>cn_idCounter := cn_idCounter c + 1\<rparr> in
     case map_json (withAPIHandle c params) of
       None \<Rightarrow> (Inl (CMarshalParams method), c1)
     | Some pj \<Rightarrow>
         (let req = request_json \<lparr>rq_jsonrpc = ''2.0'', rq_id = nat_digits (unat (cn_idCounter c + 1)),
                      rq_method = method, rq_params = Some pj\<rparr>;
              (resp, s') = srv req (lk_server (cn_world c)) in
          (read_reply resp, c1\<lparr>cn_world :=
             \<lparr>lk_server = s', lk_reply = None, lk_log = lk_log (cn_world c) @ [req]\<rparr>\<rparr>)))"

lemma callLocked_abstract:
  assumes "zlib_round_trip zl" "json_codec wr rd" "lk_reply (cn_world c) = None"
  shows "callLocked (link_env zl wr rd srv big) method params c = abstract_call srv method params c"
proof (cases "map_json (withAPIHandle c params)")
  case None
  then show ?thesis
    by (simp add: callLocked_def abstract_call_def BuildRequest_def nextID_def Let_def)
next
  case (Some pj)
  let ?c1 = "c\<lparr>cn_idCounter := cn_idCounter c + 1\<rparr>"
  let ?req = "request_json \<lparr>rq_jsonrpc = ''2.0'', rq_id = nat_digits (unat (cn_idCounter c + 1)),
                      rq_method = method, rq_params = Some pj\<rparr>"
  obtain resp s' where s: "srv ?req (lk_server (cn_world c)) = (resp, s')" by fastforce
  have "lk_reply (cn_world ?c1) = None"
    using assms(3) by simp
  note ex = exchange [OF assms(1,2) this, of srv big ?req]
  have sel: "en_write (link_env zl wr rd srv big) = wr" "en_read (link_env zl wr rd srv big) = rd"
    by (simp_all add: link_env_def)
  have "rd (wr resp) = Some resp"
    using assms(2) by (simp add: json_codec_def)
  then show ?thesis
    using Some s ex
    by (auto simp: callLocked_def abstract_call_def BuildRequest_def nextID_def Let_def sel
        ParseResponse_def read_reply_def split: option.splits)
qed

section \<open>What a request carries\<close>

text \<open>Members of a request object, and of its parameters.\<close>

definition member :: "string \<Rightarrow> json \<Rightarrow> json option" where
  "member k j = (case j of JObj kvs \<Rightarrow> map_of kvs k | _ \<Rightarrow> None)"

definition req_method :: "json \<Rightarrow> string" where
  "req_method j = (case member ''method'' j of Some (JStr m) \<Rightarrow> m | _ \<Rightarrow> [])"

definition req_id :: "json \<Rightarrow> string" where
  "req_id j = (case member ''id'' j of Some (JStr i) \<Rightarrow> i | _ \<Rightarrow> [])"

definition req_param :: "string \<Rightarrow> json \<Rightarrow> json option" where
  "req_param k j = Option.bind (member ''params'' j) (member k)"

lemma request_json_members [simp]:
  "req_method (request_json r) = rq_method r" "req_id (request_json r) = rq_id r"
  "req_param k (request_json r) = Option.bind (rq_params r) (member k)"
  by (simp_all add: req_method_def req_id_def req_param_def member_def request_json_def opt_field_def
      split: option.splits)

definition entries :: "params \<Rightarrow> (string \<times> json option) list" where
  "entries p = (case p of None \<Rightarrow> [] | Some kvs \<Rightarrow> kvs)"

definition params_ok :: "params \<Rightarrow> bool" where
  "params_ok p \<longleftrightarrow> distinct (map fst (entries p)) \<and> (\<forall>(k, v) \<in> set (entries p). v \<noteq> None)"

lemma marshal_entries_eq_Some:
  "marshal_entries kvs = Some js \<longleftrightarrow> kvs = map (\<lambda>(k, v). (k, Some v)) js"
proof (induction kvs arbitrary: js)
  case (Cons a kvs)
  obtain k v where a: "a = (k, v)" by fastforce
  show ?case
  proof (cases js)
    case Nil
    then show ?thesis by (simp add: a split: option.splits)
  next
    case (Cons b js')
    with Cons.IH [of js'] show ?thesis
      by (cases b; cases v; cases "marshal_entries kvs") (auto simp: a)
  qed
qed auto

lemma map_of_sort_key: "distinct (map fst es) \<Longrightarrow> map_of (sort_key fst es) = map_of es"
  by (rule map_of_inject_set [THEN iffD2]) (simp_all add: distinct_map inj_on_def)

lemma map_json_entries:
  assumes "distinct (map fst (entries p))" "map_json p = Some j"
  shows "Option.bind (Some j) (member k) = Option.bind (map_of (entries p) k) (\<lambda>v. v)"
proof (cases p)
  case None
  with assms show ?thesis by (simp add: map_json_def entries_def member_def)
next
  case (Some kvs)
  with assms(2) obtain es where es: "kvs = map (\<lambda>(k, v). (k, Some v)) es" "j = JObj (sort_key fst es)"
    by (auto simp: map_json_def marshal_entries_eq_Some)
  have "map fst kvs = map fst es"
    by (simp add: es(1) case_prod_beta comp_def)
  then have "distinct (map fst es)"
    using assms(1) Some by (simp add: entries_def)
  then show ?thesis
    by (cases "map_of es k") (simp_all add: es Some entries_def member_def map_of_sort_key map_of_map)
qed

lemma map_json_Some:
  "map_json p \<noteq> None \<longleftrightarrow> (\<forall>(k, v) \<in> set (entries p). v \<noteq> None)"
proof (cases p)
  case (Some kvs)
  have "marshal_entries kvs \<noteq> None \<longleftrightarrow> (\<forall>(k, v) \<in> set kvs. v \<noteq> None)"
    by (induction kvs rule: marshal_entries.induct) (auto split: option.splits)
  with Some show ?thesis by (simp add: map_json_def entries_def)
qed (simp add: map_json_def entries_def)

text \<open>The API handle is added, replacing a value of that key; nothing else changes.\<close>

lemma withAPIHandle_entries:
  "map_of (entries (withAPIHandle c p)) =
     (if cn_apiH c = [] then map_of (entries p)
      else (map_of (entries p))(''api_h'' \<mapsto> Some (JStr (cn_apiH c))))"
  by (simp add: withAPIHandle_def entries_def update_conv' split: option.splits)

lemma withAPIHandle_ok: "params_ok p \<Longrightarrow> params_ok (withAPIHandle c p)"
proof -
  assume ok: "params_ok p"
  let ?u = "AList.update ''api_h'' (Some (JStr (cn_apiH c))) (entries p)"
  have "distinct (map fst ?u)"
    using ok by (simp add: params_ok_def distinct_update)
  moreover have "set (AList.update k v al) \<subseteq> insert (k, v) (set al)"
    for k :: string and v :: "json option" and al
    by (induction al) auto
  then have "set ?u \<subseteq> insert (''api_h'', Some (JStr (cn_apiH c))) (set (entries p))"
    by blast
  ultimately show ?thesis
    using ok by (auto simp: params_ok_def withAPIHandle_def entries_def split: option.splits)
qed

text \<open>
  The request \<open>r\<close> that a call of \<open>method\<close> with \<open>params\<close> sends: a fresh id, the caller's
  parameters, and the API handle once the handshake has been made.
\<close>

definition sends :: "string \<Rightarrow> u64 \<Rightarrow> string \<Rightarrow> params \<Rightarrow> json \<Rightarrow> bool" where
  "sends handle counter method params r \<longleftrightarrow>
     req_method r = method \<and> req_id r = nat_digits (unat (counter + 1)) \<and>
     (\<forall>k. req_param k r =
        (if handle \<noteq> [] \<and> k = ''api_h'' then Some (JStr handle)
         else Option.bind (map_of (entries params) k) (\<lambda>v. v)))"

lemma sends_request:
  assumes "params_ok p" "map_json (withAPIHandle c p) = Some pj"
  shows "sends (cn_apiH c) (cn_idCounter c) m p
    (request_json \<lparr>rq_jsonrpc = v, rq_id = nat_digits (unat (cn_idCounter c + 1)), rq_method = m,
       rq_params = Some pj\<rparr>)"
proof -
  have "distinct (map fst (entries (withAPIHandle c p)))"
    using withAPIHandle_ok [OF assms(1), of c] by (simp add: params_ok_def)
  from map_json_entries [OF this assms(2)]
  have m: "member k pj = Option.bind (map_of (entries (withAPIHandle c p)) k) (\<lambda>v. v)" for k
    by simp
  show ?thesis
    by (auto simp: sends_def m withAPIHandle_entries)
qed

lemma withAPIHandle_marshals: "params_ok p \<Longrightarrow> \<exists>pj. map_json (withAPIHandle c p) = Some pj"
proof -
  assume "params_ok p"
  then have "params_ok (withAPIHandle c p)" by (rule withAPIHandle_ok)
  then show ?thesis
    using map_json_Some [of "withAPIHandle c p"] by (simp add: params_ok_def)
qed

lemma abstract_call_sends:
  assumes "params_ok p"
  shows "\<exists>r. sends (cn_apiH c) (cn_idCounter c) m p r \<and>
    abstract_call srv m p c =
      (read_reply (fst (srv r (lk_server (cn_world c)))),
       c\<lparr>cn_idCounter := cn_idCounter c + 1, cn_world :=
         \<lparr>lk_server = snd (srv r (lk_server (cn_world c))), lk_reply = None,
          lk_log = lk_log (cn_world c) @ [r]\<rparr>\<rparr>)"
proof -
  obtain pj where pj: "map_json (withAPIHandle c p) = Some pj"
    using withAPIHandle_marshals [OF assms] by blast
  from sends_request [OF assms pj, of m "''2.0''"] pj show ?thesis
    by (intro exI conjI) (assumption, simp add: abstract_call_def Let_def case_prod_beta)
qed

section \<open>Callers\<close>

text \<open>
  What the layers above rely on: every call whose parameters can be marshalled sends exactly
  one request, with a fresh id and the API handle, and leaves the channel ready for the next.
\<close>

fun call_seq :: "(string \<Rightarrow> params \<Rightarrow> 's \<Rightarrow> 'r \<times> 's) \<Rightarrow> (string \<times> params) list \<Rightarrow> 's \<Rightarrow> 's" where
  "call_seq f [] s = s"
| "call_seq f ((m, p) # cs) s = call_seq f cs (snd (f m p s))"

locale rpc_caller =
  fixes call :: "string \<Rightarrow> params \<Rightarrow> 's \<Rightarrow> (call_error + json option) \<times> 's"
    and ready :: "'s \<Rightarrow> bool"
    and log :: "'s \<Rightarrow> json list"
    and handle :: "'s \<Rightarrow> string"
    and counter :: "'s \<Rightarrow> u64"
  assumes call_ready: "ready s \<Longrightarrow> ready (snd (call m p s))"
    and call_handle: "handle (snd (call m p s)) = handle s"
    and call_counter: "counter (snd (call m p s)) = counter s + 1"
    and call_log: "ready s \<Longrightarrow> params_ok p \<Longrightarrow>
      \<exists>r. sends (handle s) (counter s) m p r \<and> log (snd (call m p s)) = log s @ [r]"
begin

lemma seq_ready: "ready s \<Longrightarrow> ready (call_seq call cs s)"
  by (induction cs arbitrary: s) (auto simp: call_ready)

lemma seq_handle [simp]: "handle (call_seq call cs s) = handle s"
  by (induction cs arbitrary: s) (auto simp: call_handle)

lemma seq_counter: "counter (call_seq call cs s) = counter s + of_nat (length cs)"
  by (induction cs arbitrary: s) (auto simp: call_counter ac_simps)

lemma seq_log:
  assumes "ready s" "list_all (\<lambda>(m, p). params_ok p) cs"
  shows "\<exists>rs. log (call_seq call cs s) = log s @ rs \<and> length rs = length cs \<and>
    (\<forall>i < length cs. sends (handle s) (counter s + of_nat i) (fst (cs ! i)) (snd (cs ! i)) (rs ! i))"
  using assms
proof (induction cs arbitrary: s)
  case (Cons a cs)
  obtain m p where a: "a = (m, p)" by fastforce
  let ?s = "snd (call m p s)"
  obtain r where r: "sends (handle s) (counter s) m p r" "log ?s = log s @ [r]"
    using call_log Cons.prems a by fastforce
  obtain rs where rs: "log (call_seq call cs ?s) = log ?s @ rs" "length rs = length cs"
    "\<And>i. i < length cs \<Longrightarrow>
       sends (handle ?s) (counter ?s + of_nat i) (fst (cs ! i)) (snd (cs ! i)) (rs ! i)"
    using Cons.IH [of ?s] Cons.prems a by (auto simp: call_ready)
  show ?case
  proof (intro exI [of _ "r # rs"] conjI allI impI)
    fix i assume "i < length (a # cs)"
    then show "sends (handle s) (counter s + of_nat i) (fst ((a # cs) ! i)) (snd ((a # cs) ! i)) ((r # rs) ! i)"
      using r(1) rs(3) [of "i - 1"] a
      by (cases i) (simp_all add: call_handle call_counter ac_simps)
  qed (use r(2) rs a in simp_all)
qed simp

lemma seq_ids_distinct:
  assumes "ready s" "list_all (\<lambda>(m, p). params_ok p) cs" "length cs \<le> 2 ^ 64"
  shows "\<exists>rs. log (call_seq call cs s) = log s @ rs \<and> map req_method rs = map fst cs \<and>
    distinct (map req_id rs)"
proof -
  obtain rs where rs: "log (call_seq call cs s) = log s @ rs" "length rs = length cs"
    "\<And>i. i < length cs \<Longrightarrow>
       sends (handle s) (counter s + of_nat i) (fst (cs ! i)) (snd (cs ! i)) (rs ! i)"
    using seq_log [OF assms(1,2)] by blast
  have "map req_method rs = map fst cs"
    using rs(2,3) by (intro nth_equalityI) (simp_all add: sends_def)
  moreover have "req_id (rs ! i) \<noteq> req_id (rs ! j)" if "i < length rs" "j < i" for i j
  proof -
    have "(of_nat i :: u64) \<noteq> of_nat j"
    proof
      assume "(of_nat i :: u64) = of_nat j"
      then have "unat (of_nat i :: u64) = unat (of_nat j :: u64)" by simp
      then show False
        using that rs(2) assms(3) by (simp add: unat_of_nat)
    qed
    then show ?thesis
      using that rs(2,3) by (simp add: sends_def flip: word_unat_eq_iff)
  qed
  ultimately show ?thesis
    using rs(1) by (auto simp: distinct_map_upt_nth)
qed

end

interpretation peer: rpc_caller "abstract_call srv" "\<lambda>c. lk_reply (cn_world c) = None"
  "\<lambda>c. lk_log (cn_world c)" cn_apiH cn_idCounter
  for srv :: "json \<Rightarrow> 's \<Rightarrow> json \<times> 's"
proof unfold_locales
  fix c :: "'s link conn" and m p
  show "lk_reply (cn_world (snd (abstract_call srv m p c))) = None" if "lk_reply (cn_world c) = None"
    using that by (simp add: abstract_call_def Let_def split: option.splits prod.splits)
  show "cn_apiH (snd (abstract_call srv m p c)) = cn_apiH c"
    by (simp add: abstract_call_def Let_def split: option.splits prod.splits)
  show "cn_idCounter (snd (abstract_call srv m p c)) = cn_idCounter c + 1"
    by (simp add: abstract_call_def Let_def split: option.splits prod.splits)
  show "\<exists>r. sends (cn_apiH c) (cn_idCounter c) m p r \<and>
      lk_log (cn_world (snd (abstract_call srv m p c))) = lk_log (cn_world c) @ [r]"
    if "params_ok p"
    using abstract_call_sends [OF that, of c m srv] by fastforce
qed

section \<open>Batches\<close>

text \<open>
  An object text starts with a brace, no other text does, and white space around a text is
  not part of it.
\<close>

definition brace_codec :: "(json \<Rightarrow> u8 list) \<Rightarrow> (u8 list \<Rightarrow> json option) \<Rightarrow> bool" where
  "brace_codec wr rd \<longleftrightarrow> json_codec wr rd \<and> (\<forall>j. rd (trim_bytes (wr j)) = Some j \<and>
     (trim_bytes (wr j) \<noteq> [] \<and> hd (trim_bytes (wr j)) = 0x7B \<longleftrightarrow> (\<exists>kvs. j = JObj kvs)))"

text \<open>What the caller makes of the reply to a batch: an array, or a bare response object.\<close>

definition read_batch :: "json \<Rightarrow> call_error + response list" where
  "read_batch j = (case j of
      JObj kvs \<Rightarrow> (case dec_response j of None \<Rightarrow> Inl CParseBatch | Some r \<Rightarrow> Inr [r])
    | _ \<Rightarrow> (case dec_list dec_response (Some j) of None \<Rightarrow> Inl CParseBatch | Some rs \<Rightarrow> Inr rs))"

lemma ParseBatchResponse_read:
  assumes "brace_codec wr rd"
  shows "ParseBatchResponse (link_env zl wr rd srv big) (wr j) = read_batch j"
proof -
  have rd: "rd (wr j) = Some j" "rd (trim_bytes (wr j)) = Some j"
    "trim_bytes (wr j) \<noteq> [] \<and> hd (trim_bytes (wr j)) = 0x7B \<longleftrightarrow> (\<exists>kvs. j = JObj kvs)"
    using assms by (simp_all add: brace_codec_def json_codec_def)
  show ?thesis
    using rd(1,2) unfolding ParseBatchResponse_def Let_def rd(3)
    by (cases j) (simp_all add: link_env_def read_batch_def)
qed

definition batch_ok :: "batch_call list \<Rightarrow> bool" where
  "batch_ok bcs \<longleftrightarrow> list_all (\<lambda>b. params_ok (bc_params b)) bcs"

lemma build_all_sends:
  assumes "batch_ok bcs"
  shows "\<exists>rs. build_all en bcs c = (Inr rs, c\<lparr>cn_idCounter := cn_idCounter c + of_nat (length bcs)\<rparr>) \<and>
    length rs = length bcs \<and>
    (\<forall>i < length bcs. sends (cn_apiH c) (cn_idCounter c + of_nat i) (bc_method (bcs ! i))
       (bc_params (bcs ! i)) (request_json (rs ! i)))"
  using assms
proof (induction bcs arbitrary: c)
  case (Cons b bcs)
  let ?c1 = "c\<lparr>cn_idCounter := cn_idCounter c + 1\<rparr>"
  have ok: "params_ok (bc_params b)" "batch_ok bcs"
    using Cons.prems by (simp_all add: batch_ok_def)
  obtain pj where pj: "map_json (withAPIHandle c (bc_params b)) = Some pj"
    using withAPIHandle_marshals [OF ok(1)] by blast
  let ?r = "\<lparr>rq_jsonrpc = ''2.0'', rq_id = nat_digits (unat (cn_idCounter c + 1)), rq_method = bc_method b,
       rq_params = Some pj\<rparr>"
  obtain rs where rs: "build_all en bcs ?c1 = (Inr rs, ?c1\<lparr>cn_idCounter := cn_idCounter ?c1 + of_nat (length bcs)\<rparr>)"
    "length rs = length bcs"
    "\<And>i. i < length bcs \<Longrightarrow> sends (cn_apiH ?c1) (cn_idCounter ?c1 + of_nat i) (bc_method (bcs ! i))
       (bc_params (bcs ! i)) (request_json (rs ! i))"
    using Cons.IH [OF ok(2), of ?c1] by blast
  show ?case
  proof (intro exI [of _ "?r # rs"] conjI allI impI)
    show "build_all en (b # bcs) c = (Inr (?r # rs), c\<lparr>cn_idCounter := cn_idCounter c + of_nat (length (b # bcs))\<rparr>)"
      using rs(1) pj by (simp add: BuildRequest_def nextID_def Let_def ac_simps)
    fix i assume "i < length (b # bcs)"
    then show "sends (cn_apiH c) (cn_idCounter c + of_nat i) (bc_method ((b # bcs) ! i))
       (bc_params ((b # bcs) ! i)) (request_json ((?r # rs) ! i))"
      using rs(3) [of "i - 1"] sends_request [OF ok(1) pj, of "bc_method b" "''2.0''"]
      by (cases i) (simp_all add: ac_simps)
  qed (simp add: rs(2))
qed simp

text \<open>A batch is one exchange: the server sees the array of the requests.\<close>

lemma CallBatch_abstract:
  assumes "zlib_round_trip zl" "brace_codec wr rd" "lk_reply (cn_world c) = None" "batch_ok bcs"
  shows "\<exists>rs. length rs = length bcs \<and>
    (\<forall>i < length bcs. sends (cn_apiH c) (cn_idCounter c + of_nat i) (bc_method (bcs ! i))
       (bc_params (bcs ! i)) (rs ! i)) \<and>
    CallBatch (link_env zl wr rd srv big) bcs c =
      (read_batch (fst (srv (JArr rs) (lk_server (cn_world c)))),
       c\<lparr>cn_idCounter := cn_idCounter c + of_nat (length bcs), cn_world :=
         \<lparr>lk_server = snd (srv (JArr rs) (lk_server (cn_world c))), lk_reply = None,
          lk_log = lk_log (cn_world c) @ [JArr rs]\<rparr>\<rparr>)"
proof -
  let ?en = "link_env zl wr rd srv big"
  let ?c1 = "c\<lparr>cn_idCounter := cn_idCounter c + of_nat (length bcs)\<rparr>"
  obtain rs where rs: "build_all ?en bcs c = (Inr rs, ?c1)" "length rs = length bcs"
    "\<forall>i < length bcs. sends (cn_apiH c) (cn_idCounter c + of_nat i) (bc_method (bcs ! i))
       (bc_params (bcs ! i)) (request_json (rs ! i))"
    using build_all_sends [OF assms(4)] by blast
  let ?j = "JArr (map request_json rs)"
  have batch: "BuildBatch ?en rs = wr ?j"
    by (simp add: BuildBatch_def link_env_def)
  have ex: "roundTrip ?en (wr ?j) ?c1 = (let (resp, s') = srv ?j (lk_server (cn_world ?c1)) in
     (Inr (wr resp), ?c1\<lparr>cn_world := \<lparr>lk_server = s', lk_reply = None, lk_log = lk_log (cn_world ?c1) @ [?j]\<rparr>\<rparr>))"
    using assms(2,3) by (intro exchange [OF assms(1)]) (simp_all add: brace_codec_def)
  show ?thesis
    using rs ex ParseBatchResponse_read [OF assms(2)]
    by (intro exI [of _ "map request_json rs"] conjI)
      (simp_all add: CallBatch_def batch Let_def case_prod_beta)
qed

section \<open>Properties\<close>

text \<open>C1: over a channel in lock step to any server, a call behaves as one atomic transition
  of the server: it sends one request with a fresh id, the caller's parameters and the API
  handle, returns what the response object says (result, server error or parse error), and
  leaves the channel ready for the next call, whichever replies the server frames.\<close>

theorem Call_refines:
  assumes "zlib_round_trip zl" "json_codec wr rd" "lk_reply (cn_world c) = None" "params_ok p"
  shows "\<exists>r. sends (cn_apiH c) (cn_idCounter c) m p r \<and>
    Call (link_env zl wr rd srv big) m p c =
      (read_reply (fst (srv r (lk_server (cn_world c)))),
       c\<lparr>cn_idCounter := cn_idCounter c + 1, cn_world :=
         \<lparr>lk_server = snd (srv r (lk_server (cn_world c))), lk_reply = None,
          lk_log = lk_log (cn_world c) @ [r]\<rparr>\<rparr>)"
  unfolding Call_def callLocked_abstract [OF assms(1-3)] by (rule abstract_call_sends [OF assms(4)])

lemma call_seq_abstract:
  assumes "zlib_round_trip zl" "json_codec wr rd" "lk_reply (cn_world c) = None"
  shows "call_seq (Call (link_env zl wr rd srv big)) cs c = call_seq (abstract_call srv) cs c"
  using assms(3)
proof (induction cs arbitrary: c)
  case (Cons a cs)
  then show ?case
    using callLocked_abstract [OF assms(1,2) Cons.prems, of srv big]
    by (cases a) (simp add: Call_def peer.call_ready)
qed simp

text \<open>a sequence of calls reaches the server as one request per call, in the order of the
  calls, with pairwise distinct ids as long as there are at most \<open>2 ^ 64\<close> of them.\<close>

theorem Call_sequence:
  assumes "zlib_round_trip zl" "json_codec wr rd" "lk_reply (cn_world c) = None"
    and "\<forall>(m, p) \<in> set cs. params_ok p" "length cs \<le> 2 ^ 64"
  shows "\<exists>rs. lk_log (cn_world (call_seq (Call (link_env zl wr rd srv big)) cs c)) = lk_log (cn_world c) @ rs \<and>
    map req_method rs = map fst cs \<and> distinct (map req_id rs)"
proof -
  have "list_all (\<lambda>(m, p). params_ok p) cs"
    using assms(4) by (simp add: list_all_iff)
  then show ?thesis
    unfolding call_seq_abstract [OF assms(1-3)] by (rule peer.seq_ids_distinct [OF assms(3) _ assms(5)])
qed

text \<open>after a successful handshake every request carries the handle that the server gave,
  whatever the caller passed under that name, and the caller's other parameters unchanged;
  a handshake that fails leaves the connection without a new handle.\<close>

theorem Handshake_installs:
  assumes "zlib_round_trip zl" "json_codec wr rd" "lk_reply (cn_world c) = None"
    and "Handshake (link_env zl wr rd srv big) name major minor c = (res, c')"
  shows "(case res of
      Inl _ \<Rightarrow> cn_apiH c' = cn_apiH c
    | Inr _ \<Rightarrow> cn_apiH c' \<noteq> [] \<and> (\<forall>p pj k. params_ok p \<longrightarrow> map_json (withAPIHandle c' p) = Some pj \<longrightarrow>
        member k pj = (if k = ''api_h'' then Some (JStr (cn_apiH c'))
                       else Option.bind (map_of (entries p) k) (\<lambda>v. v)))) \<and>
    lk_reply (cn_world c') = None"
proof -
  let ?ps = "Some [(''name'', Some (JStr name)), (''major'', Some (JInt major)), (''minor'', Some (JInt minor))]"
  obtain r c1 where call: "callLocked (link_env zl wr rd srv big) ''api_sync_v2'' ?ps c = (r, c1)"
    by fastforce
  then have c1: "abstract_call srv ''api_sync_v2'' ?ps c = (r, c1)"
    using callLocked_abstract [OF assms(1-3)] by metis
  have keep: "cn_apiH c1 = cn_apiH c" "lk_reply (cn_world c1) = None"
    using peer.call_handle [of srv "''api_sync_v2''" ?ps c] peer.call_ready [OF assms(3), of srv "''api_sync_v2''" ?ps]
      c1 by simp_all
  have out: "(\<exists>h. h \<noteq> [] \<and> c' = c1\<lparr>cn_apiH := h\<rparr> \<and> res = Inr ()) \<or> (c' = c1 \<and> (\<exists>e. res = Inl e))"
    using assms(4) by (auto simp: Handshake_def call split: sum.splits option.splits if_splits)
  have params: "member k pj = (if k = ''api_h'' then Some (JStr (cn_apiH c'))
                       else Option.bind (map_of (entries p) k) (\<lambda>v. v))"
    if "cn_apiH c' \<noteq> []" "params_ok p" "map_json (withAPIHandle c' p) = Some pj" for p pj k
  proof -
    have "distinct (map fst (entries (withAPIHandle c' p)))"
      using withAPIHandle_ok [OF that(2), of c'] by (simp add: params_ok_def)
    from map_json_entries [OF this that(3), of k] that(1) show ?thesis
      by (simp add: withAPIHandle_entries)
  qed
  from out show ?thesis
  proof
    assume "\<exists>h. h \<noteq> [] \<and> c' = c1\<lparr>cn_apiH := h\<rparr> \<and> res = Inr ()"
    then obtain h where h: "h \<noteq> []" "c' = c1\<lparr>cn_apiH := h\<rparr>" "res = Inr ()" by blast
    then have "cn_apiH c' \<noteq> []" "lk_reply (cn_world c') = None"
      using keep by simp_all
    with params h(3) show ?thesis by simp
  next
    assume "c' = c1 \<and> (\<exists>e. res = Inl e)"
    then show ?thesis using keep by auto
  qed
qed

section \<open>Examples\<close>

text \<open>A codec for the examples: values are numbered and written in unary after a bracket.\<close>

instance json :: countable
  by countable_datatype

definition unary_write :: "json \<Rightarrow> u8 list" where
  "unary_write j = (case j of JObj _ \<Rightarrow> 0x7B | _ \<Rightarrow> 0x5B) # replicate (to_nat j) 0"

definition unary_read :: "u8 list \<Rightarrow> json option" where
  "unary_read bs = Some (from_nat (length bs - 1))"

lemma get_u32_top: "ucast (drop_bit 24 (get_u32 (a # b # c # d # xs))) = (a::u8)"
  by (rule bit_word_eqI)
    (auto simp: get_u32_def bit_or_iff bit_push_bit_iff bit_ucast_iff bit_drop_bit_eq
      dest: bit_imp_le_length)

lemma IsFramed_first: "IsFramed (b # bs) \<Longrightarrow> b = 0xAB"
proof -
  assume f: "IsFramed (b # bs)"
  then obtain x y z xs where "bs = x # y # z # xs"
    by (auto simp: IsFramed_def headerLen_def Suc_le_length_iff numeral_eq_Suc)
  with f have "get_u32 (b # x # y # z # []) = Magic"
    by (simp add: IsFramed_def)
  then have "b = ucast (drop_bit 24 Magic)"
    using get_u32_top [of b x y z "[]"] by simp
  then show "b = 0xAB"
    by (simp add: Magic_def)
qed

lemma unary_codec: "json_codec unary_write unary_read"
  by (auto simp: json_codec_def unary_write_def unary_read_def dest!: IsFramed_first split: json.splits)

lemma unary_brace_codec: "brace_codec unary_write unary_read"
proof -
  have "trim_bytes (unary_write j) = unary_write j" for j
    by (cases "to_nat j") (simp_all add: trim_bytes_def unary_write_def space_byte_def replicate_append_same
        split: json.split)
  then show ?thesis
    using unary_codec by (auto simp: brace_codec_def json_codec_def unary_write_def split: json.splits)
qed

text \<open>A server that counts requests and answers each with a handle.\<close>

definition sample_server :: "json \<Rightarrow> nat \<Rightarrow> json \<times> nat" where
  "sample_server j n = (JObj [(''jsonrpc'', JStr ''2.0''), (''result'', JObj [(''api_h'', JStr ''h1'')])], n + 1)"

definition sample_conn :: "nat link conn" where
  "sample_conn = \<lparr>cn_world = \<lparr>lk_server = 0, lk_reply = None, lk_log = []\<rparr>, cn_idCounter = 0, cn_apiH = []\<rparr>"

abbreviation sample_env :: "nat link env" where
  "sample_env \<equiv> link_env stored_zlib unary_write unary_read sample_server (\<lambda>_. True)"

lemma sample_conn_ready: "lk_reply (cn_world sample_conn) = None"
  by (simp add: sample_conn_def)

lemma params_ok_None [simp]: "params_ok None"
  by (simp add: params_ok_def entries_def)

theorem Call_refines_witness:
  "\<exists>r. sends [] 0 ''ping'' None r \<and>
     Call sample_env ''ping'' None sample_conn =
       (read_reply (fst (sample_server r 0)),
        sample_conn\<lparr>cn_idCounter := 1, cn_world := \<lparr>lk_server = 1, lk_reply = None, lk_log = [r]\<rparr>\<rparr>)"
proof -
  have sel: "lk_server (cn_world sample_conn) = 0" "lk_log (cn_world sample_conn) = []"
    "cn_apiH sample_conn = []" "cn_idCounter sample_conn = 0" "snd (sample_server r 0) = 1" for r
    by (simp_all add: sample_conn_def sample_server_def)
  show ?thesis
    using Call_refines [OF stored_zlib_round_trip unary_codec sample_conn_ready params_ok_None,
        of "''ping''" sample_server "\<lambda>_. True"]
    by (simp only: sel append_Nil add_0)
qed

theorem Call_sequence_witness:
  "\<exists>rs. lk_log (cn_world (call_seq (Call sample_env) [(''ping'', None), (''get_version'', None)] sample_conn)) = rs
     \<and> map req_method rs = [''ping'', ''get_version''] \<and> distinct (map req_id rs)"
  using Call_sequence [OF stored_zlib_round_trip unary_codec sample_conn_ready,
      of "[(''ping'', None), (''get_version'', None)]" sample_server "\<lambda>_. True"]
  by (simp add: sample_conn_def)

theorem Handshake_installs_witness:
  "cn_apiH (snd (Handshake sample_env ''STL'' 5 1 sample_conn)) \<noteq> []"
proof -
  obtain res c' where h: "Handshake sample_env ''STL'' 5 1 sample_conn = (res, c')" by fastforce
  have ok: "params_ok (Some [(''name'', Some (JStr ''STL'')), (''major'', Some (JInt 5)), (''minor'', Some (JInt 1))])"
    by (simp add: params_ok_def entries_def)
  have reply: "read_reply (fst (sample_server r n)) = Inr (Some (JObj [(''api_h'', JStr ''h1'')]))" for r n
    by (simp add: sample_server_def read_reply_def dec_response_def as_obj_def jget_def dec_str_def
        fold_key_def)
  have "fst (callLocked sample_env ''api_sync_v2''
      (Some [(''name'', Some (JStr ''STL'')), (''major'', Some (JInt 5)), (''minor'', Some (JInt 1))]) sample_conn)
      = Inr (Some (JObj [(''api_h'', JStr ''h1'')]))"
    unfolding callLocked_abstract [OF stored_zlib_round_trip unary_codec sample_conn_ready]
    using abstract_call_sends [OF ok, of sample_conn "''api_sync_v2''" sample_server] reply by auto
  then have "res = Inr ()"
    using h by (auto simp: Handshake_def as_obj_def jget_def dec_str_def fold_key_def split: prod.splits)
  with Handshake_installs [OF stored_zlib_round_trip unary_codec sample_conn_ready h] h show ?thesis
    by simp
qed

text \<open>C14: a batch is one exchange with the server: it sees one array that holds one request per
  batch entry, in order, with consecutive ids, the entry's parameters and the API handle; the
  responses come back in the server's order, also when the server answers a batch of one by a
  bare object.\<close>

theorem CallBatch_refines:
  assumes "zlib_round_trip zl" "brace_codec wr rd" "lk_reply (cn_world c) = None"
    and "\<forall>b \<in> set bcs. params_ok (bc_params b)"
  shows "\<exists>rs. length rs = length bcs \<and>
    (\<forall>i < length bcs. sends (cn_apiH c) (cn_idCounter c + of_nat i) (bc_method (bcs ! i))
       (bc_params (bcs ! i)) (rs ! i)) \<and>
    fst (CallBatch (link_env zl wr rd srv big) bcs c) =
      read_batch (fst (srv (JArr rs) (lk_server (cn_world c)))) \<and>
    lk_log (cn_world (snd (CallBatch (link_env zl wr rd srv big) bcs c))) = lk_log (cn_world c) @ [JArr rs]"
proof -
  have "batch_ok bcs"
    using assms(4) by (simp add: batch_ok_def list_all_iff)
  from CallBatch_abstract [OF assms(1-3) this, of srv big] show ?thesis
    by (elim exE conjE) (intro exI conjI; simp)
qed

theorem CallBatch_refines_witness:
  "\<exists>r. fst (CallBatch sample_env [\<lparr>bc_method = ''add_stream'', bc_params = None\<rparr>] sample_conn) =
       read_batch (fst (sample_server (JArr [r]) 0)) \<and> req_method r = ''add_stream''"
proof -
  obtain rs where rs: "length rs = 1" "sends [] 0 ''add_stream'' None (rs ! 0)"
    "fst (CallBatch sample_env [\<lparr>bc_method = ''add_stream'', bc_params = None\<rparr>] sample_conn) =
       read_batch (fst (sample_server (JArr rs) 0))"
    using CallBatch_refines [OF stored_zlib_round_trip unary_brace_codec sample_conn_ready,
        of "[\<lparr>bc_method = ''add_stream'', bc_params = None\<rparr>]" sample_server "\<lambda>_. True"]
    by (auto simp: sample_conn_def)
  then obtain r where "rs = [r]"
    by (auto simp: length_Suc_conv)
  with rs show ?thesis
    by (auto simp: sends_def)
qed

end
