(* ===== verification/Rpc_Interleaving.thy ===== *)
theory Rpc_Interleaving
  imports Rpc_Connection
begin

text \<open>
  Goroutines that share a connection: the locking in \<open>pkg/rpc/connection.go\<close>. The commands, the
  subscriber and the poller of the dashboard call over one connection, each call from its own
  goroutine. Here the scheduler may switch between any two operations on the mutex, the compressor,
  the counter and the socket; the interleavings are shown equal to calls made one after another.
\<close>

section \<open>A mutex\<close>

text \<open>
  Where a goroutine is with its operation: before \<open>Lock\<close>, inside the section at some point,
  before the deferred \<open>Unlock\<close> with its result, or returned. The system records the order in which
  the lock was taken; nothing depends on that record.
\<close>

datatype ('p, 'r) phase = Waiting | Inside 'p | Leaving 'r | Finished 'r

record ('c, 'p, 'r) system =
  sy_shared :: 'c
  sy_owner :: "nat option"
  sy_phases :: "('p, 'r) phase list"
  sy_order :: "nat list"

text \<open>
  \<open>act t p\<close> is one action of task \<open>t\<close> at point \<open>p\<close> of its section: it goes on to another point or
  leaves with a result. An action that is not \<open>ready\<close> blocks, and keeps the lock.
\<close>

inductive mutex_step :: "('p \<Rightarrow> 'c \<Rightarrow> bool) \<Rightarrow> ('t \<Rightarrow> 'p \<Rightarrow> 'c \<Rightarrow> ('p + 'r) \<times> 'c) \<Rightarrow> 'p \<Rightarrow> 't list \<Rightarrow>
    ('c, 'p, 'r) system \<Rightarrow> ('c, 'p, 'r) system \<Rightarrow> bool"
  for ready :: "'p \<Rightarrow> 'c \<Rightarrow> bool" and act :: "'t \<Rightarrow> 'p \<Rightarrow> 'c \<Rightarrow> ('p + 'r) \<times> 'c" and entry :: 'p and ts :: "'t list" where
  lock: "i < length ts \<Longrightarrow> sy_phases s ! i = Waiting \<Longrightarrow> sy_owner s = None \<Longrightarrow>
    mutex_step ready act entry ts s (s\<lparr>sy_owner := Some i, sy_phases := (sy_phases s)[i := Inside entry],
      sy_order := sy_order s @ [i]\<rparr>)"
| go_on: "i < length ts \<Longrightarrow> sy_phases s ! i = Inside p \<Longrightarrow> ready p (sy_shared s) \<Longrightarrow>
    act (ts ! i) p (sy_shared s) = (Inl q, c) \<Longrightarrow>
    mutex_step ready act entry ts s (s\<lparr>sy_shared := c, sy_phases := (sy_phases s)[i := Inside q]\<rparr>)"
| result: "i < length ts \<Longrightarrow> sy_phases s ! i = Inside p \<Longrightarrow> ready p (sy_shared s) \<Longrightarrow>
    act (ts ! i) p (sy_shared s) = (Inr r, c) \<Longrightarrow>
    mutex_step ready act entry ts s (s\<lparr>sy_shared := c, sy_phases := (sy_phases s)[i := Leaving r]\<rparr>)"
| unlock: "i < length ts \<Longrightarrow> sy_phases s ! i = Leaving r \<Longrightarrow>
    mutex_step ready act entry ts s (s\<lparr>sy_owner := None, sy_phases := (sy_phases s)[i := Finished r]\<rparr>)"

inductive_cases mutex_stepE: "mutex_step ready act entry ts s s'"

definition system_start :: "'t list \<Rightarrow> 'c \<Rightarrow> ('c, 'p, 'r) system" where
  "system_start ts c = \<lparr>sy_shared = c, sy_owner = None, sy_phases = replicate (length ts) Waiting, sy_order = []\<rparr>"

text \<open>The rest of a section, run without a switch; \<open>None\<close>: it takes more than \<open>n\<close> actions.\<close>

fun run_section :: "('t \<Rightarrow> 'p \<Rightarrow> 'c \<Rightarrow> ('p + 'r) \<times> 'c) \<Rightarrow> nat \<Rightarrow> 't \<Rightarrow> 'p \<Rightarrow> 'c \<Rightarrow> ('r \<times> 'c) option" where
  "run_section act 0 t p c = None"
| "run_section act (Suc n) t p c = (case act t p c of
      (Inl q, c') \<Rightarrow> run_section act n t q c'
    | (Inr r, c') \<Rightarrow> Some (r, c'))"

text \<open>Tasks run one after another, each as one action, with their results.\<close>

fun run_in_order :: "('t \<Rightarrow> 'c \<Rightarrow> 'r \<times> 'c) \<Rightarrow> 't list \<Rightarrow> nat list \<Rightarrow> 'c \<Rightarrow> 'r list \<times> 'c" where
  "run_in_order whole ts [] c = ([], c)"
| "run_in_order whole ts (i # is) c = (case whole (ts ! i) c of (r, c1) \<Rightarrow>
      (case run_in_order whole ts is c1 of (rs, c2) \<Rightarrow> (r # rs, c2)))"

lemma run_in_order_snoc:
  "run_in_order whole ts is c = (rs, c1) \<Longrightarrow> whole (ts ! i) c1 = (r, c2) \<Longrightarrow>
   run_in_order whole ts (is @ [i]) c = (rs @ [r], c2)"
  by (induction "is" arbitrary: c rs) (auto split: prod.splits)

text \<open>
  The contract of a section: it takes at most \<open>rank p\<close> further actions from point \<open>p\<close> on, and run
  without a switch it is the operation \<open>whole\<close>.
\<close>

locale critical_section =
  fixes act :: "'t \<Rightarrow> 'p \<Rightarrow> 'c \<Rightarrow> ('p + 'r) \<times> 'c"
    and entry :: 'p
    and rank :: "'p \<Rightarrow> nat"
    and whole :: "'t \<Rightarrow> 'c \<Rightarrow> 'r \<times> 'c"
  assumes act_rank: "act t p c = (Inl q, c') \<Longrightarrow> rank q < rank p"
    and act_whole: "run_section act (Suc (rank entry)) t entry c = Some (whole t c)"
begin

lemma run_section_fuel: "rank p < n \<Longrightarrow> rank p < m \<Longrightarrow> run_section act n t p c = run_section act m t p c"
proof (induction n arbitrary: m p c)
  case (Suc n)
  obtain k where m: "m = Suc k"
    using Suc.prems(2) by (cases m) auto
  show ?case
  proof (cases "act t p c")
    case (Pair x c')
    show ?thesis
    proof (cases x)
      case (Inl q)
      with Pair have "rank q < rank p"
        using act_rank by blast
      then show ?thesis
        using Pair Inl m Suc.IH [of q k c'] Suc.prems by simp
    qed (use Pair m in simp)
  qed
qed simp

text \<open>
  Where the owner of the lock is: what is left of its section gives what the whole would have
  given, started on \<open>c\<close>.
\<close>

definition on_way :: "'t \<Rightarrow> 'c \<Rightarrow> ('p, 'r) phase \<Rightarrow> 'c \<Rightarrow> bool" where
  "on_way t c ph shared = (case ph of
      Inside p \<Rightarrow> run_section act (Suc (rank p)) t p shared = Some (whole t c)
    | Leaving r \<Rightarrow> whole t c = (r, shared)
    | _ \<Rightarrow> False)"

lemma on_way_entry: "on_way t c (Inside entry) c"
  by (simp add: on_way_def act_whole del: run_section.simps)

lemma on_way_go_on: "on_way t c (Inside p) shared \<Longrightarrow> act t p shared = (Inl q, shared') \<Longrightarrow> on_way t c (Inside q) shared'"
  using act_rank [of t p shared q shared'] run_section_fuel [of q "rank p" "Suc (rank q)" t shared']
  by (simp add: on_way_def del: run_section.simps(2)) (simp add: run_section.simps(2) [of act "rank p"])

lemma on_way_result: "on_way t c (Inside p) shared \<Longrightarrow> act t p shared = (Inr r, shared') \<Longrightarrow> on_way t c (Leaving r) shared'"
  by (auto simp: on_way_def)

text \<open>
  The invariant: \<open>order\<close> lists the tasks that have returned, one after another from \<open>c0\<close>, and last
  the owner of the lock, which is on its way; all others wait.
\<close>

definition returned :: "'t list \<Rightarrow> 'c \<Rightarrow> nat list \<Rightarrow> ('p, 'r) phase list \<Rightarrow> 'c \<Rightarrow> bool" where
  "returned ts c0 order phs c \<longleftrightarrow> (\<exists>rs. run_in_order whole ts order c0 = (rs, c) \<and>
     list_all2 (\<lambda>i r. phs ! i = Finished r) order rs)"

definition linear :: "'t list \<Rightarrow> 'c \<Rightarrow> ('c, 'p, 'r) system \<Rightarrow> bool" where
  "linear ts c0 s \<longleftrightarrow> length (sy_phases s) = length ts \<and> distinct (sy_order s) \<and>
     set (sy_order s) = {i. i < length ts \<and> sy_phases s ! i \<noteq> Waiting} \<and>
     (case sy_owner s of
        None \<Rightarrow> returned ts c0 (sy_order s) (sy_phases s) (sy_shared s)
      | Some i \<Rightarrow> \<exists>order c. sy_order s = order @ [i] \<and> returned ts c0 order (sy_phases s) c \<and>
          on_way (ts ! i) c (sy_phases s ! i) (sy_shared s))"

lemma linear_start: "linear ts c0 (system_start ts c0)"
  by (simp add: linear_def system_start_def returned_def)

lemma returned_update:
  "returned ts c0 order phs c \<Longrightarrow> i \<notin> set order \<Longrightarrow> returned ts c0 order (phs[i := ph]) c"
  unfolding returned_def
  by (elim exE conjE, intro exI conjI, assumption, erule list.rel_mono_strong) (metis nth_list_update_neq)

lemma returned_Finished: "returned ts c0 order phs c \<Longrightarrow> i \<in> set order \<Longrightarrow> \<exists>r. phs ! i = Finished r"
  unfolding returned_def by (auto simp: list_all2_conv_all_nth in_set_conv_nth)

text \<open>Only the owner of the lock is inside.\<close>

lemma linear_owner:
  assumes "linear ts c0 s" "i < length ts" "sy_phases s ! i \<noteq> Waiting" "\<nexists>r. sy_phases s ! i = Finished r"
  shows "sy_owner s = Some i"
proof -
  have i: "i \<in> set (sy_order s)"
    using assms(1-3) by (simp add: linear_def)
  show ?thesis
  proof (cases "sy_owner s")
    case None
    then have "returned ts c0 (sy_order s) (sy_phases s) (sy_shared s)"
      using assms(1) by (simp add: linear_def)
    from returned_Finished [OF this i] assms(4) show ?thesis by blast
  next
    case (Some j)
    then obtain order c where "sy_order s = order @ [j]" "returned ts c0 order (sy_phases s) c"
      using assms(1) by (auto simp: linear_def)
    with returned_Finished [of ts c0 order "sy_phases s" c i] i assms(4) Some show ?thesis by auto
  qed
qed

lemma owner_inside:
  assumes "linear ts c0 s" "sy_owner s = Some i"
  shows "i < length ts \<and> (\<nexists>r. sy_phases s ! i = Finished r)"
proof -
  obtain order c where "sy_order s = order @ [i]" "on_way (ts ! i) c (sy_phases s ! i) (sy_shared s)"
    and "set (sy_order s) = {i. i < length ts \<and> sy_phases s ! i \<noteq> Waiting}"
    using assms by (auto simp: linear_def)
  then show ?thesis
    by (auto simp: on_way_def split: phase.splits)
qed

lemma linear_lock:
  assumes "linear ts c0 s" "i < length ts" "sy_phases s ! i = Waiting" "sy_owner s = None"
  shows "linear ts c0 (s\<lparr>sy_owner := Some i, sy_phases := (sy_phases s)[i := Inside entry], sy_order := sy_order s @ [i]\<rparr>)"
proof -
  have i: "i \<notin> set (sy_order s)" "returned ts c0 (sy_order s) (sy_phases s) (sy_shared s)" "length (sy_phases s) = length ts"
    using assms by (simp_all add: linear_def)
  then have "returned ts c0 (sy_order s) ((sy_phases s)[i := Inside entry]) (sy_shared s)"
    by (intro returned_update)
  with assms i show ?thesis
    by (auto simp: linear_def on_way_entry nth_list_update)
qed

text \<open>An action of the owner, which stays on its way.\<close>

lemma linear_work:
  assumes "linear ts c0 s" "sy_owner s = Some i" "ph \<noteq> Waiting"
    and "\<And>c. on_way (ts ! i) c (sy_phases s ! i) (sy_shared s) \<Longrightarrow> on_way (ts ! i) c ph shared'"
  shows "linear ts c0 (s\<lparr>sy_shared := shared', sy_phases := (sy_phases s)[i := ph]\<rparr>)"
proof -
  obtain order c where o: "sy_order s = order @ [i]" "returned ts c0 order (sy_phases s) c"
    and w: "on_way (ts ! i) c (sy_phases s ! i) (sy_shared s)"
    using assms(1,2) by (auto simp: linear_def)
  have i: "i \<notin> set order" "i < length ts" "length (sy_phases s) = length ts" "distinct (sy_order s)"
    and all: "set (sy_order s) = {i. i < length ts \<and> sy_phases s ! i \<noteq> Waiting}"
    using assms(1) o(1) by (auto simp: linear_def)
  have "set (sy_order s) = {j. j < length ts \<and> (sy_phases s)[i := ph] ! j \<noteq> Waiting}"
    using all i assms(3) o(1) by (auto simp: nth_list_update)
  then show ?thesis
    using i o returned_update [OF o(2) i(1)] assms(2) assms(4) [OF w] by (auto simp: linear_def)
qed

lemma linear_unlock:
  assumes "linear ts c0 s" "i < length ts" "sy_phases s ! i = Leaving r"
  shows "linear ts c0 (s\<lparr>sy_owner := None, sy_phases := (sy_phases s)[i := Finished r]\<rparr>)"
proof -
  have "sy_owner s = Some i"
    using linear_owner [OF assms(1,2)] assms(3) by simp
  then obtain order c where o: "sy_order s = order @ [i]" "returned ts c0 order (sy_phases s) c"
    and w: "whole (ts ! i) c = (r, sy_shared s)"
    using assms(1,3) by (auto simp: linear_def on_way_def)
  have i: "i \<notin> set order" "length (sy_phases s) = length ts" "distinct (sy_order s)"
    and all: "set (sy_order s) = {i. i < length ts \<and> sy_phases s ! i \<noteq> Waiting}"
    using assms(1) o(1) by (auto simp: linear_def)
  have "returned ts c0 (order @ [i]) ((sy_phases s)[i := Finished r]) (sy_shared s)"
  proof -
    obtain rs where rs: "run_in_order whole ts order c0 = (rs, c)"
      "list_all2 (\<lambda>j r'. (sy_phases s)[i := Finished r] ! j = Finished r') order rs"
      using returned_update [OF o(2) i(1), of "Finished r"] by (auto simp: returned_def)
    have "list_all2 (\<lambda>j r'. (sy_phases s)[i := Finished r] ! j = Finished r') (order @ [i]) (rs @ [r])"
      using rs(2) i(2) assms(2) by (intro list_all2_appendI) simp_all
    with run_in_order_snoc [OF rs(1) w] show ?thesis
      unfolding returned_def by blast
  qed
  moreover have "set (sy_order s) = {j. j < length ts \<and> (sy_phases s)[i := Finished r] ! j \<noteq> Waiting}"
    using all i assms(2) o(1) by (auto simp: nth_list_update)
  ultimately show ?thesis
    using i o(1) by (simp add: linear_def)
qed

lemma linear_step: "mutex_step ready act entry ts s s' \<Longrightarrow> linear ts c0 s \<Longrightarrow> linear ts c0 s'"
proof (induction rule: mutex_step.induct)
  case (lock i s)
  then show ?case by (intro linear_lock)
next
  case (go_on i s p q c)
  then have "sy_owner s = Some i"
    using linear_owner [of ts c0 s i] by simp
  with go_on show ?case
    by (intro linear_work) (auto intro: on_way_go_on)
next
  case (result i s p r c)
  then have "sy_owner s = Some i"
    using linear_owner [of ts c0 s i] by simp
  with result show ?case
    by (intro linear_work) (auto intro: on_way_result)
next
  case (unlock i s r)
  then show ?case by (intro linear_unlock)
qed

lemma linear_reachable: "(mutex_step ready act entry ts)\<^sup>*\<^sup>* (system_start ts c0) s \<Longrightarrow> linear ts c0 s"
  by (induction rule: rtranclp_induct) (auto simp: linear_start intro: linear_step)

text \<open>In any interleaving, whenever the lock is free.\<close>

lemma reachable_free:
  assumes "(mutex_step ready act entry ts)\<^sup>*\<^sup>* (system_start ts c0) s" "sy_owner s = None"
  obtains rs where "run_in_order whole ts (sy_order s) c0 = (rs, sy_shared s)"
    "list_all2 (\<lambda>i r. sy_phases s ! i = Finished r) (sy_order s) rs" "distinct (sy_order s)"
    "set (sy_order s) = {i. i < length ts \<and> sy_phases s ! i \<noteq> Waiting}"
  using linear_reachable [OF assms(1)] assms(2) that by (auto simp: linear_def returned_def)

text \<open>
  Every step is progress, and there is one as long as a task has not returned, unless the owner
  of the lock is blocked.
\<close>

definition left :: "('p, 'r) phase \<Rightarrow> nat" where
  "left ph = (case ph of Waiting \<Rightarrow> rank entry + 3 | Inside p \<Rightarrow> rank p + 2 | Leaving r \<Rightarrow> 1 | Finished r \<Rightarrow> 0)"

definition left_all :: "('c, 'p, 'r) system \<Rightarrow> nat" where
  "left_all s = sum_list (map left (sy_phases s))"

lemma left_update:
  assumes "i < length phs" "left ph < left (phs ! i)"
  shows "sum_list (map left (phs[i := ph])) < sum_list (map left phs)"
  using assms by (simp add: map_update sum_list_update) (use member_le_sum_list [of "left (phs ! i)" "map left phs"] in auto)

lemma step_left:
  assumes "mutex_step ready act entry ts s s'" "length (sy_phases s) = length ts"
  shows "left_all s' < left_all s"
  using assms
  by (elim mutex_stepE) (auto simp: left_all_def left_def dest: act_rank intro!: left_update)

lemma steps_bounded:
  assumes "((mutex_step ready act entry ts) ^^ n) (system_start ts c0) s"
  shows "n + left_all s \<le> length ts * (rank entry + 3)"
  using assms
proof (induction n arbitrary: s)
  case 0
  then show ?case
    by (auto simp: left_all_def system_start_def left_def sum_list_replicate)
next
  case (Suc n)
  then obtain u where u: "((mutex_step ready act entry ts) ^^ n) (system_start ts c0) u" "mutex_step ready act entry ts u s"
    by auto
  have "length (sy_phases u) = length ts"
    using linear_reachable [OF relpowp_imp_rtranclp [OF u(1)]] by (simp add: linear_def)
  with Suc.IH [OF u(1)] step_left [OF u(2)] show ?case by simp
qed

lemma no_deadlock:
  assumes "(mutex_step ready act entry ts)\<^sup>*\<^sup>* (system_start ts c0) s" "i < length ts" "\<nexists>r. sy_phases s ! i = Finished r"
  shows "(\<exists>s'. mutex_step ready act entry ts s s') \<or>
    (\<exists>j p. sy_owner s = Some j \<and> sy_phases s ! j = Inside p \<and> \<not> ready p (sy_shared s))"
proof (cases "sy_owner s")
  case None
  then have "sy_phases s ! i = Waiting"
    using linear_owner [OF linear_reachable [OF assms(1)] assms(2) _ assms(3)] by auto
  from lock [OF assms(2) this None] show ?thesis by blast
next
  case (Some j)
  note inv = linear_reachable [OF assms(1)]
  obtain order c where o: "sy_order s = order @ [j]" "on_way (ts ! j) c (sy_phases s ! j) (sy_shared s)"
    using inv Some by (auto simp: linear_def)
  moreover have "j < length ts"
    using inv o(1) by (auto simp: linear_def set_eq_iff)
  ultimately show ?thesis
  proof (cases "sy_phases s ! j")
    case (Inside p)
    obtain x c' where "act (ts ! j) p (sy_shared s) = (x, c')" by fastforce
    then have "\<exists>s'. mutex_step ready act entry ts s s'" if "ready p (sy_shared s)"
      using mutex_step.go_on [of j ts s p ready, OF \<open>j < length ts\<close> Inside that]
        mutex_step.result [of j ts s p ready, OF \<open>j < length ts\<close> Inside that] by (cases x) blast+
    then show ?thesis
      using Some Inside by blast
  next
    case (Leaving r)
    show ?thesis
      by (rule disjI1, rule exI) (rule mutex_step.unlock [OF \<open>j < length ts\<close> Leaving])
  qed (simp_all add: on_way_def)
qed

text \<open>So there is an execution to the end when nothing blocks.\<close>

lemma run_to_end:
  assumes "\<And>p c. ready p c"
  obtains s where "(mutex_step ready act entry ts)\<^sup>*\<^sup>* (system_start ts c0) s" "sy_owner s = None"
    "\<forall>i < length ts. \<exists>r. sy_phases s ! i = Finished r"
proof -
  have "\<exists>s. (mutex_step ready act entry ts)\<^sup>*\<^sup>* (system_start ts c0) s \<and> (\<forall>i < length ts. \<exists>r. sy_phases s ! i = Finished r)"
    if "(mutex_step ready act entry ts)\<^sup>*\<^sup>* (system_start ts c0) u" for u
    using that
  proof (induction "left_all u" arbitrary: u rule: less_induct)
    case less
    show ?case
    proof (cases "\<forall>i < length ts. \<exists>r. sy_phases u ! i = Finished r")
      case False
      then obtain v where v: "mutex_step ready act entry ts u v"
        using no_deadlock [OF less.prems] assms by blast
      have "length (sy_phases u) = length ts"
        using linear_reachable [OF less.prems] by (simp add: linear_def)
      from less.hyps [OF step_left [OF v this]] show ?thesis
        using less.prems v by (meson rtranclp.rtrancl_into_rtrancl)
    qed (use less.prems in blast)
  qed
  then obtain s where s: "(mutex_step ready act entry ts)\<^sup>*\<^sup>* (system_start ts c0) s"
    "\<forall>i < length ts. \<exists>r. sy_phases s ! i = Finished r" by blast
  then have "sy_owner s = None"
    using owner_inside [OF linear_reachable [OF s(1)]] by (metis option.exhaust)
  with s that show thesis by blast
qed

end

section \<open>The connection under its mutex\<close>

text \<open>
  The operations of a connection, and the points between which another goroutine may run: before
  the request is built, before it is framed, sent, received and decoded.
\<close>

datatype conn_task =
    TCall string params
  | TBatch "batch_call list"
  | THandshake string int int

datatype conn_result =
    RCall "call_error + json option"
  | RBatch "call_error + response list"
  | RHandshake "call_error + unit"

datatype conn_point = Building | Framing "u8 list" | Sending "u8 list" | Receiving | Parsing "u8 list"

definition run_task :: "'w env \<Rightarrow> conn_task \<Rightarrow> 'w conn \<Rightarrow> conn_result \<times> 'w conn" where
  "run_task en t c = (case t of
      TCall m p \<Rightarrow> map_prod RCall (\<lambda>c. c) (Call en m p c)
    | TBatch bcs \<Rightarrow> map_prod RBatch (\<lambda>c. c) (CallBatch en bcs c)
    | THandshake name major minor \<Rightarrow> map_prod RHandshake (\<lambda>c. c) (Handshake en name major minor c))"

definition fail_task :: "conn_task \<Rightarrow> call_error \<Rightarrow> conn_result" where
  "fail_task t e = (case t of TCall _ _ \<Rightarrow> RCall (Inl e) | TBatch _ \<Rightarrow> RBatch (Inl e)
     | THandshake _ _ _ \<Rightarrow> RHandshake (Inl (CHandshake e)))"

definition handshake_params :: "string \<Rightarrow> int \<Rightarrow> int \<Rightarrow> params" where
  "handshake_params name major minor =
     Some [(''name'', Some (JStr name)), (''major'', Some (JInt major)), (''minor'', Some (JInt minor))]"

text \<open>The payload of a task: the request of a call or of the handshake, or the array of a batch.\<close>

definition build_call :: "'w env \<Rightarrow> string \<Rightarrow> params \<Rightarrow> 'w conn \<Rightarrow> (call_error + u8 list) \<times> 'w conn" where
  "build_call en m p c = (case BuildRequest en m (Some (map_json (withAPIHandle c p))) c of
      (Inl e, c1) \<Rightarrow> (Inl e, c1) | (Inr (_, buf), c1) \<Rightarrow> (Inr buf, c1))"

definition build_task :: "'w env \<Rightarrow> conn_task \<Rightarrow> 'w conn \<Rightarrow> (call_error + u8 list) \<times> 'w conn" where
  "build_task en t c = (case t of
      TCall m p \<Rightarrow> build_call en m p c
    | TBatch bcs \<Rightarrow> (case build_all en bcs c of
        (Inl e, c1) \<Rightarrow> (Inl e, c1) | (Inr built, c1) \<Rightarrow> (Inr (BuildBatch en built), c1))
    | THandshake name major minor \<Rightarrow> build_call en ''api_sync_v2'' (handshake_params name major minor) c)"

definition reply_result :: "'w env \<Rightarrow> u8 list \<Rightarrow> call_error + json option" where
  "reply_result en reply = (case ParseResponse en reply of
      Inl e \<Rightarrow> Inl e
    | Inr resp \<Rightarrow> (case rp_error resp of Some e \<Rightarrow> Inl (CServer e) | None \<Rightarrow> Inr (rp_result resp)))"

text \<open>What a task makes of the reply: the end of \<open>callLocked\<close>, \<open>CallBatch\<close> and \<open>Handshake\<close>.\<close>

definition parse_task :: "'w env \<Rightarrow> conn_task \<Rightarrow> u8 list \<Rightarrow> 'w conn \<Rightarrow> conn_result \<times> 'w conn" where
  "parse_task en t reply c = (case t of
      TCall _ _ \<Rightarrow> (RCall (reply_result en reply), c)
    | TBatch _ \<Rightarrow> (RBatch (ParseBatchResponse en reply), c)
    | THandshake _ _ _ \<Rightarrow>
        (case reply_result en reply of
           Inl e \<Rightarrow> (RHandshake (Inl (CHandshake e)), c)
         | Inr result \<Rightarrow>
             (case Option.bind result (\<lambda>j. Option.bind (as_obj j) (\<lambda>kvs. dec_str (jget ''api_h'' kvs))) of
                None \<Rightarrow> (RHandshake (Inl CParseHandle), c)
              | Some h \<Rightarrow>
                  (if h = [] then (RHandshake (Inl (CNoHandle result)), c)
                   else (RHandshake (Inr ()), c\<lparr>cn_apiH := h\<rparr>)))))"

text \<open>One action inside the section; a failure leaves with the error of the task.\<close>

fun conn_act :: "'w env \<Rightarrow> conn_task \<Rightarrow> conn_point \<Rightarrow> 'w conn \<Rightarrow> (conn_point + conn_result) \<times> 'w conn" where
  "conn_act en t Building c = (case build_task en t c of
      (Inl e, c1) \<Rightarrow> (Inr (fail_task t e), c1)
    | (Inr payload, c1) \<Rightarrow> (Inl (Framing payload), c1))"
| "conn_act en t (Framing payload) c = (case Frame (en_zlib en) payload of
      Inl e \<Rightarrow> (Inr (fail_task t (CFrame e)), c)
    | Inr framed \<Rightarrow> (Inl (Sending framed), c))"
| "conn_act en t (Sending framed) c = (case en_send en framed (cn_world c) of
      (Some e, w) \<Rightarrow> (Inr (fail_task t (CSend e)), c\<lparr>cn_world := w\<rparr>)
    | (None, w) \<Rightarrow> (Inl Receiving, c\<lparr>cn_world := w\<rparr>))"
| "conn_act en t Receiving c = (case en_recv en (cn_world c) of
      (Inl e, w) \<Rightarrow> (Inr (fail_task t (CRecv e)), c\<lparr>cn_world := w\<rparr>)
    | (Inr [], w) \<Rightarrow> (Inr (fail_task t CEmptyMessage), c\<lparr>cn_world := w\<rparr>)
    | (Inr (f # fs), w) \<Rightarrow>
        (case Deframe (en_zlib en) f of
           Inl e \<Rightarrow> (Inr (fail_task t (CFrame e)), c\<lparr>cn_world := w\<rparr>)
         | Inr reply \<Rightarrow> (Inl (Parsing reply), c\<lparr>cn_world := w\<rparr>)))"
| "conn_act en t (Parsing reply) c = map_prod Inr (\<lambda>c. c) (parse_task en t reply c)"

fun conn_rank :: "conn_point \<Rightarrow> nat" where
  "conn_rank Building = 4"
| "conn_rank (Framing _) = 3"
| "conn_rank (Sending _) = 2"
| "conn_rank Receiving = 1"
| "conn_rank (Parsing _) = 0"

fun_cases conn_act_goes_onE: "conn_act en t p c = (Inl q, c')"

lemma conn_act_rank: "conn_act en t p c = (Inl q, c') \<Longrightarrow> conn_rank q < conn_rank p"
  by (erule conn_act_goes_onE) (auto simp: map_prod_def split: prod.splits sum.splits option.splits list.splits)

text \<open>
  Sending and receiving wait for the socket, without a limit and with the mutex held: \<open>can_send\<close> and
  \<open>can_recv\<close> tell whether they return at all. No other action waits.
\<close>

definition socket_ready :: "('w \<Rightarrow> bool) \<Rightarrow> ('w \<Rightarrow> bool) \<Rightarrow> conn_point \<Rightarrow> 'w conn \<Rightarrow> bool" where
  "socket_ready can_send can_recv p c = (case p of
      Sending _ \<Rightarrow> can_send (cn_world c) | Receiving \<Rightarrow> can_recv (cn_world c) | _ \<Rightarrow> True)"

text \<open>Without a switch the actions make up the operation.\<close>

lemma run_section_parse: "run_section (conn_act en) (Suc 0) t (Parsing reply) c = Some (parse_task en t reply c)"
  by (simp add: map_prod_def split: prod.split)

lemma run_section_receive:
  "run_section (conn_act en) (Suc (Suc 0)) t Receiving c = Some (case en_recv en (cn_world c) of
      (Inl e, w) \<Rightarrow> (fail_task t (CRecv e), c\<lparr>cn_world := w\<rparr>)
    | (Inr [], w) \<Rightarrow> (fail_task t CEmptyMessage, c\<lparr>cn_world := w\<rparr>)
    | (Inr (f # fs), w) \<Rightarrow> (case map_err CFrame (Deframe (en_zlib en) f) of
        Inl e \<Rightarrow> (fail_task t e, c\<lparr>cn_world := w\<rparr>)
      | Inr reply \<Rightarrow> parse_task en t reply (c\<lparr>cn_world := w\<rparr>)))"
  by (subst run_section.simps(2))
    (simp add: run_section_parse del: run_section.simps(2) split: prod.split sum.split list.split)

lemma run_section_trip:
  "run_section (conn_act en) (Suc (Suc (Suc (Suc 0)))) t (Framing payload) c = Some (case roundTrip en payload c of
      (Inl e, c1) \<Rightarrow> (fail_task t e, c1) | (Inr reply, c1) \<Rightarrow> parse_task en t reply c1)"
proof (cases "Frame (en_zlib en) payload")
  case (Inr framed)
  then show ?thesis
    by (simp add: run_section_receive roundTrip_def run_section.simps(2) [of _ "Suc (Suc 0)"]
        run_section.simps(2) [of _ "Suc (Suc (Suc 0))"] del: run_section.simps(2)
        split: prod.split sum.split option.split list.split)
qed (simp add: roundTrip_def)

lemma run_section_conn: "run_section (conn_act en) (Suc (conn_rank Building)) t Building c = Some (run_task en t c)"
proof -
  have "run_task en t c = (case build_task en t c of
      (Inl e, c1) \<Rightarrow> (fail_task t e, c1)
    | (Inr payload, c1) \<Rightarrow> (case roundTrip en payload c1 of
        (Inl e, c2) \<Rightarrow> (fail_task t e, c2) | (Inr reply, c2) \<Rightarrow> parse_task en t reply c2))"
    by (cases t) (auto simp: run_task_def build_task_def build_call_def parse_task_def fail_task_def reply_result_def
        Call_def callLocked_def CallBatch_def Handshake_def handshake_params_def Let_def
        split: sum.split prod.split option.split)
  moreover have "Suc (conn_rank Building) = Suc (Suc (Suc (Suc (Suc 0))))"
    by simp
  ultimately show ?thesis
    by (simp only: run_section.simps(2) [of _ "Suc (Suc (Suc (Suc 0)))"] conn_act.simps(1))
      (simp add: run_section_trip del: run_section.simps(2) split: sum.split prod.split)
qed

interpretation conn: critical_section "conn_act en" Building conn_rank "run_task en"
  for en :: "'w env"
  by unfold_locales (rule conn_act_rank, assumption, rule run_section_conn)

section \<open>Calls over a link\<close>

text \<open>Calls made one after another over a channel in lock step to a server.\<close>

lemma calls_in_order:
  assumes "zlib_round_trip zl" "json_codec wr rd"
    and "\<forall>i \<in> set is. \<exists>m p. ts ! i = TCall m p \<and> params_ok p"
  shows "lk_reply (cn_world c) = None \<Longrightarrow> run_in_order (run_task (link_env zl wr rd srv big)) ts is c = (res, c') \<Longrightarrow>
    \<exists>rs. lk_log (cn_world c') = lk_log (cn_world c) @ rs \<and> length rs = length is \<and>
      res = map RCall (replies srv rs (lk_server (cn_world c))) \<and>
      (\<forall>k < length is. \<exists>m p. ts ! (is ! k) = TCall m p \<and>
         sends (cn_apiH c) (cn_idCounter c + of_nat k) m p (rs ! k))"
  using assms(3)
proof (induction "is" arbitrary: c res)
  case (Cons i "is")
  obtain m p where t: "ts ! i = TCall m p" "params_ok p"
    using Cons.prems(3) by auto
  obtain r where r: "sends (cn_apiH c) (cn_idCounter c) m p r"
    and call: "abstract_call srv m p c = (read_reply (fst (srv r (lk_server (cn_world c)))),
      c\<lparr>cn_idCounter := cn_idCounter c + 1, cn_world :=
        \<lparr>lk_server = snd (srv r (lk_server (cn_world c))), lk_reply = None, lk_log = lk_log (cn_world c) @ [r]\<rparr>\<rparr>)"
    (is "_ = (?x, ?c1)")
    using abstract_call_sends [OF t(2), of c m srv] by blast
  have "run_task (link_env zl wr rd srv big) (ts ! i) c = (RCall ?x, ?c1)"
    by (simp add: run_task_def t Call_def callLocked_abstract [OF assms(1,2) Cons.prems(1)] call)
  then obtain res' where res': "run_in_order (run_task (link_env zl wr rd srv big)) ts is ?c1 = (res', c')" "res = RCall ?x # res'"
    using Cons.prems(2) by (auto split: prod.splits)
  have "lk_reply (cn_world ?c1) = None" "\<forall>i \<in> set is. \<exists>m p. ts ! i = TCall m p \<and> params_ok p"
    using Cons.prems(3) by simp_all
  from Cons.IH [OF this(1) res'(1) this(2)] obtain rs where rs: "lk_log (cn_world c') = lk_log (cn_world ?c1) @ rs"
    "length rs = length is" "res' = map RCall (replies srv rs (lk_server (cn_world ?c1)))"
    "\<And>k. k < length is \<Longrightarrow> \<exists>m p. ts ! (is ! k) = TCall m p \<and>
       sends (cn_apiH c) (cn_idCounter c + 1 + of_nat k) m p (rs ! k)"
    by auto
  show ?case
  proof (intro exI [of _ "r # rs"] conjI allI impI)
    fix k assume "k < length (i # is)"
    then show "\<exists>m p. ts ! ((i # is) ! k) = TCall m p \<and>
        sends (cn_apiH c) (cn_idCounter c + of_nat k) m p ((r # rs) ! k)"
      using t r rs(4) [of "k - 1"] by (cases k) (auto simp: ac_simps)
  qed (use rs res'(2) in simp_all)
qed simp

section \<open>Properties\<close>

text \<open>C4: goroutines that share a connection cannot disturb each other: however their calls,
  batches and handshakes interleave, whenever the mutex is free all of those that have begun have
  returned, with the results and the connection that they give when run one after another, each
  as one action, in the order in which they took the lock; also when calls fail.\<close>

theorem calls_linearizable:
  assumes "(mutex_step (socket_ready can_send can_recv) (conn_act en) Building ts)\<^sup>*\<^sup>* (system_start ts c0) s" "sy_owner s = None"
  shows "\<exists>rs. run_in_order (run_task en) ts (sy_order s) c0 = (rs, sy_shared s) \<and>
    list_all2 (\<lambda>i r. sy_phases s ! i = Finished r) (sy_order s) rs \<and> distinct (sy_order s) \<and>
    set (sy_order s) = {i. i < length ts \<and> sy_phases s ! i \<noteq> Waiting}"
  by (rule conn.reachable_free [OF assms]) blast

text \<open>C5: every goroutine gets the reply to its own request: over a channel in lock step to any
  server, interleaved calls send one request each, in the order of the lock, with consecutive ids,
  the parameters of the caller and the API handle, and each caller is given what the server said
  to that very request.\<close>

theorem calls_own_reply:
  assumes "zlib_round_trip zl" "json_codec wr rd" "lk_reply (cn_world c0) = None"
    and "\<forall>t \<in> set ts. \<exists>m p. t = TCall m p \<and> params_ok p"
    and "(mutex_step (socket_ready can_send can_recv) (conn_act (link_env zl wr rd srv big)) Building ts)\<^sup>*\<^sup>* (system_start ts c0) s"
    and "sy_owner s = None"
  shows "\<exists>rs. lk_log (cn_world (sy_shared s)) = lk_log (cn_world c0) @ rs \<and> length rs = length (sy_order s) \<and>
    (\<forall>k < length rs. \<exists>m p. ts ! (sy_order s ! k) = TCall m p \<and>
       sends (cn_apiH c0) (cn_idCounter c0 + of_nat k) m p (rs ! k) \<and>
       sy_phases s ! (sy_order s ! k) = Finished (RCall (replies srv rs (lk_server (cn_world c0)) ! k)))"
proof (rule conn.reachable_free [OF assms(5,6)])
  fix res
  assume run: "run_in_order (run_task (link_env zl wr rd srv big)) ts (sy_order s) c0 = (res, sy_shared s)"
    and fin: "list_all2 (\<lambda>i r. sy_phases s ! i = Finished r) (sy_order s) res"
    and "set (sy_order s) = {i. i < length ts \<and> sy_phases s ! i \<noteq> Waiting}"
  then have "\<forall>i \<in> set (sy_order s). \<exists>m p. ts ! i = TCall m p \<and> params_ok p"
    using assms(4) by auto
  from calls_in_order [OF assms(1,2) this assms(3) run] obtain rs where rs:
    "lk_log (cn_world (sy_shared s)) = lk_log (cn_world c0) @ rs" "length rs = length (sy_order s)"
    "res = map RCall (replies srv rs (lk_server (cn_world c0)))"
    "\<forall>k < length (sy_order s). \<exists>m p. ts ! (sy_order s ! k) = TCall m p \<and>
       sends (cn_apiH c0) (cn_idCounter c0 + of_nat k) m p (rs ! k)"
    by blast
  have "sy_phases s ! (sy_order s ! k) = Finished (RCall (replies srv rs (lk_server (cn_world c0)) ! k))"
    if "k < length rs" for k
    using fin that rs(2,3) by (simp add: list_all2_conv_all_nth)
  with rs show ?thesis
    by (intro exI [of _ rs]) auto
qed

text \<open>C6: no interleaving goes on for ever, and the mutex alone never deadlocks: \<open>n\<close> goroutines that
  call over a connection make at most seven steps each, whatever fails; and when none can make
  another step, either all have returned and the mutex is free, or its owner waits for a socket
  that never lets it send or never gives it a reply, and every other goroutine has returned or
  waits for the mutex.\<close>

theorem calls_progress:
  assumes "((mutex_step (socket_ready can_send can_recv) (conn_act en) Building ts) ^^ k) (system_start ts c0) s"
  shows "k \<le> 7 * length ts \<and>
    ((\<forall>s'. \<not> mutex_step (socket_ready can_send can_recv) (conn_act en) Building ts s s') \<longrightarrow>
      sy_owner s = None \<and> (\<forall>i < length ts. \<exists>r. sy_phases s ! i = Finished r) \<or>
      (\<exists>i < length ts. sy_owner s = Some i \<and>
        ((\<exists>framed. sy_phases s ! i = Inside (Sending framed)) \<and> \<not> can_send (cn_world (sy_shared s)) \<or>
         sy_phases s ! i = Inside Receiving \<and> \<not> can_recv (cn_world (sy_shared s))) \<and>
        (\<forall>j < length ts. j \<noteq> i \<longrightarrow> sy_phases s ! j = Waiting \<or> (\<exists>r. sy_phases s ! j = Finished r))))"
proof (intro conjI impI)
  show "k \<le> 7 * length ts"
    using conn.steps_bounded [OF assms] by simp
  assume stuck: "\<forall>s'. \<not> mutex_step (socket_ready can_send can_recv) (conn_act en) Building ts s s'"
  have reach: "(mutex_step (socket_ready can_send can_recv) (conn_act en) Building ts)\<^sup>*\<^sup>* (system_start ts c0) s"
    using assms by (rule relpowp_imp_rtranclp)
  note inv = conn.linear_reachable [OF reach]
  show "sy_owner s = None \<and> (\<forall>i < length ts. \<exists>r. sy_phases s ! i = Finished r) \<or>
      (\<exists>i < length ts. sy_owner s = Some i \<and>
        ((\<exists>framed. sy_phases s ! i = Inside (Sending framed)) \<and> \<not> can_send (cn_world (sy_shared s)) \<or>
         sy_phases s ! i = Inside Receiving \<and> \<not> can_recv (cn_world (sy_shared s))) \<and>
        (\<forall>j < length ts. j \<noteq> i \<longrightarrow> sy_phases s ! j = Waiting \<or> (\<exists>r. sy_phases s ! j = Finished r)))"
  proof (cases "\<forall>i < length ts. \<exists>r. sy_phases s ! i = Finished r")
    case True
    then have "sy_owner s = None"
      using conn.owner_inside [OF inv] by (metis option.exhaust)
    with True show ?thesis by simp
  next
    case False
    then obtain i p where i: "sy_owner s = Some i" "sy_phases s ! i = Inside p" "\<not> socket_ready can_send can_recv p (sy_shared s)"
      using conn.no_deadlock [OF reach] stuck by blast
    then have "(\<exists>framed. p = Sending framed) \<and> \<not> can_send (cn_world (sy_shared s)) \<or>
        p = Receiving \<and> \<not> can_recv (cn_world (sy_shared s))"
      by (cases p) (simp_all add: socket_ready_def)
    moreover have "i < length ts"
      using conn.owner_inside [OF inv i(1)] by simp
    moreover have "sy_phases s ! j = Waiting \<or> (\<exists>r. sy_phases s ! j = Finished r)" if "j < length ts" "j \<noteq> i" for j
      using conn.linear_owner [OF inv that(1)] i(1) that(2) by auto
    ultimately show ?thesis
      using i(1,2) by (intro disjI2 exI [of _ i]) auto
  qed
qed

section \<open>Witnesses\<close>

text \<open>Two goroutines that call over one connection, to a server that always answers.\<close>

abbreviation always_ready :: "conn_point \<Rightarrow> nat link conn \<Rightarrow> bool" where
  "always_ready \<equiv> socket_ready (\<lambda>_. True) (\<lambda>_. True)"

definition two_calls :: "conn_task list" where
  "two_calls = [TCall ''ping'' None, TCall ''get_version'' None]"

lemma two_calls_run:
  obtains s where "(mutex_step always_ready (conn_act sample_env) Building two_calls)\<^sup>*\<^sup>* (system_start two_calls sample_conn) s"
    "sy_owner s = None" "sy_phases s ! 0 \<noteq> Waiting" "sy_phases s ! 1 \<noteq> Waiting"
proof (rule conn.run_to_end [of always_ready sample_env two_calls sample_conn])
  show "always_ready p c" for p c
    by (simp add: socket_ready_def split: conn_point.split)
next
  fix s assume "(mutex_step always_ready (conn_act sample_env) Building two_calls)\<^sup>*\<^sup>* (system_start two_calls sample_conn) s"
    and "sy_owner s = None" and fin: "\<forall>i < length two_calls. \<exists>r. sy_phases s ! i = Finished r"
  moreover from fin have "\<exists>r. sy_phases s ! 0 = Finished r" "\<exists>r. sy_phases s ! 1 = Finished r"
    by (simp_all add: two_calls_def)
  then have "sy_phases s ! 0 \<noteq> Waiting" "sy_phases s ! 1 \<noteq> Waiting"
    by auto
  ultimately show thesis using that by blast
qed

theorem calls_linearizable_witness:
  "\<exists>s rs. (mutex_step always_ready (conn_act sample_env) Building two_calls)\<^sup>*\<^sup>* (system_start two_calls sample_conn) s \<and>
    run_in_order (run_task sample_env) two_calls (sy_order s) sample_conn = (rs, sy_shared s) \<and>
    set (sy_order s) = {0, 1}"
proof (rule two_calls_run)
  fix s assume s: "(mutex_step always_ready (conn_act sample_env) Building two_calls)\<^sup>*\<^sup>* (system_start two_calls sample_conn) s"
    "sy_owner s = None" "sy_phases s ! 0 \<noteq> Waiting" "sy_phases s ! 1 \<noteq> Waiting"
  obtain rs where rs: "run_in_order (run_task sample_env) two_calls (sy_order s) sample_conn = (rs, sy_shared s)"
    "set (sy_order s) = {i. i < length two_calls \<and> sy_phases s ! i \<noteq> Waiting}"
    using calls_linearizable [OF s(1,2)] by blast
  have "i < length two_calls \<longleftrightarrow> i = 0 \<or> i = 1" for i
    by (auto simp: two_calls_def)
  with s(3,4) have "{i. i < length two_calls \<and> sy_phases s ! i \<noteq> Waiting} = {0, 1}"
    by auto
  with rs s(1) show ?thesis
    by (intro exI [of _ s] exI [of _ rs]) simp
qed

theorem calls_own_reply_witness:
  "\<exists>s rs. (mutex_step always_ready (conn_act sample_env) Building two_calls)\<^sup>*\<^sup>* (system_start two_calls sample_conn) s \<and>
    sy_order s \<noteq> [] \<and> lk_log (cn_world (sy_shared s)) = rs \<and> length rs = length (sy_order s) \<and>
    sy_phases s ! hd (sy_order s) = Finished (RCall (replies sample_server rs 0 ! 0))"
proof (rule two_calls_run)
  fix s assume s: "(mutex_step always_ready (conn_act sample_env) Building two_calls)\<^sup>*\<^sup>* (system_start two_calls sample_conn) s"
    "sy_owner s = None" "sy_phases s ! 0 \<noteq> Waiting" "sy_phases s ! 1 \<noteq> Waiting"
  have ne: "sy_order s \<noteq> []"
  proof (rule conn.reachable_free [OF s(1,2)])
    assume "set (sy_order s) = {i. i < length two_calls \<and> sy_phases s ! i \<noteq> Waiting}"
    moreover have "0 < length two_calls"
      by (simp add: two_calls_def)
    ultimately have "0 \<in> set (sy_order s)"
      using s(3) by simp
    then show ?thesis
      by (rule length_pos_if_in_set [THEN length_greater_0_conv [THEN iffD1]])
  qed
  have "\<forall>t \<in> set two_calls. \<exists>m p. t = TCall m p \<and> params_ok p"
    by (simp add: two_calls_def)
  from calls_own_reply [OF stored_zlib_round_trip unary_codec sample_conn_ready this s(1,2)] obtain rs where rs:
    "lk_log (cn_world (sy_shared s)) = lk_log (cn_world sample_conn) @ rs" "length rs = length (sy_order s)"
    "\<And>k. k < length rs \<Longrightarrow> sy_phases s ! (sy_order s ! k) =
       Finished (RCall (replies sample_server rs (lk_server (cn_world sample_conn)) ! k))"
    by blast
  have "sy_phases s ! hd (sy_order s) = Finished (RCall (replies sample_server rs 0 ! 0))"
    using rs(3) [of 0] rs(2) ne by (simp add: sample_conn_def hd_conv_nth)
  moreover have "lk_log (cn_world (sy_shared s)) = rs"
    using rs(1) by (simp add: sample_conn_def)
  ultimately show ?thesis
    using ne s(1) rs(2) by blast
qed

theorem calls_progress_witness:
  "\<exists>k s. ((mutex_step always_ready (conn_act sample_env) Building two_calls) ^^ k) (system_start two_calls sample_conn) s \<and>
    0 < k \<and> k \<le> 14"
proof (rule two_calls_run)
  fix s assume s: "(mutex_step always_ready (conn_act sample_env) Building two_calls)\<^sup>*\<^sup>* (system_start two_calls sample_conn) s"
    "sy_phases s ! 0 \<noteq> Waiting"
  then obtain k where k: "((mutex_step always_ready (conn_act sample_env) Building two_calls) ^^ k) (system_start two_calls sample_conn) s"
    using rtranclp_imp_relpowp [of _ "system_start two_calls sample_conn" s] by blast
  have "k \<noteq> 0"
  proof
    assume "k = 0"
    then have "s = system_start two_calls sample_conn"
      using k by simp
    then show False
      using s(2) by (simp add: system_start_def two_calls_def)
  qed
  moreover have "k \<le> 7 * length two_calls"
    using calls_progress [OF k] by (rule conjunct1)
  moreover have "length two_calls = 2"
    by (simp add: two_calls_def)
  ultimately show ?thesis
    using k by (intro exI [of _ k] exI [of _ s]) simp
qed

end
