(* ===== verification/Rpc_Subscriber.thy ===== *)
theory Rpc_Subscriber
  imports Rpc_Connection
begin

text \<open>
  The asynchronous subscriber: \<open>pkg/rpc/subscriber.go\<close>. Its goroutine is a function of the
  messages that arrive on the publisher socket; the dispatcher is a parameter acting on a
  state \<open>'d\<close>, and the errors handed to \<open>onError\<close> are recorded in order.
\<close>

section \<open>Events\<close>

record async_event =
  ae_name :: string
  ae_type :: int
  ae_seq :: u64
  ae_baseline :: bool
  ae_data :: "json option"

definition dec_event :: "json \<Rightarrow> async_event option" where
  "dec_event j = (case as_obj j of None \<Rightarrow> None | Some kvs \<Rightarrow>
     (case (dec_str (jget ''name'' kvs), dec_int (jget ''type'' kvs), dec_u64 (jget ''seq'' kvs),
            dec_bool (jget ''baseline'' kvs)) of
        (Some nm, Some ty, Some sq, Some bl) \<Rightarrow>
          Some \<lparr>ae_name = nm, ae_type = ty, ae_seq = sq, ae_baseline = bl, ae_data = jget ''data'' kvs\<rparr>
      | _ \<Rightarrow> None))"

datatype sub_error =
    SubRecv string
  | SubDeframe frame_error
  | SubDecode
  | SubPull call_error
  | SubDecodeEvents
  | SubSeqGap u64 u64 string

text \<open>The subscriber's own state: the expected sequence number, the errors, the dispatcher.\<close>

record 'd sub =
  sb_seq :: u64
  sb_errors :: "sub_error list"
  sb_disp :: 'd

definition onError :: "sub_error \<Rightarrow> 'd sub \<Rightarrow> 'd sub" where
  "onError e s = s\<lparr>sb_errors := sb_errors s @ [e]\<rparr>"

definition checkSeq :: "u64 \<Rightarrow> u64 \<Rightarrow> u64 \<times> bool" where
  "checkSeq expected got =
     (if expected \<noteq> 0 \<and> got \<noteq> 0 \<and> got \<noteq> expected then (got + 1, False) else (got + 1, True))"

text \<open>The loop of \<open>pull\<close> over the pulled events.\<close>

fun pull_events :: "(async_event \<Rightarrow> 'd \<Rightarrow> 'd) \<Rightarrow> async_event list \<Rightarrow> 'd sub \<Rightarrow> 'd sub" where
  "pull_events dispatch [] s = s"
| "pull_events dispatch (ev # evs) s =
     (let (nxt, ok) = checkSeq (sb_seq s) (ae_seq ev);
          s1 = (if \<not> ok then onError (SubSeqGap (sb_seq s) (ae_seq ev) (ae_name ev)) s else s);
          s2 = s1\<lparr>sb_seq := nxt\<rparr> in
      pull_events dispatch evs (s2\<lparr>sb_disp := dispatch ev (sb_disp s2)\<rparr>))"

definition dec_events :: "json option \<Rightarrow> async_event list option" where
  "dec_events result = Option.bind result (\<lambda>j. Option.bind (as_obj j) (\<lambda>kvs. dec_list dec_event (jget ''data'' kvs)))"

definition pull ::
  "'w env \<Rightarrow> (async_event \<Rightarrow> 'd \<Rightarrow> 'd) \<Rightarrow> u32 \<Rightarrow> 'w conn \<times> 'd sub \<Rightarrow> 'w conn \<times> 'd sub" where
  "pull en dispatch sessionID cs = (case cs of (c, s) \<Rightarrow>
     (case Call en ''get_async_events''
             (Some [(''session_id'', Some (JInt (uint sessionID))), (''user'', Some (JStr ''sub''))]) c of
        (Inl e, c') \<Rightarrow> (c', onError (SubPull e) s)
      | (Inr result, c') \<Rightarrow>
          (case dec_events result of
             None \<Rightarrow> (c', onError SubDecodeEvents s)
           | Some evs \<Rightarrow> (c', pull_events dispatch evs s))))"

definition handle_msg ::
  "'w env \<Rightarrow> (async_event \<Rightarrow> 'd \<Rightarrow> 'd) \<Rightarrow> u32 \<Rightarrow> u8 list \<Rightarrow> 'w conn \<times> 'd sub \<Rightarrow> 'w conn \<times> 'd sub" where
  "handle_msg en dispatch sessionID raw cs = (case cs of (c, s) \<Rightarrow>
     (case Deframe (en_zlib en) raw of
        Inl e \<Rightarrow> (c, onError (SubDeframe e) s)
      | Inr payload \<Rightarrow>
          (case Option.bind (en_read en payload) dec_event of
             None \<Rightarrow> (c, onError SubDecode s)
           | Some ev \<Rightarrow>
               (if ae_name ev = [] then pull en dispatch sessionID (c, s)
                else (c, s\<lparr>sb_disp := dispatch ev (sb_disp s)\<rparr>)))))"

text \<open>
  What one turn of the loop of \<open>Run\<close> meets: the context is cancelled before the receive, the
  receive fails (with the context cancelled meanwhile or not), or a message arrives.
\<close>

datatype sub_input = Cancelled | RecvFailed bool string | Message "u8 list"

text \<open>The result tells whether the loop has returned; otherwise it waits for more input.\<close>

fun Run ::
  "'w env \<Rightarrow> (async_event \<Rightarrow> 'd \<Rightarrow> 'd) \<Rightarrow> u32 \<Rightarrow> sub_input list \<Rightarrow> 'w conn \<times> 'd sub \<Rightarrow>
   bool \<times> 'w conn \<times> 'd sub" where
  "Run en dispatch sessionID [] cs = (False, cs)"
| "Run en dispatch sessionID (Cancelled # inp) cs = (True, cs)"
| "Run en dispatch sessionID (RecvFailed cancelled e # inp) cs =
     (if cancelled then (True, cs) else (True, (fst cs, onError (SubRecv e) (snd cs))))"
| "Run en dispatch sessionID (Message raw # inp) cs =
     Run en dispatch sessionID inp (handle_msg en dispatch sessionID raw cs)"

section \<open>Dispatchers\<close>

text \<open>
  What a dispatcher promises the subscriber: an invariant of its state, and a preorder its
  state moves along whatever event it is given.
\<close>

locale dispatcher =
  fixes dispatch :: "async_event \<Rightarrow> 'd \<Rightarrow> 'd"
    and inv :: "'d \<Rightarrow> bool"
    and progress :: "'d \<Rightarrow> 'd \<Rightarrow> bool"
  assumes inv_dispatch: "inv d \<Longrightarrow> inv (dispatch ev d)"
    and progress_dispatch: "inv d \<Longrightarrow> progress d (dispatch ev d)"
    and progress_refl: "progress d d"
    and progress_trans: "progress d e \<Longrightarrow> progress e f \<Longrightarrow> progress d f"
begin

lemma pull_events_keeps:
  "inv (sb_disp s) \<Longrightarrow> inv (sb_disp (pull_events dispatch evs s)) \<and>
     progress (sb_disp s) (sb_disp (pull_events dispatch evs s))"
proof (induction evs arbitrary: s)
  case (Cons ev evs)
  let ?s = "(if \<not> snd (checkSeq (sb_seq s) (ae_seq ev))
      then onError (SubSeqGap (sb_seq s) (ae_seq ev) (ae_name ev)) s else s)
      \<lparr>sb_seq := fst (checkSeq (sb_seq s) (ae_seq ev)), sb_disp := dispatch ev (sb_disp s)\<rparr>"
  have "pull_events dispatch (ev # evs) s = pull_events dispatch evs ?s"
    by (simp add: Let_def case_prod_beta onError_def)
  moreover have "inv (sb_disp ?s)" and first: "progress (sb_disp s) (sb_disp ?s)"
    using Cons.prems by (simp_all add: inv_dispatch progress_dispatch)
  note Cons.IH [OF this(1)]
  ultimately show ?case
    using progress_trans [OF first] by simp
qed (simp add: progress_refl)

lemma handle_keeps:
  assumes "inv (sb_disp (snd cs))"
  shows "inv (sb_disp (snd (handle_msg en dispatch sid raw cs))) \<and>
    progress (sb_disp (snd cs)) (sb_disp (snd (handle_msg en dispatch sid raw cs)))"
proof -
  obtain c s where cs: "cs = (c, s)" by fastforce
  have "inv (sb_disp (snd (pull en dispatch sid (c, s)))) \<and>
      progress (sb_disp s) (sb_disp (snd (pull en dispatch sid (c, s))))"
    using assms cs pull_events_keeps [of s]
    by (simp add: pull_def onError_def progress_refl split: prod.split sum.split option.split)
  then show ?thesis
    using assms cs
    by (simp add: handle_msg_def onError_def progress_refl inv_dispatch progress_dispatch
        split: sum.split option.split)
qed

lemma Run_keeps:
  "inv (sb_disp (snd cs)) \<Longrightarrow> inv (sb_disp (snd (snd (Run en dispatch sid inp cs)))) \<and>
     progress (sb_disp (snd cs)) (sb_disp (snd (snd (Run en dispatch sid inp cs))))"
proof (induction inp arbitrary: cs)
  case (Cons i inp)
  show ?case
  proof (cases i)
    case (Message raw)
    let ?cs = "handle_msg en dispatch sid raw cs"
    have "inv (sb_disp (snd ?cs))" and first: "progress (sb_disp (snd cs)) (sb_disp (snd ?cs))"
      using handle_keeps [OF Cons.prems, of en sid raw] by simp_all
    note Cons.IH [OF this(1)]
    with progress_trans [OF first] show ?thesis
      by (simp add: Message)
  qed (use Cons.prems in \<open>simp_all add: progress_refl onError_def\<close>)
qed (simp add: progress_refl)

end

section \<open>Lemmas\<close>

text \<open>The sequence number expected when event \<open>i\<close> of a reply is looked at.\<close>

definition expected_at :: "u64 \<Rightarrow> async_event list \<Rightarrow> nat \<Rightarrow> u64" where
  "expected_at start evs i = (if i = 0 then start else ae_seq (evs ! (i - 1)) + 1)"

definition is_gap :: "u64 \<Rightarrow> u64 \<Rightarrow> bool" where
  "is_gap expected got \<longleftrightarrow> expected \<noteq> 0 \<and> got \<noteq> 0 \<and> got \<noteq> expected"

definition gap_errors :: "u64 \<Rightarrow> async_event list \<Rightarrow> sub_error list" where
  "gap_errors start evs =
     map (\<lambda>i. SubSeqGap (expected_at start evs i) (ae_seq (evs ! i)) (ae_name (evs ! i)))
       (filter (\<lambda>i. is_gap (expected_at start evs i) (ae_seq (evs ! i))) [0..<length evs])"

lemma checkSeq_eq: "checkSeq e g = (g + 1, \<not> is_gap e g)"
  by (simp add: checkSeq_def is_gap_def)

lemma gap_errors_Cons:
  "gap_errors start (ev # evs) =
     (if is_gap start (ae_seq ev) then [SubSeqGap start (ae_seq ev) (ae_name ev)] else [])
     @ gap_errors (ae_seq ev + 1) evs"
proof -
  have "expected_at start (ev # evs) (Suc i) = expected_at (ae_seq ev + 1) evs i" for i
    by (cases i) (simp_all add: expected_at_def)
  moreover have "[0..<length (ev # evs)] = 0 # map Suc [0..<length evs]"
    by (simp only: list.size(4) add_0_right add_Suc_right map_Suc_upt upt_conv_Cons [OF zero_less_Suc])
  moreover have "expected_at start (ev # evs) 0 = start"
    by (simp add: expected_at_def)
  ultimately show ?thesis
    unfolding gap_errors_def by (simp add: filter_map comp_def)
qed

lemma pull_events_eq:
  "pull_events dispatch evs s = s\<lparr>
     sb_seq := (if evs = [] then sb_seq s else ae_seq (last evs) + 1),
     sb_errors := sb_errors s @ gap_errors (sb_seq s) evs,
     sb_disp := fold dispatch evs (sb_disp s)\<rparr>"
proof (induction evs arbitrary: s)
  case Nil
  then show ?case by (simp add: gap_errors_def)
next
  case (Cons ev evs)
  show ?case
    by (simp add: checkSeq_eq onError_def Cons.IH gap_errors_Cons)
qed

section \<open>Properties\<close>

text \<open>C37: the events of a pull are all handed to the dispatcher, in order and each once,
  whatever their sequence numbers; one error is reported for each event whose number is not
  the successor of the one before it (zero on either side is a wild card), naming the number
  that was expected; and the subscriber is in step with the last event afterwards.\<close>

theorem pull_events_gaps:
  "sb_disp (pull_events dispatch evs s) = fold dispatch evs (sb_disp s) \<and>
   sb_errors (pull_events dispatch evs s) = sb_errors s @ gap_errors (sb_seq s) evs \<and>
   (evs \<noteq> [] \<longrightarrow> sb_seq (pull_events dispatch evs s) = ae_seq (last evs) + 1)"
  by (simp add: pull_events_eq)

definition ev_nr :: "u64 \<Rightarrow> async_event" where
  "ev_nr n = \<lparr>ae_name = ''trex-event'', ae_type = 4, ae_seq = n, ae_baseline = False, ae_data = None\<rparr>"

theorem pull_events_gaps_witness:
  "sb_seq (pull_events (\<lambda>ev. Suc) [ev_nr 5, ev_nr 9] \<lparr>sb_seq = 5, sb_errors = [], sb_disp = 0\<rparr>) = 10 \<and>
   sb_disp (pull_events (\<lambda>ev. Suc) [ev_nr 5, ev_nr 9] \<lparr>sb_seq = 5, sb_errors = [], sb_disp = (0::nat)\<rparr>) = 2"
  using pull_events_gaps [of "\<lambda>ev. Suc" "[ev_nr 5, ev_nr 9]" "\<lparr>sb_seq = 5, sb_errors = [], sb_disp = 0\<rparr>"]
  by (simp del: pull_events.simps add: ev_nr_def)

text \<open>an empty trigger on the publisher socket makes the subscriber ask the server for the
  queued events of its own session, with one request over the shared connection, and hand
  those that the reply lists to the dispatcher; any other message is dispatched without a
  request.\<close>

theorem handle_trigger:
  assumes "zlib_round_trip zl" "json_codec wr rd" "lk_reply (cn_world c) = None"
    and "Deframe zl raw = Inr (wr j)" "dec_event j = Some ev"
  shows "case handle_msg (link_env zl wr rd srv big) dispatch sid raw (c, s) of (c', s') \<Rightarrow>
    if ae_name ev \<noteq> [] then c' = c \<and> s' = s\<lparr>sb_disp := dispatch ev (sb_disp s)\<rparr>
    else \<exists>r. lk_log (cn_world c') = lk_log (cn_world c) @ [r] \<and> req_method r = ''get_async_events'' \<and>
      req_param ''session_id'' r = Some (JInt (uint sid)) \<and>
      (\<forall>evs. dec_events (case read_reply (fst (srv r (lk_server (cn_world c)))) of Inr res \<Rightarrow> res | Inl _ \<Rightarrow> None)
          = Some evs \<longrightarrow> s' = pull_events dispatch evs s)"
proof -
  let ?en = "link_env zl wr rd srv big"
  let ?ps = "Some [(''session_id'', Some (JInt (uint sid))), (''user'', Some (JStr ''sub''))]"
  have sel: "Deframe (en_zlib ?en) raw = Inr (wr j)" "en_read ?en (wr j) = Some j"
    using assms(2,4) by (simp_all add: link_env_def json_codec_def)
  have ok: "params_ok ?ps"
    by (simp add: params_ok_def entries_def)
  obtain r where r: "sends (cn_apiH c) (cn_idCounter c) ''get_async_events'' ?ps r"
    and call: "Call ?en ''get_async_events'' ?ps c =
      (read_reply (fst (srv r (lk_server (cn_world c)))),
       c\<lparr>cn_idCounter := cn_idCounter c + 1, cn_world :=
         \<lparr>lk_server = snd (srv r (lk_server (cn_world c))), lk_reply = None,
          lk_log = lk_log (cn_world c) @ [r]\<rparr>\<rparr>)"
    using abstract_call_sends [OF ok, of c "''get_async_events''" srv]
    unfolding Call_def callLocked_abstract [OF assms(1-3)] by blast
  have req: "req_method r = ''get_async_events''" "req_param ''session_id'' r = Some (JInt (uint sid))"
    using r by (simp_all add: sends_def entries_def)
  show ?thesis
  proof (cases "ae_name ev = []")
    case False
    then show ?thesis
      by (simp add: handle_msg_def sel assms(5))
  next
    case True
    then have "handle_msg ?en dispatch sid raw (c, s) = pull ?en dispatch sid (c, s)"
      by (simp add: handle_msg_def sel assms(5))
    then show ?thesis
      using True req call
      by (auto simp: pull_def dec_events_def split: sum.splits option.splits)
  qed
qed

theorem handle_trigger_witness:
  "\<exists>r. lk_log (cn_world (fst (handle_msg sample_env (\<lambda>ev. Suc) 7 (unary_write (JObj []))
       (sample_conn, \<lparr>sb_seq = 0, sb_errors = [], sb_disp = (0::nat)\<rparr>)))) = [r] \<and>
     req_method r = ''get_async_events''"
proof -
  have d: "Deframe stored_zlib (unary_write (JObj [])) = Inr (unary_write (JObj []))"
    using unary_codec by (simp add: Deframe_def json_codec_def)
  have ev: "dec_event (JObj []) = Some \<lparr>ae_name = [], ae_type = 0, ae_seq = 0, ae_baseline = False, ae_data = None\<rparr>"
    by (simp add: dec_event_def as_obj_def dec_str_def dec_int_def dec_u64_def dec_bool_def)
  show ?thesis
    using handle_trigger [OF stored_zlib_round_trip unary_codec sample_conn_ready d ev,
        where srv = sample_server and big = "\<lambda>_. True" and dispatch = "\<lambda>ev. Suc" and sid = 7
          and s = "\<lparr>sb_seq = 0, sb_errors = [], sb_disp = 0\<rparr>"]
    by (auto simp: sample_conn_def split: prod.splits)
qed

end
