(* ===== verification/Stats_Store.thy ===== *)
theory Stats_Store
  imports Rpc_Subscriber Go_Strconv
begin

text \<open>
  The store of asynchronous statistics and the counters read from it:
  \<open>pkg/stats/store.go\<close> and \<open>pkg/stats/global.go\<close>. Each operation holds the lock of the
  store, so it is one step; a payload is the raw JSON of the event, \<open>None\<close> when the event had
  no data.
\<close>

section \<open>The store\<close>

record store =
  so_latest :: "string \<rightharpoonup> json option"
  so_ref :: "string \<rightharpoonup> json option"
  so_gen :: u64

definition NewStore :: store where
  "NewStore = \<lparr>so_latest = Map.empty, so_ref = Map.empty, so_gen = 0\<rparr>"

definition Store_Dispatch :: "async_event \<Rightarrow> store \<Rightarrow> store" where
  "Store_Dispatch ev s = s\<lparr>so_latest := (so_latest s)(ae_name ev \<mapsto> ae_data ev), so_gen := so_gen s + 1\<rparr>"

definition Generation :: "store \<Rightarrow> u64" where
  "Generation s = so_gen s"

definition Latest :: "store \<Rightarrow> string \<Rightarrow> json option option" where
  "Latest s name = so_latest s name"

definition Clear :: "store \<Rightarrow> store" where
  "Clear s = s\<lparr>so_ref := so_latest s\<rparr>"

definition Reference :: "store \<Rightarrow> string \<Rightarrow> json option option" where
  "Reference s name = so_ref s name"

section \<open>Counters\<close>

text \<open>
  Decoding into a \<open>map[string]json.RawMessage\<close>, whose keys are compared exactly; the last
  member of a name counts. \<open>None\<close> stands for the results \<open>(0, false)\<close>.
\<close>

definition raw_map :: "json option \<Rightarrow> (string \<times> json) list option" where
  "raw_map raw = Option.bind raw as_obj"

definition counterFrom :: "json option \<Rightarrow> string \<Rightarrow> f64 option" where
  "counterFrom raw key = (case raw_map raw of
      None \<Rightarrow> None
    | Some m \<Rightarrow>
        (case map_of (rev m) key of
           None \<Rightarrow> None
         | Some v \<Rightarrow> dec_f64 (Some v)))"

definition GlobalCounter :: "store \<Rightarrow> string \<Rightarrow> f64 option" where
  "GlobalCounter s key = (case Latest s ''trex-global'' of
      None \<Rightarrow> None
    | Some raw \<Rightarrow> counterFrom raw key)"

definition port_key :: "string \<Rightarrow> int \<Rightarrow> string" where
  "port_key key port = key @ ''-'' @ itoa port"

definition PortCounter :: "store \<Rightarrow> string \<Rightarrow> int \<Rightarrow> f64 option" where
  "PortCounter s key port = GlobalCounter s (port_key key port)"

definition GlobalDelta :: "store \<Rightarrow> string \<Rightarrow> f64 option" where
  "GlobalDelta s key = (case GlobalCounter s key of
      None \<Rightarrow> None
    | Some cur \<Rightarrow>
        (case Reference s ''trex-global'' of
           None \<Rightarrow> Some cur
         | Some rf \<Rightarrow>
             (case counterFrom rf key of
                None \<Rightarrow> Some cur
              | Some base \<Rightarrow> Some (f_sub cur base))))"

definition PortDelta :: "store \<Rightarrow> string \<Rightarrow> int \<Rightarrow> f64 option" where
  "PortDelta s key port = GlobalDelta s (port_key key port)"

text \<open>The value a caller sees that ignores the second result.\<close>

definition or_zero :: "f64 option \<Rightarrow> f64" where
  "or_zero v = (case v of None \<Rightarrow> Fin 0 | Some x \<Rightarrow> x)"

section \<open>Lemmas\<close>

lemmas store_defs = Store_Dispatch_def Clear_def NewStore_def Latest_def Reference_def Generation_def

lemma Latest_Dispatch:
  "Latest (Store_Dispatch ev s) n = (if n = ae_name ev then Some (ae_data ev) else Latest s n)"
  by (simp add: store_defs)

lemma Latest_fold:
  "Latest (fold Store_Dispatch evs s) n =
     (case map_of (rev (map (\<lambda>e. (ae_name e, ae_data e)) evs)) n of Some d \<Rightarrow> Some d | None \<Rightarrow> Latest s n)"
proof (induction evs arbitrary: s)
  case (Cons e evs)
  then show ?case
    by (auto simp: Latest_Dispatch map_add_def split: option.splits)
qed simp

lemma Generation_fold: "Generation (fold Store_Dispatch evs s) = Generation s + of_nat (length evs)"
  by (induction evs arbitrary: s) (simp_all add: store_defs ac_simps)

lemma Reference_fold [simp]: "Reference (fold Store_Dispatch evs s) n = Reference s n"
  by (induction evs arbitrary: s) (simp_all add: store_defs)

lemma Clear_simps [simp]:
  "Latest (Clear s) n = Latest s n" "Reference (Clear s) n = Latest s n" "Generation (Clear s) = Generation s"
  by (simp_all add: store_defs)

lemma GlobalCounter_Clear [simp]: "GlobalCounter (Clear s) key = GlobalCounter s key"
  by (simp add: GlobalCounter_def)

lemma counterFrom_finite: "counterFrom raw key = Some v \<Longrightarrow> f64_ok v \<and> f_finite v"
  by (auto simp: counterFrom_def dest: dec_f64_ok split: option.splits)

lemma GlobalCounter_finite: "GlobalCounter s key = Some v \<Longrightarrow> f64_ok v \<and> f_finite v"
  by (auto simp: GlobalCounter_def dest: counterFrom_finite split: option.splits)

lemma port_key_inject:
  "int64_range i \<Longrightarrow> int64_range j \<Longrightarrow> port_key k i = port_key k j \<longleftrightarrow> i = j"
  by (simp add: port_key_def itoa_inject)

section \<open>Properties\<close>

text \<open>the store is what its contract says: after any sequence of events the value kept for
  a channel is the payload of the last event of that name, the reference of the last clear is
  untouched by events, and the generation has advanced by the number of events, so a caller
  that sees it change knows that a payload was recorded since.\<close>

theorem Store_refines:
  "(\<forall>n. Latest (fold Store_Dispatch evs (Clear s)) n =
     (case map_of (rev (map (\<lambda>e. (ae_name e, ae_data e)) evs)) n of Some d \<Rightarrow> Some d | None \<Rightarrow> Latest s n)) \<and>
   (\<forall>n. Reference (fold Store_Dispatch evs (Clear s)) n = Latest s n) \<and>
   Generation (fold Store_Dispatch evs (Clear s)) = Generation s + of_nat (length evs)"
  by (simp add: Latest_fold Generation_fold cong: option.case_cong)

text \<open>right after a clear every counter that can be read reads zero, and a counter read
  later is the rounded difference between its value then and its value at the clear, as long
  as the clear saw the counter; a counter that the clear did not see reads in full.\<close>

theorem GlobalDelta_after_Clear:
  assumes "GlobalCounter s key = Some (Fin base)"
  shows "GlobalDelta (Clear s) key = Some (Fin 0) \<and>
    (\<forall>evs cur. GlobalCounter (fold Store_Dispatch evs (Clear s)) key = Some (Fin cur) \<longrightarrow>
       GlobalDelta (fold Store_Dispatch evs (Clear s)) key = Some (fl (cur - base)))"
proof -
  obtain raw where raw: "Latest s ''trex-global'' = Some raw" "counterFrom raw key = Some (Fin base)"
    using assms by (auto simp: GlobalCounter_def split: option.splits)
  have delta: "GlobalDelta (fold Store_Dispatch evs (Clear s)) key = Some (fl (cur - base))"
    if "GlobalCounter (fold Store_Dispatch evs (Clear s)) key = Some (Fin cur)" for evs cur
    using that raw by (simp add: GlobalDelta_def)
  from delta [of "[]" base] assms have "GlobalDelta (Clear s) key = Some (Fin 0)"
    by simp
  with delta show ?thesis by blast
qed

text \<open>A store that has seen two counters.\<close>

definition sample_event :: "int \<Rightarrow> async_event" where
  "sample_event n = \<lparr>ae_name = ''trex-global'', ae_type = 0, ae_seq = 0, ae_baseline = False,
     ae_data = Some (JObj [(''opackets-0'', JInt n)])\<rparr>"

lemma sample_counter:
  assumes "0 \<le> n" "n \<le> 2 ^ 53"
  shows "GlobalCounter (Store_Dispatch (sample_event n) s) ''opackets-0'' = Some (Fin (of_int n))"
proof -
  have "fl (of_int n) = Fin (of_int n)"
    using f_of_int_exact [of n] assms by (simp add: f_of_int_def)
  then show ?thesis
    by (simp add: GlobalCounter_def store_defs sample_event_def counterFrom_def raw_map_def as_obj_def
        dec_f64_def finite_or_none_def f_finite_def)
qed

theorem GlobalDelta_after_Clear_witness:
  "GlobalDelta (fold Store_Dispatch [sample_event 12] (Clear (Store_Dispatch (sample_event 5) NewStore)))
     ''opackets-0'' = Some (fl 7)"
proof -
  let ?s = "Store_Dispatch (sample_event 5) NewStore"
  have "GlobalCounter ?s ''opackets-0'' = Some (Fin 5)"
    using sample_counter [of 5 NewStore] by simp
  note after = GlobalDelta_after_Clear [OF this]
  have "GlobalCounter (fold Store_Dispatch [sample_event 12] (Clear ?s)) ''opackets-0'' = Some (Fin 12)"
    using sample_counter [of 12 "Clear ?s"] by simp
  with after have "GlobalDelta (fold Store_Dispatch [sample_event 12] (Clear ?s)) ''opackets-0'' = Some (fl (12 - 5))"
    by blast
  then show ?thesis by simp
qed

end
