(* ===== verification/Stats_Pgid.thy ===== *)
theory Stats_Pgid
  imports Stats_Store "HOL-Library.Multiset"
begin

text \<open>
  Per flow group counters: \<open>pkg/stats/pgid.go\<close>. Go iterates over a map in no particular
  order, so every loop over a map takes the order as a parameter: a function that lists the
  entries in the order of this iteration.
\<close>

section \<open>Snapshots\<close>

record pgid_counters =
  pc_tx :: u64
  pc_rx :: u64
  pc_txb :: u64
  pc_rxb :: u64

text \<open>The map from pgids to counters, as its entries, and the receive errors.\<close>

record pgid_snapshot =
  ps_flow :: "(int \<times> pgid_counters) list"
  ps_rxErr :: u64

type_synonym 'a iter = "(string \<times> 'a) list \<Rightarrow> (string \<times> 'a) list"

record orders =
  or_flow :: "json iter"
  or_port :: "f64 iter"
  or_snap :: "(int \<times> pgid_counters) list \<Rightarrow> (int \<times> pgid_counters) list"

definition orders_ok :: "orders \<Rightarrow> bool" where
  "orders_ok it \<longleftrightarrow> (\<forall>xs. mset (or_flow it xs) = mset xs) \<and> (\<forall>xs. mset (or_port it xs) = mset xs) \<and>
     (\<forall>xs. mset (or_snap it xs) = mset xs)"

definition SumTx :: "orders \<Rightarrow> pgid_snapshot \<Rightarrow> u64" where
  "SumTx it s = fold (\<lambda>(_, c) t. t + pc_tx c) (or_snap it (ps_flow s)) 0"

definition SumRx :: "orders \<Rightarrow> pgid_snapshot \<Rightarrow> u64" where
  "SumRx it s = fold (\<lambda>(_, c) t. t + pc_rx c) (or_snap it (ps_flow s)) 0"

definition Drop :: "orders \<Rightarrow> pgid_snapshot \<Rightarrow> u64" where
  "Drop it s = (let tx = SumTx it s; rx = SumRx it s in if tx < rx then 0 else tx - rx)"

section \<open>Parsing\<close>

text \<open>
  Decoding into a Go map with decoded values: every member must decode, the last one of a
  name is kept.
\<close>

fun dec_members :: "(json \<Rightarrow> 'a option) \<Rightarrow> (string \<times> json) list \<Rightarrow> (string \<times> 'a) list option" where
  "dec_members f [] = Some []"
| "dec_members f ((k, v) # kvs) = (case (f v, dec_members f kvs) of
      (Some x, Some xs) \<Rightarrow> Some ((k, x) # xs)
    | _ \<Rightarrow> None)"

definition dec_map :: "(json \<Rightarrow> 'a option) \<Rightarrow> json \<Rightarrow> (string \<times> 'a) list option" where
  "dec_map f j = Option.bind (as_obj j) (\<lambda>kvs. map_option (\<lambda>m. AList.clearjunk (rev m)) (dec_members f kvs))"

text \<open>\<open>map[string]map[string]float64\<close>; \<open>port_map\<close> is an element of it, nil for a missing name.\<close>

definition dec_fields :: "json \<Rightarrow> (string \<times> (string \<times> f64) list) list option" where
  "dec_fields j = dec_map (dec_map (\<lambda>v. dec_f64 (Some v))) j"

definition port_map :: "(string \<times> (string \<times> f64) list) list \<Rightarrow> string \<Rightarrow> (string \<times> f64) list" where
  "port_map m k = (case map_of m k of None \<Rightarrow> [] | Some x \<Rightarrow> x)"

definition sumPorts :: "orders \<Rightarrow> (string \<times> f64) list \<Rightarrow> u64" where
  "sumPorts it m = f_to_u64 (fold (\<lambda>(_, v) t. f_add t v) (or_port it m) (Fin 0))"

definition sumPortMap :: "orders \<Rightarrow> json \<Rightarrow> string \<Rightarrow> u64" where
  "sumPortMap it raw fld = (case dec_fields raw of
      None \<Rightarrow> 0
    | Some g \<Rightarrow> sumPorts it (port_map g fld))"

text \<open>The loop of \<open>parsePgidStats\<close>; the error is the key whose fields do not decode.\<close>

fun parse_flow :: "orders \<Rightarrow> (string \<times> json) list \<Rightarrow> pgid_snapshot \<Rightarrow> string + pgid_snapshot" where
  "parse_flow it [] snap = Inr snap"
| "parse_flow it ((key, raw) # rest) snap =
     (if key = ''g'' then parse_flow it rest (snap\<lparr>ps_rxErr := sumPortMap it raw ''rx_err''\<rparr>)
      else case Atoi key of
        None \<Rightarrow> parse_flow it rest snap
      | Some pid \<Rightarrow>
          (case dec_fields raw of
             None \<Rightarrow> Inl key
           | Some m \<Rightarrow> parse_flow it rest (snap\<lparr>ps_flow := AList.update pid
               \<lparr>pc_tx = sumPorts it (port_map m ''tp''), pc_rx = sumPorts it (port_map m ''rp''),
                pc_txb = sumPorts it (port_map m ''tb''), pc_rxb = sumPorts it (port_map m ''rb'')\<rparr>
               (ps_flow snap)\<rparr>)))"

datatype pgid_error = PgCall call_error | PgParse | PgParseKey string

definition parsePgidStats :: "orders \<Rightarrow> json option \<Rightarrow> pgid_error + pgid_snapshot" where
  "parsePgidStats it res =
     (case Option.bind res (\<lambda>j. Option.bind (as_obj j) (\<lambda>kvs.
             case jget ''flow_stats'' kvs of None \<Rightarrow> Some [] | Some fs \<Rightarrow> dec_map Some fs)) of
        None \<Rightarrow> Inl PgParse
      | Some fs \<Rightarrow> map_err PgParseKey (parse_flow it (or_flow it fs) \<lparr>ps_flow = [], ps_rxErr = 0\<rparr>))"

section \<open>Requests\<close>

definition GetPgidStats ::
  "'w env \<Rightarrow> orders \<Rightarrow> int list \<Rightarrow> 'w conn \<Rightarrow> (pgid_error + pgid_snapshot) \<times> 'w conn" where
  "GetPgidStats en it pgids c =
     (case Call en ''get_pgid_stats'' (Some [(''pgids'', Some (JArr (map JInt pgids)))]) c of
        (Inl e, c') \<Rightarrow> (Inl (PgCall e), c')
      | (Inr res, c') \<Rightarrow> (parsePgidStats it res, c'))"

text \<open>The decoded \<open>ids\<close> of \<open>get_active_pgids\<close>: the latency and the flow statistics ids.\<close>

definition dec_active :: "json option \<Rightarrow> (int list \<times> int list) option" where
  "dec_active res = Option.bind res (\<lambda>j. Option.bind (as_obj j) (\<lambda>kvs.
     Option.bind (case jget ''ids'' kvs of None \<Rightarrow> Some [] | Some i \<Rightarrow> as_obj i) (\<lambda>ids.
       case (dec_list (\<lambda>v. dec_int (Some v)) (jget ''latency'' ids),
             dec_list (\<lambda>v. dec_int (Some v)) (jget ''flow_stats'' ids)) of
         (Some lat, Some fs) \<Rightarrow> Some (lat, fs)
       | _ \<Rightarrow> None)))"

definition GetActivePGIDs ::
  "'w env \<Rightarrow> 'w conn \<Rightarrow> (pgid_error + int list \<times> int list) \<times> 'w conn" where
  "GetActivePGIDs en c = (case Call en ''get_active_pgids'' (Some []) c of
      (Inl e, c') \<Rightarrow> (Inl (PgCall e), c')
    | (Inr res, c') \<Rightarrow>
        (case dec_active res of
           None \<Rightarrow> (Inl PgParse, c')
         | Some ids \<Rightarrow> (Inr ids, c')))"

section \<open>Lemmas\<close>

lemma fold_sum: "fold (\<lambda>(k, c) t. t + f c) xs t = t + (\<Sum>(k, c) \<leftarrow> xs. f c)"
  for t :: "'a::comm_monoid_add"
  by (induction xs arbitrary: t) (auto simp: ac_simps)

lemma sum_list_mset_eq: "mset xs = mset ys \<Longrightarrow> sum_list (map f xs) = sum_list (map f ys)"
  for f :: "'a \<Rightarrow> 'b::comm_monoid_add"
  by (metis mset_map sum_mset_sum_list)

lemma SumTx_eq: "orders_ok it \<Longrightarrow> SumTx it s = (\<Sum>(_, c) \<leftarrow> ps_flow s. pc_tx c)"
  by (simp add: SumTx_def fold_sum sum_list_mset_eq [of "or_snap it (ps_flow s)" "ps_flow s"] orders_ok_def)

lemma SumRx_eq: "orders_ok it \<Longrightarrow> SumRx it s = (\<Sum>(_, c) \<leftarrow> ps_flow s. pc_rx c)"
  by (simp add: SumRx_def fold_sum sum_list_mset_eq [of "or_snap it (ps_flow s)" "ps_flow s"] orders_ok_def)

text \<open>The sum of 64-bit counters is exact when the true sum fits.\<close>

lemma unat_sum_list:
  "sum_list (map (\<lambda>x. unat (f x)) xs) < 2 ^ 64 \<Longrightarrow>
   unat (sum_list (map f xs)) = sum_list (map (\<lambda>x. unat (f x)) xs)" for f :: "'a \<Rightarrow> u64"
proof (induction xs)
  case (Cons x xs)
  then show ?case
    by (simp add: unat_add_lem [THEN iffD1])
qed simp

text \<open>Adding integers up to \<open>2 ^ 53\<close> as floats is exact, in every order.\<close>

definition f_nat :: "f64 \<Rightarrow> nat" where
  "f_nat v = (case v of Fin x \<Rightarrow> nat \<lfloor>x\<rfloor> | _ \<Rightarrow> 0)"

definition int_ports :: "(string \<times> f64) list \<Rightarrow> bool" where
  "int_ports m \<longleftrightarrow> (\<forall>(k, v) \<in> set m. v = Fin (of_nat (f_nat v)))"

definition port_total :: "(string \<times> f64) list \<Rightarrow> nat" where
  "port_total m = (\<Sum>(_, v) \<leftarrow> m. f_nat v)"

lemma f_add_nats:
  assumes "a + n \<le> 2 ^ 53"
  shows "f_add (Fin (of_nat a)) (Fin (of_nat n)) = Fin (of_nat (a + n))"
proof -
  have "int (a + n) \<le> 2 ^ 53"
    using assms by (metis of_nat_le_iff of_nat_numeral of_nat_power)
  then have "f_of_int (int (a + n)) = Fin (of_int (int (a + n)))"
    by (intro f_of_int_exact) simp
  then show ?thesis
    by (simp add: f_of_int_def)
qed

lemma fold_f_add:
  assumes "int_ports m" "a + port_total m \<le> 2 ^ 53"
  shows "fold (\<lambda>(_, v) t. f_add t v) m (Fin (of_nat a)) = Fin (of_nat (a + port_total m))"
  using assms
proof (induction m arbitrary: a)
  case (Cons x m)
  obtain k v where x: "x = (k, v)" by fastforce
  obtain n where v: "v = Fin (of_nat n)" and m: "int_ports m"
    using Cons.prems(1) x by (auto simp: int_ports_def)
  then have n: "f_nat v = n"
    by (simp add: f_nat_def)
  have le: "a + n + port_total m \<le> 2 ^ 53"
    using Cons.prems(2) x n by (simp add: port_total_def)
  have "f_add (Fin (of_nat a)) v = Fin (of_nat (a + n))"
    unfolding v using le by (intro f_add_nats) simp
  then show ?case
    using Cons.IH [OF m le] x n by (simp add: port_total_def add.assoc)
qed (simp add: port_total_def)

lemma sumPorts_exact:
  assumes "orders_ok it" "int_ports m" "port_total m \<le> 2 ^ 53"
  shows "sumPorts it m = word_of_nat (port_total m)"
proof -
  have p: "mset (or_port it m) = mset m"
    using assms(1) by (simp add: orders_ok_def)
  then have "int_ports (or_port it m)" "port_total (or_port it m) = port_total m"
    using assms(2) mset_eq_setD [OF p] sum_list_mset_eq [OF p, of "\<lambda>(_, v). f_nat v"]
    by (simp_all add: int_ports_def port_total_def)
  then have "fold (\<lambda>(_, v) t. f_add t v) (or_port it m) (Fin 0) = Fin (of_nat (port_total m))"
    using fold_f_add [of "or_port it m" 0] assms(3) by simp
  moreover have "int (port_total m) < 2 ^ 64"
    using assms(3) by simp
  ultimately show ?thesis
    using f_to_u64_Fin_int [of "int (port_total m)"] by (simp add: sumPorts_def)
qed

section \<open>The parsed snapshot\<close>

text \<open>The counters of a flow group whose per-port values are integers.\<close>

definition exact_counters :: "(string \<times> (string \<times> f64) list) list \<Rightarrow> pgid_counters" where
  "exact_counters m = \<lparr>pc_tx = word_of_nat (port_total (port_map m ''tp'')),
     pc_rx = word_of_nat (port_total (port_map m ''rp'')),
     pc_txb = word_of_nat (port_total (port_map m ''tb'')),
     pc_rxb = word_of_nat (port_total (port_map m ''rb''))\<rparr>"

definition good_fields :: "json \<Rightarrow> (string \<times> (string \<times> f64) list) list \<Rightarrow> bool" where
  "good_fields raw m \<longleftrightarrow> dec_fields raw = Some m \<and>
     (\<forall>k \<in> {''tp'', ''rp'', ''tb'', ''rb''}. int_ports (port_map m k) \<and> port_total (port_map m k) \<le> 2 ^ 53)"

definition group_ids :: "(string \<times> json) list \<Rightarrow> int option list" where
  "group_ids fs = filter (\<lambda>i. i \<noteq> None) (map (\<lambda>(k, _). Atoi k) fs)"

definition groups_ok :: "(string \<times> json) list \<Rightarrow> bool" where
  "groups_ok fs \<longleftrightarrow> distinct (group_ids fs) \<and> distinct (map fst fs) \<and>
     (\<forall>(k, raw) \<in> set fs. Atoi k \<noteq> None \<longrightarrow> (\<exists>m. good_fields raw m))"

lemma Atoi_g [simp]: "Atoi ''g'' = None"
  by (simp add: Atoi_def strip_sign_def is_digit_def ch_code_def)

lemma groups_ok_perm: "mset xs = mset ys \<Longrightarrow> groups_ok xs \<longleftrightarrow> groups_ok ys"
proof -
  assume m: "mset xs = mset ys"
  have "mset (group_ids xs) = mset (group_ids ys)" "mset (map fst xs) = mset (map fst ys)"
    using m by (simp_all add: group_ids_def)
  note d = this [THEN mset_eq_imp_distinct_iff]
  show ?thesis
    unfolding groups_ok_def d mset_eq_setD [OF m] ..
qed

text \<open>What a flow map must hold for the groups of \<open>fs\<close>, on top of what it held before.\<close>

definition flow_holds :: "(string \<times> json) list \<Rightarrow> (int \<times> pgid_counters) list \<Rightarrow> (int \<times> pgid_counters) list \<Rightarrow> bool" where
  "flow_holds fs old flow \<longleftrightarrow>
     (\<forall>(k, raw) \<in> set fs. \<forall>pid m. Atoi k = Some pid \<longrightarrow> dec_fields raw = Some m \<longrightarrow>
        map_of flow pid = Some (exact_counters m)) \<and>
     (\<forall>pid. Some pid \<notin> set (group_ids fs) \<longrightarrow> map_of flow pid = map_of old pid)"

lemma group_ids_Cons:
  "group_ids ((k, raw) # fs) = (case Atoi k of None \<Rightarrow> group_ids fs | Some i \<Rightarrow> Some i # group_ids fs)"
  by (simp add: group_ids_def split: option.splits)

lemma group_ids_mem: "(k, raw) \<in> set fs \<Longrightarrow> Atoi k = Some i \<Longrightarrow> Some i \<in> set (group_ids fs)"
  by (force simp: group_ids_def)

lemma parse_flow_holds:
  assumes "orders_ok it" "groups_ok fs"
  shows "\<exists>snap'. parse_flow it fs snap = Inr snap' \<and> flow_holds fs (ps_flow snap) (ps_flow snap') \<and>
    (distinct (map fst (ps_flow snap)) \<longrightarrow> distinct (map fst (ps_flow snap'))) \<and>
    ps_rxErr snap' = (case map_of fs ''g'' of None \<Rightarrow> ps_rxErr snap | Some raw \<Rightarrow> sumPortMap it raw ''rx_err'')"
  using assms(2)
proof (induction fs arbitrary: snap)
  case Nil
  then show ?case by (simp add: flow_holds_def group_ids_def)
next
  case (Cons a fs)
  obtain k raw where a: "a = (k, raw)" by fastforce
  have ok: "groups_ok fs"
    using Cons.prems by (auto simp: groups_ok_def group_ids_Cons a split: option.splits)
  show ?case
  proof (cases "Atoi k")
    case None
    let ?s = "if k = ''g'' then snap\<lparr>ps_rxErr := sumPortMap it raw ''rx_err''\<rparr> else snap"
    have step: "parse_flow it (a # fs) snap = parse_flow it fs ?s"
      by (simp add: a None)
    have "map_of fs ''g'' = None" if "k = ''g''"
      using Cons.prems that by (simp add: groups_ok_def a map_of_eq_None_iff)
    then show ?thesis
      using Cons.IH [OF ok, of ?s] unfolding step
      by (auto simp: flow_holds_def group_ids_Cons a None split: if_splits)
  next
    case (Some pid)
    then have kg: "k \<noteq> ''g''" by auto
    obtain m where m: "good_fields raw m"
      using Cons.prems Some by (auto simp: groups_ok_def a)
    let ?s = "snap\<lparr>ps_flow := AList.update pid (exact_counters m) (ps_flow snap)\<rparr>"
    have step: "parse_flow it (a # fs) snap = parse_flow it fs ?s"
      using m kg by (simp add: a Some good_fields_def exact_counters_def sumPorts_exact [OF assms(1)])
    have fresh: "Some pid \<notin> set (group_ids fs)"
      using Cons.prems by (simp add: groups_ok_def group_ids_Cons a Some)
    obtain s' where s': "parse_flow it fs ?s = Inr s'" "flow_holds fs (ps_flow ?s) (ps_flow s')"
      "distinct (map fst (ps_flow ?s)) \<longrightarrow> distinct (map fst (ps_flow s'))"
      "ps_rxErr s' = (case map_of fs ''g'' of None \<Rightarrow> ps_rxErr ?s | Some raw \<Rightarrow> sumPortMap it raw ''rx_err'')"
      using Cons.IH [OF ok, of ?s] by blast
    have "map_of (ps_flow s') pid = Some (exact_counters m)"
      using s'(2) fresh by (simp add: flow_holds_def update_conv')
    then have "flow_holds (a # fs) (ps_flow snap) (ps_flow s')"
      using s'(2) m by (auto simp: flow_holds_def a Some group_ids_Cons good_fields_def update_conv')
    then show ?thesis
      using s' kg step by (simp add: a distinct_update cong: option.case_cong)
  qed
qed

section \<open>Properties\<close>

text \<open>the drop count is the number of transmitted minus received packets over all flow
  groups, and zero when more were received than sent, in whatever order the groups are
  visited, as long as the totals fit into 64 bits.\<close>

theorem Drop_exact:
  assumes "orders_ok it"
    and "(\<Sum>(_, c) \<leftarrow> ps_flow s. unat (pc_tx c)) < 2 ^ 64" "(\<Sum>(_, c) \<leftarrow> ps_flow s. unat (pc_rx c)) < 2 ^ 64"
  shows "unat (Drop it s) = (\<Sum>(_, c) \<leftarrow> ps_flow s. unat (pc_tx c)) - (\<Sum>(_, c) \<leftarrow> ps_flow s. unat (pc_rx c))"
proof -
  have tx: "unat (SumTx it s) = (\<Sum>(_, c) \<leftarrow> ps_flow s. unat (pc_tx c))"
    using unat_sum_list [of "\<lambda>(_, c). pc_tx c" "ps_flow s"] assms(2)
    by (simp add: SumTx_eq [OF assms(1)] case_prod_beta')
  have rx: "unat (SumRx it s) = (\<Sum>(_, c) \<leftarrow> ps_flow s. unat (pc_rx c))"
    using unat_sum_list [of "\<lambda>(_, c). pc_rx c" "ps_flow s"] assms(3)
    by (simp add: SumRx_eq [OF assms(1)] case_prod_beta')
  show ?thesis
    by (auto simp: Drop_def Let_def tx [symmetric] rx [symmetric] word_less_nat_alt unat_sub word_le_nat_alt)
qed

definition sample_orders :: orders where
  "sample_orders = \<lparr>or_flow = rev, or_port = rev, or_snap = rev\<rparr>"

lemma sample_orders_ok [simp]: "orders_ok sample_orders"
  by (simp add: orders_ok_def sample_orders_def)

theorem Drop_exact_witness:
  "unat (Drop sample_orders \<lparr>ps_flow = [(7, \<lparr>pc_tx = 1000, pc_rx = 990, pc_txb = 0, pc_rxb = 0\<rparr>),
     (8, \<lparr>pc_tx = 500, pc_rx = 500, pc_txb = 0, pc_rxb = 0\<rparr>)], ps_rxErr = 0\<rparr>) = 10"
  using Drop_exact [OF sample_orders_ok, of "\<lparr>ps_flow = [(7, \<lparr>pc_tx = 1000, pc_rx = 990, pc_txb = 0, pc_rxb = 0\<rparr>),
     (8, \<lparr>pc_tx = 500, pc_rx = 500, pc_txb = 0, pc_rxb = 0\<rparr>)], ps_rxErr = 0\<rparr>"]
  by simp

text \<open>C35: a statistics reply whose group names are distinct numbers and whose per-port counters
  are integers with totals up to \<open>2 ^ 53\<close> is parsed without error to exactly those groups,
  each with its totals over the ports, whatever the order in which Go visits the groups and
  the ports; the float additions lose nothing.\<close>

theorem parsePgidStats_exact:
  assumes "orders_ok it" "as_obj j = Some kvs" "jget ''flow_stats'' kvs = Some fj"
    and "dec_map Some fj = Some fs" "groups_ok fs"
  shows "\<exists>snap. parsePgidStats it (Some j) = Inr snap \<and> distinct (map fst (ps_flow snap)) \<and>
    (\<forall>pid. (map_of (ps_flow snap) pid \<noteq> None) = (Some pid \<in> set (group_ids fs))) \<and>
    (\<forall>(k, raw) \<in> set fs. \<forall>pid m. Atoi k = Some pid \<longrightarrow> dec_fields raw = Some m \<longrightarrow>
        map_of (ps_flow snap) pid = Some (exact_counters m))"
proof -
  have perm: "mset (or_flow it fs) = mset fs"
    using assms(1) by (simp add: orders_ok_def)
  then have ok: "groups_ok (or_flow it fs)"
    using assms(5) groups_ok_perm by blast
  obtain snap where s: "parse_flow it (or_flow it fs) \<lparr>ps_flow = [], ps_rxErr = 0\<rparr> = Inr snap"
    "flow_holds (or_flow it fs) [] (ps_flow snap)" "distinct (map fst (ps_flow snap))"
    using parse_flow_holds [OF assms(1) ok, of "\<lparr>ps_flow = [], ps_rxErr = 0\<rparr>"] by auto
  have ids: "set (group_ids (or_flow it fs)) = set (group_ids fs)" "set (or_flow it fs) = set fs"
    using mset_eq_setD [OF perm] by (simp_all add: group_ids_def)
  have some: "map_of (ps_flow snap) pid \<noteq> None" if pid: "Some pid \<in> set (group_ids fs)" for pid
  proof -
    obtain k raw where k: "(k, raw) \<in> set fs" "Atoi k = Some pid"
      using pid by (auto simp: group_ids_def)
    moreover then obtain m where "good_fields raw m"
      using assms(5) by (fastforce simp: groups_ok_def)
    ultimately show ?thesis
      using s(2) ids by (fastforce simp: flow_holds_def good_fields_def)
  qed
  have none: "map_of (ps_flow snap) pid = None" if "Some pid \<notin> set (group_ids fs)" for pid
    using s(2) that ids by (simp add: flow_holds_def)
  have "(map_of (ps_flow snap) pid \<noteq> None) = (Some pid \<in> set (group_ids fs))" for pid
    using some [of pid] none [of pid] by argo
  moreover have "parsePgidStats it (Some j) = Inr snap"
    using assms(2-4) s(1) by (simp add: parsePgidStats_def)
  moreover have "\<forall>(k, raw) \<in> set fs. \<forall>pid m. Atoi k = Some pid \<longrightarrow> dec_fields raw = Some m \<longrightarrow>
        map_of (ps_flow snap) pid = Some (exact_counters m)"
    using s(2) ids by (simp add: flow_holds_def)
  ultimately show ?thesis
    using s(3) by (intro exI [of _ snap] conjI allI)
qed

text \<open>The reply of a server with one flow group on two ports.\<close>

definition sample_fields :: json where
  "sample_fields = JObj [(''tp'', JObj [(''0'', JInt 1000), (''1'', JInt 24)])]"

lemma fl_small [simp]: "fl 1000 = Fin 1000" "fl 24 = Fin 24"
  by (rule fl_numeral, simp)+

lemma sample_fields_dec:
  "dec_fields sample_fields = Some [(''tp'', [(''1'', Fin 24), (''0'', Fin 1000)])]"
  by (simp add: dec_fields_def dec_map_def sample_fields_def as_obj_def dec_f64_def finite_or_none_def
      f_finite_def)

theorem parsePgidStats_exact_witness:
  "\<exists>snap. parsePgidStats sample_orders (Some (JObj [(''flow_stats'', JObj [(''7'', sample_fields)])])) = Inr snap \<and>
     map_of (ps_flow snap) 7 = Some \<lparr>pc_tx = 1024, pc_rx = 0, pc_txb = 0, pc_rxb = 0\<rparr>"
proof -
  let ?fs = "[(''7'', sample_fields)]"
  let ?m = "[(''tp'', [(''1'', Fin 24), (''0'', Fin 1000)])]"
  have at: "Atoi ''7'' = Some 7"
    using Atoi_nat_digits [of 7] by (simp add: nat_digits.simps)
  have fs: "dec_map Some (JObj ?fs) = Some ?fs"
    by (simp add: dec_map_def as_obj_def)
  have "good_fields sample_fields ?m"
    by (simp add: good_fields_def sample_fields_dec int_ports_def port_map_def port_total_def f_nat_def)
  then have ok: "groups_ok ?fs"
    by (auto simp: groups_ok_def group_ids_def at)
  have e: "exact_counters ?m = \<lparr>pc_tx = 1024, pc_rx = 0, pc_txb = 0, pc_rxb = 0\<rparr>"
    by (simp add: exact_counters_def port_map_def port_total_def f_nat_def)
  have obj: "as_obj (JObj [(''flow_stats'', JObj ?fs)]) = Some [(''flow_stats'', JObj ?fs)]"
    "jget ''flow_stats'' [(''flow_stats'', JObj ?fs)] = Some (JObj ?fs)"
    by (simp_all add: as_obj_def jget_def)
  from parsePgidStats_exact [OF sample_orders_ok obj fs ok] at sample_fields_dec e show ?thesis
    by auto
qed

end
