(* ===== verification/Session_Events.thy ===== *)
theory Session_Events
  imports Json
begin

text \<open>
  The event bus: \<open>pkg/session/events.go\<close>. A subscription is a buffered channel, kept under its
  event id and a key; the bus holds its mutex for each operation, so the operations are single
  steps. A channel also has a reader, whose receive is a step of its own.
\<close>

section \<open>Events and channels\<close>

type_synonym event_id = int

definition EventPortStarted :: event_id where "EventPortStarted = 0"
definition EventPortStopped :: event_id where "EventPortStopped = 1"
definition EventPortPaused :: event_id where "EventPortPaused = 2"
definition EventPortResumed :: event_id where "EventPortResumed = 3"
definition EventPortJobDone :: event_id where "EventPortJobDone = 4"
definition EventPortAcquired :: event_id where "EventPortAcquired = 5"
definition EventPortReleased :: event_id where "EventPortReleased = 6"
definition EventPortError :: event_id where "EventPortError = 7"
definition EventPortAttrChg :: event_id where "EventPortAttrChg = 8"
definition EventProfileStarted :: event_id where "EventProfileStarted = 10"
definition EventProfileStopped :: event_id where "EventProfileStopped = 11"
definition EventProfilePaused :: event_id where "EventProfilePaused = 12"
definition EventProfileResumed :: event_id where "EventProfileResumed = 13"
definition EventProfileFinishedTx :: event_id where "EventProfileFinishedTx = 14"
definition EventProfileError :: event_id where "EventProfileError = 17"
definition EventServerStopped :: event_id where "EventServerStopped = 100"

record server_event =
  sv_id :: event_id
  sv_data :: "json option"

text \<open>A channel: what is buffered, and whether it is closed. Its capacity is 8.\<close>

record channel =
  ch_buf :: "server_event list"
  ch_closed :: bool

definition ch_cap :: nat where "ch_cap = 8"

text \<open>
  Channels live on the heap, numbered as they are made; a subscriber keeps the number of its
  channel. \<open>eb_subs\<close> is the map of maps, with the entries of an id in no particular order.
\<close>

record bus =
  eb_next :: int
  eb_subs :: "event_id \<Rightarrow> (int \<rightharpoonup> nat)"
  eb_chans :: "channel list"

definition NewEventBus :: bus where
  "NewEventBus = \<lparr>eb_next = 0, eb_subs = (\<lambda>_. Map.empty), eb_chans = []\<rparr>"

section \<open>Operations\<close>

text \<open>\<open>Subscribe\<close> returns the channel and the key that the cancel function has captured.\<close>

definition Subscribe :: "event_id \<Rightarrow> bus \<Rightarrow> (nat \<times> int) \<times> bus" where
  "Subscribe eid b = (let
      ch = length (eb_chans b);
      key = eb_next b in
    ((ch, key), b\<lparr>eb_next := wrap64 (key + 1),
       eb_subs := (eb_subs b)(eid := (eb_subs b eid)(key \<mapsto> ch)),
       eb_chans := eb_chans b @ [\<lparr>ch_buf = [], ch_closed = False\<rparr>]\<rparr>))"

text \<open>The cancel function of the subscription of \<open>eid\<close> with \<open>key\<close>.\<close>

definition cancel :: "event_id \<Rightarrow> int \<Rightarrow> bus \<Rightarrow> bus" where
  "cancel eid key b = (case eb_subs b eid key of
      None \<Rightarrow> b
    | Some ch \<Rightarrow> b\<lparr>eb_subs := (eb_subs b)(eid := (eb_subs b eid)(key := None)),
        eb_chans := (eb_chans b)[ch := (eb_chans b ! ch)\<lparr>ch_closed := True\<rparr>]\<rparr>)"

text \<open>A send that does not block: a full buffer drops the event.\<close>

definition offer :: "server_event \<Rightarrow> channel \<Rightarrow> channel" where
  "offer ev c = (if length (ch_buf c) < ch_cap then c\<lparr>ch_buf := ch_buf c @ [ev]\<rparr> else c)"

definition subscribed :: "bus \<Rightarrow> event_id \<Rightarrow> nat \<Rightarrow> bool" where
  "subscribed b eid ch \<longleftrightarrow> ch \<in> ran (eb_subs b eid)"

definition Publish :: "server_event \<Rightarrow> bus \<Rightarrow> bus" where
  "Publish ev b = b\<lparr>eb_chans :=
     map (\<lambda>(i, c). if subscribed b (sv_id ev) i then offer ev c else c) (enumerate 0 (eb_chans b))\<rparr>"

text \<open>
  The subscriber's receive: an event, the end of a closed and drained channel, or \<open>None\<close> while
  it has to wait.
\<close>

definition receive :: "nat \<Rightarrow> bus \<Rightarrow> server_event option option \<times> bus" where
  "receive ch b = (case ch_buf (eb_chans b ! ch) of
      ev # evs \<Rightarrow> (Some (Some ev), b\<lparr>eb_chans := (eb_chans b)[ch := (eb_chans b ! ch)\<lparr>ch_buf := evs\<rparr>]\<rparr>)
    | [] \<Rightarrow> ((if ch_closed (eb_chans b ! ch) then Some None else None), b))"

section \<open>Executions\<close>

text \<open>The steps of the bus, in any interleaving of its users.\<close>

inductive bus_step :: "bus \<Rightarrow> bus \<Rightarrow> bool" where
  step_subscribe: "bus_step b (snd (Subscribe eid b))"
| step_cancel: "bus_step b (cancel eid key b)"
| step_publish: "bus_step b (Publish ev b)"
| step_receive: "ch < length (eb_chans b) \<Longrightarrow> bus_step b (snd (receive ch b))"

inductive_cases bus_stepE: "bus_step b b'"

inductive reachable :: "bus \<Rightarrow> bool" where
  reach_init: "reachable NewEventBus"
| reach_step: "reachable b \<Longrightarrow> bus_step b b' \<Longrightarrow> reachable b'"

text \<open>
  The invariant: every registered channel exists, is open and is registered once; a channel
  that is not registered is closed; buffers are within their capacity. Keys in use are below
  the next key while fewer than \<open>2 ^ 63\<close> subscriptions were made.
\<close>

definition bus_inv :: "bus \<Rightarrow> bool" where
  "bus_inv b \<longleftrightarrow>
     (\<forall>eid key ch. eb_subs b eid key = Some ch \<longrightarrow> ch < length (eb_chans b) \<and> \<not> ch_closed (eb_chans b ! ch)) \<and>
     (\<forall>eid key eid' key' ch. eb_subs b eid key = Some ch \<longrightarrow> eb_subs b eid' key' = Some ch \<longrightarrow> eid = eid' \<and> key = key') \<and>
     (\<forall>ch < length (eb_chans b). length (ch_buf (eb_chans b ! ch)) \<le> ch_cap) \<and>
     (\<forall>ch < length (eb_chans b). \<not> ch_closed (eb_chans b ! ch) \<longrightarrow> (\<exists>eid key. eb_subs b eid key = Some ch)) \<and>
     int (length (eb_chans b)) = eb_next b \<and>
     (\<forall>eid key. eb_subs b eid key \<noteq> None \<longrightarrow> 0 \<le> key \<and> key < eb_next b)"

section \<open>Lemmas\<close>

lemma Publish_simps [simp]:
  "eb_subs (Publish ev b) = eb_subs b" "eb_next (Publish ev b) = eb_next b"
  "length (eb_chans (Publish ev b)) = length (eb_chans b)"
  by (simp_all add: Publish_def)

lemma Publish_nth:
  "i < length (eb_chans b) \<Longrightarrow> eb_chans (Publish ev b) ! i =
     (if subscribed b (sv_id ev) i then offer ev (eb_chans b ! i) else eb_chans b ! i)"
  by (simp add: Publish_def nth_enumerate_eq)

lemma offer_simps [simp]: "ch_closed (offer ev c) = ch_closed c"
  by (simp add: offer_def)

lemma Subscribe_simps:
  "eb_next (snd (Subscribe eid b)) = wrap64 (eb_next b + 1)"
  "eb_subs (snd (Subscribe eid b)) = (eb_subs b)(eid := (eb_subs b eid)(eb_next b \<mapsto> length (eb_chans b)))"
  "eb_chans (snd (Subscribe eid b)) = eb_chans b @ [\<lparr>ch_buf = [], ch_closed = False\<rparr>]"
  "fst (Subscribe eid b) = (length (eb_chans b), eb_next b)"
  by (simp_all add: Subscribe_def Let_def)

lemma cancel_simps:
  "eb_subs b eid key = Some ch \<Longrightarrow> eb_subs (cancel eid key b) = (eb_subs b)(eid := (eb_subs b eid)(key := None))"
  "eb_subs b eid key = Some ch \<Longrightarrow>
     eb_chans (cancel eid key b) = (eb_chans b)[ch := (eb_chans b ! ch)\<lparr>ch_closed := True\<rparr>]"
  "eb_subs b eid key = Some ch \<Longrightarrow> eb_next (cancel eid key b) = eb_next b"
  by (simp_all add: cancel_def)

lemma cancel_None: "eb_subs b eid key = None \<Longrightarrow> cancel eid key b = b"
  by (simp add: cancel_def)

lemma bus_invD:
  assumes "bus_inv b" "eb_subs b eid key = Some ch"
  shows "ch < length (eb_chans b)" "\<not> ch_closed (eb_chans b ! ch)" "0 \<le> key" "key < eb_next b"
  using assms unfolding bus_inv_def by blast+

lemma bus_inv_init: "bus_inv NewEventBus"
  by (simp add: bus_inv_def NewEventBus_def)

lemma Subscribe_subs:
  assumes "bus_inv b"
  shows "eb_subs (snd (Subscribe eid b)) e k = Some ch \<longleftrightarrow>
    eb_subs b e k = Some ch \<or> e = eid \<and> k = eb_next b \<and> ch = length (eb_chans b)"
proof -
  have "eb_subs b eid (eb_next b) = None"
    using bus_invD [OF assms, of eid "eb_next b"] by (cases "eb_subs b eid (eb_next b)") auto
  then show ?thesis
    by (auto simp: Subscribe_simps)
qed

lemma bus_inv_Subscribe:
  assumes "bus_inv b" "length (eb_chans b) < 2 ^ 63 - 1"
  shows "bus_inv (snd (Subscribe eid b))"
proof -
  have nx: "int (length (eb_chans b)) = eb_next b"
    using assms(1) unfolding bus_inv_def by blast
  have "int (length (eb_chans b)) < 2 ^ 63 - 1"
    using assms(2) by simp
  then have w: "wrap64 (eb_next b + 1) = eb_next b + 1"
    using nx by (intro wrap64_id) (simp add: int64_range_def)
  have old: "eb_subs b e k = Some ch \<Longrightarrow> ch < length (eb_chans b)" for e k ch
    using bus_invD [OF assms(1)] by blast
  let ?b = "snd (Subscribe eid b)"
  note sub = Subscribe_subs [OF assms(1)]
  show ?thesis
    unfolding bus_inv_def
  proof (intro conjI allI impI)
    fix e k ch assume "eb_subs ?b e k = Some ch"
    then have "eb_subs b e k = Some ch \<or> ch = length (eb_chans b)"
      by (auto simp: sub)
    then show "ch < length (eb_chans ?b)" "\<not> ch_closed (eb_chans ?b ! ch)"
      using bus_invD(1,2) [OF assms(1), of e k ch] by (auto simp: Subscribe_simps nth_append)
  next
    fix e k e' k' ch assume "eb_subs ?b e k = Some ch" "eb_subs ?b e' k' = Some ch"
    then show "e = e'" "k = k'"
      using assms(1) old unfolding sub bus_inv_def by (metis less_irrefl)+
  next
    fix ch assume "ch < length (eb_chans ?b)"
    then show "length (ch_buf (eb_chans ?b ! ch)) \<le> ch_cap"
      using assms(1) by (auto simp: Subscribe_simps nth_append bus_inv_def less_Suc_eq)
  next
    fix ch assume ch: "ch < length (eb_chans ?b)" "\<not> ch_closed (eb_chans ?b ! ch)"
    show "\<exists>e k. eb_subs ?b e k = Some ch"
    proof (cases "ch = length (eb_chans b)")
      case False
      then have "ch < length (eb_chans b)" "\<not> ch_closed (eb_chans b ! ch)"
        using ch by (auto simp: Subscribe_simps nth_append)
      then show ?thesis
        using assms(1) unfolding sub bus_inv_def by blast
    qed (auto simp: sub)
  next
    show "int (length (eb_chans ?b)) = eb_next ?b"
      using nx w by (simp add: Subscribe_simps)
  next
    fix e k assume "eb_subs ?b e k \<noteq> None"
    then obtain ch where "eb_subs ?b e k = Some ch" by blast
    then have "eb_subs b e k = Some ch \<or> k = eb_next b"
      by (auto simp: sub)
    then show "0 \<le> k" "k < eb_next ?b"
      using bus_invD [OF assms(1), of e k ch] nx w by (auto simp: Subscribe_simps)
  qed
qed

text \<open>A cancelled subscription is gone, and its channel, which no other has, is closed.\<close>

lemma cancel_subs:
  assumes "eb_subs b eid key = Some c"
  shows "eb_subs (cancel eid key b) e k = Some ch \<longleftrightarrow> eb_subs b e k = Some ch \<and> (e, k) \<noteq> (eid, key)"
  by (auto simp: cancel_simps [OF assms])

lemma cancel_chans:
  assumes "bus_inv b" "eb_subs b eid key = Some c"
  shows "length (eb_chans (cancel eid key b)) = length (eb_chans b)"
    and "i < length (eb_chans b) \<Longrightarrow> eb_chans (cancel eid key b) ! i =
      (if i = c then (eb_chans b ! c)\<lparr>ch_closed := True\<rparr> else eb_chans b ! i)"
  using bus_invD [OF assms] by (simp_all add: cancel_simps [OF assms(2)])

lemma bus_inv_cancel:
  assumes inv: "bus_inv b"
  shows "bus_inv (cancel eid key b)"
proof (cases "eb_subs b eid key")
  case None
  then show ?thesis using inv by (simp add: cancel_None)
next
  case (Some c)
  let ?b = "cancel eid key b"
  note c = bus_invD [OF inv Some]
  note sub = cancel_subs [OF Some] and len = cancel_chans(1) [OF inv Some] and chans = cancel_chans(2) [OF inv Some]
  have uniq: "eb_subs b e k = Some c \<Longrightarrow> (e, k) = (eid, key)" for e k
    using inv Some unfolding bus_inv_def by blast
  show ?thesis
    unfolding bus_inv_def
  proof (intro conjI allI impI)
    fix e k ch assume s: "eb_subs ?b e k = Some ch"
    then have "ch \<noteq> c"
      using uniq [of e k] by (auto simp: sub)
    then show "ch < length (eb_chans ?b)" "\<not> ch_closed (eb_chans ?b ! ch)"
      using s bus_invD [OF inv, of e k ch] by (auto simp: sub len chans)
  next
    fix e k e' k' ch assume "eb_subs ?b e k = Some ch" "eb_subs ?b e' k' = Some ch"
    then show "e = e'" "k = k'"
      using inv unfolding sub bus_inv_def by blast+
  next
    fix ch assume "ch < length (eb_chans ?b)"
    then show "length (ch_buf (eb_chans ?b ! ch)) \<le> ch_cap"
      using inv c by (auto simp: len chans bus_inv_def)
  next
    fix ch assume ch: "ch < length (eb_chans ?b)" "\<not> ch_closed (eb_chans ?b ! ch)"
    then have "ch \<noteq> c" "\<not> ch_closed (eb_chans b ! ch)"
      by (auto simp: len chans split: if_splits)
    then obtain e k where ek: "eb_subs b e k = Some ch"
      using inv ch(1) unfolding len bus_inv_def by blast
    then have "(e, k) \<noteq> (eid, key)"
      using \<open>ch \<noteq> c\<close> Some by auto
    then show "\<exists>e k. eb_subs ?b e k = Some ch"
      using ek sub by blast
  next
    show "int (length (eb_chans ?b)) = eb_next ?b"
      using inv unfolding len by (simp add: cancel_simps [OF Some] bus_inv_def)
  next
    fix e k assume "eb_subs ?b e k \<noteq> None"
    then obtain ch where "eb_subs b e k = Some ch"
      using sub by blast
    then show "0 \<le> k" "k < eb_next ?b"
      using bus_invD [OF inv] by (auto simp: cancel_simps [OF Some])
  qed
qed

text \<open>Steps that only change buffers keep the invariant.\<close>

lemma bus_inv_buffers:
  assumes "bus_inv b" "eb_subs b' = eb_subs b" "eb_next b' = eb_next b"
    and "length (eb_chans b') = length (eb_chans b)"
    and "\<And>i. i < length (eb_chans b) \<Longrightarrow> ch_closed (eb_chans b' ! i) = ch_closed (eb_chans b ! i) \<and>
      length (ch_buf (eb_chans b' ! i)) \<le> ch_cap"
  shows "bus_inv b'"
  using assms unfolding bus_inv_def by simp

lemma bus_inv_Publish: "bus_inv b \<Longrightarrow> bus_inv (Publish ev b)"
  by (rule bus_inv_buffers [of b]) (auto simp: Publish_nth offer_def bus_inv_def)

lemma receive_simps:
  "eb_subs (snd (receive ch b)) = eb_subs b" "eb_next (snd (receive ch b)) = eb_next b"
  "length (eb_chans (snd (receive ch b))) = length (eb_chans b)"
  by (simp_all add: receive_def split: list.split)

lemma receive_nth:
  "i < length (eb_chans b) \<Longrightarrow> eb_chans (snd (receive ch b)) ! i =
     (if i = ch then (eb_chans b ! i)\<lparr>ch_buf := tl (ch_buf (eb_chans b ! i))\<rparr> else eb_chans b ! i)"
  by (auto simp: receive_def nth_list_update split: list.split)

lemma bus_inv_receive: "bus_inv b \<Longrightarrow> bus_inv (snd (receive ch b))"
  by (rule bus_inv_buffers [of b])
    (auto simp: receive_simps receive_nth bus_inv_def intro: order_trans [OF diff_le_self])

lemma bus_step_length: "bus_step b b' \<Longrightarrow> length (eb_chans b) \<le> length (eb_chans b')"
proof (erule bus_stepE)
  show "length (eb_chans b) \<le> length (eb_chans b')" if "b' = cancel eid key b" for eid key
    using that by (simp add: cancel_def split: option.split)
qed (auto simp: Subscribe_simps receive_simps)

lemma bus_step_inv: "bus_step b b' \<Longrightarrow> bus_inv b \<Longrightarrow> length (eb_chans b') < 2 ^ 63 \<Longrightarrow> bus_inv b'"
  by (erule bus_stepE)
    (auto intro: bus_inv_Subscribe bus_inv_cancel bus_inv_Publish bus_inv_receive simp: Subscribe_simps)

lemma reachable_inv: "reachable b \<Longrightarrow> length (eb_chans b) < 2 ^ 63 \<Longrightarrow> bus_inv b"
proof (induction rule: reachable.induct)
  case (reach_step b b')
  then show ?case
    using bus_step_length [of b b'] bus_step_inv [of b b'] by simp
qed (rule bus_inv_init)

lemma Subscribe_buffer:
  assumes "reachable b" "length (eb_chans b) < 2 ^ 63 - 1"
  shows "ch_buf (eb_chans (fold Publish evs (snd (Subscribe eid b))) ! fst (fst (Subscribe eid b))) =
    take 8 (filter (\<lambda>ev. sv_id ev = eid) evs)"
proof -
  let ?ch = "length (eb_chans b)"
  let ?b = "snd (Subscribe eid b)"
  have inv: "bus_inv ?b"
    using reachable_inv [OF assms(1)] bus_inv_Subscribe [OF _ assms(2)] assms(2) by simp
  have own: "eb_subs ?b eid (eb_next b) = Some ?ch"
    by (simp add: Subscribe_simps)
  then have only: "eb_subs ?b e k = Some ?ch \<Longrightarrow> e = eid" for e k
    using inv unfolding bus_inv_def by blast
  have "ch_buf (eb_chans (fold Publish evs b') ! ?ch) =
      take 8 (ch_buf (eb_chans b' ! ?ch) @ filter (\<lambda>ev. sv_id ev = eid) evs)"
    if "eb_subs b' = eb_subs ?b" "?ch < length (eb_chans b')" "length (ch_buf (eb_chans b' ! ?ch)) \<le> 8" for b'
    using that
  proof (induction evs arbitrary: b')
    case (Cons ev evs)
    have "subscribed b' (sv_id ev) ?ch \<longleftrightarrow> sv_id ev = eid"
      using own only Cons.prems(1) by (auto simp: subscribed_def ran_def)
    then have step: "eb_chans (Publish ev b') ! ?ch =
        (if sv_id ev = eid then offer ev (eb_chans b' ! ?ch) else eb_chans b' ! ?ch)"
      using Cons.prems(2) by (simp add: Publish_nth)
    then have "length (ch_buf (eb_chans (Publish ev b') ! ?ch)) \<le> 8"
      using Cons.prems(3) by (simp add: offer_def ch_cap_def)
    then show ?case
      using Cons.IH [of "Publish ev b'"] Cons.prems step
      by (auto simp: offer_def ch_cap_def take_Cons' less_diff_conv)
  qed simp
  from this [of ?b] show ?thesis
    by (simp add: Subscribe_simps)
qed

section \<open>Properties\<close>

text \<open>C13: in every interleaving of subscriptions, cancellations, publications and receives the
  bus never sends on a closed channel and never closes a channel twice (either would panic):
  the channels registered are exactly the open ones, each under one key of one event id, and
  no buffer exceeds its capacity.\<close>

theorem bus_safe:
  assumes "reachable b" "length (eb_chans b) < 2 ^ 63"
  shows "(\<forall>eid ch. subscribed b eid ch \<longrightarrow> ch < length (eb_chans b) \<and> \<not> ch_closed (eb_chans b ! ch)) \<and>
    (\<forall>ch < length (eb_chans b). \<not> ch_closed (eb_chans b ! ch) \<longrightarrow> (\<exists>!(eid, key). eb_subs b eid key = Some ch)) \<and>
    (\<forall>ch < length (eb_chans b). length (ch_buf (eb_chans b ! ch)) \<le> 8)"
proof -
  have inv: "bus_inv b"
    by (rule reachable_inv [OF assms])
  have "\<exists>!(eid, key). eb_subs b eid key = Some ch"
    if ch: "ch < length (eb_chans b)" "\<not> ch_closed (eb_chans b ! ch)" for ch
  proof -
    obtain e k where ek: "eb_subs b e k = Some ch"
      using inv ch unfolding bus_inv_def by blast
    show ?thesis
    proof (rule ex1I [of _ "(e, k)"])
      show "case (e, k) of (eid, key) \<Rightarrow> eb_subs b eid key = Some ch"
        using ek by simp
    next
      fix x assume "case x of (eid, key) \<Rightarrow> eb_subs b eid key = Some ch"
      then have "eb_subs b (fst x) (snd x) = Some ch"
        by (simp add: case_prod_beta)
      then have "fst x = e" "snd x = k"
        using inv ek unfolding bus_inv_def by blast+
      then show "x = (e, k)"
        by (simp add: prod_eq_iff)
    qed
  qed
  moreover have "\<forall>ch < length (eb_chans b). length (ch_buf (eb_chans b ! ch)) \<le> 8"
    using inv unfolding bus_inv_def ch_cap_def by blast
  moreover have "\<forall>eid ch. subscribed b eid ch \<longrightarrow> ch < length (eb_chans b) \<and> \<not> ch_closed (eb_chans b ! ch)"
    using bus_invD(1,2) [OF inv] unfolding subscribed_def ran_def by blast
  ultimately show ?thesis by simp
qed

text \<open>Two subscriptions to one event, one of which is cancelled.\<close>

definition sample_bus :: bus where
  "sample_bus = cancel 4 0 (snd (Subscribe 4 (snd (Subscribe 4 NewEventBus))))"

lemma sample_reachable: "reachable sample_bus"
  unfolding sample_bus_def
  by (intro reach_step [OF _ step_cancel] reach_step [OF _ step_subscribe] reach_init)

lemma sample_bus_eq:
  "eb_chans sample_bus = [\<lparr>ch_buf = [], ch_closed = True\<rparr>, \<lparr>ch_buf = [], ch_closed = False\<rparr>]"
  by (simp add: sample_bus_def cancel_def Subscribe_def NewEventBus_def Let_def wrap64_id int64_range_def)

theorem bus_safe_witness: "\<exists>!(eid, key). eb_subs sample_bus eid key = Some 1"
  using bus_safe [OF sample_reachable] by (simp add: sample_bus_eq)

text \<open>a subscriber that does not read loses nothing until eight events wait: after
  subscribing, its channel holds the first eight events of its id among those published
  since, in order, whatever other events are published; every event published to a full
  buffer is dropped for that subscriber alone.\<close>

theorem Subscribe_collects:
  assumes "reachable b" "length (eb_chans b) < 2 ^ 63 - 1"
  shows "ch_buf (eb_chans (fold Publish evs (snd (Subscribe eid b))) ! fst (fst (Subscribe eid b))) =
    take 8 (filter (\<lambda>ev. sv_id ev = eid) evs)"
  by (rule Subscribe_buffer [OF assms])

theorem Subscribe_collects_witness:
  "ch_buf (eb_chans (fold Publish [\<lparr>sv_id = 3, sv_data = None\<rparr>, \<lparr>sv_id = 4, sv_data = Some JNull\<rparr>]
     (snd (Subscribe 4 sample_bus))) ! fst (fst (Subscribe 4 sample_bus))) = [\<lparr>sv_id = 4, sv_data = Some JNull\<rparr>]"
  using Subscribe_collects [OF sample_reachable, of "[\<lparr>sv_id = 3, sv_data = None\<rparr>, \<lparr>sv_id = 4, sv_data = Some JNull\<rparr>]" 4]
  by (simp add: sample_bus_eq del: fold_simps)

end
