(* ===== verification/Session_Client.thy ===== *)
theory Session_Client
  imports Session_Events Stats_Store
begin

text \<open>
  The client handle: \<open>pkg/session/client.go\<close>; \<open>Connect\<close> and \<open>Close\<close> are in \<open>Session_Connect\<close>. The subscriber dispatches to the statistics store and
  the event bus, which make up the state \<open>client_disp\<close>.
\<close>

section \<open>Dispatching\<close>

definition APIClass :: string where "APIClass = ''STL''"
definition APIMajor :: int where "APIMajor = 5"
definition APIMinor :: int where "APIMinor = 1"
definition DefaultUser :: string where "DefaultUser = ''trex''"

record client =
  cl_username :: string
  cl_sessionID :: u32

record client_disp =
  cd_stats :: store
  cd_events :: bus

definition stats_channels :: "string list" where
  "stats_channels = [''trex-global'', ''flow_stats'', ''latency_stats'']"

definition Dispatch :: "async_event \<Rightarrow> client_disp \<Rightarrow> client_disp" where
  "Dispatch ev d =
     (if ae_name ev \<in> set stats_channels then d\<lparr>cd_stats := Store_Dispatch ev (cd_stats d)\<rparr>
      else if ae_name ev = ''trex-event'' then
        d\<lparr>cd_events := Publish \<lparr>sv_id = ae_type ev, sv_data = ae_data ev\<rparr> (cd_events d)\<rparr>
      else d)"

section \<open>Queries\<close>

record version =
  ve_version :: string
  ve_build_date :: string
  ve_build_time :: string
  ve_built_by :: string
  ve_mode :: string

record system_info =
  si_hostname :: string
  si_uptime :: string
  si_dp_core_count :: int
  si_core_type :: string
  si_port_count :: int
  si_ports :: "json option"

datatype client_error = ClCall call_error | ClDecode

definition dec_version :: "json \<Rightarrow> version option" where
  "dec_version j = Option.bind (as_obj j) (\<lambda>kvs.
     case (dec_str (jget ''version'' kvs), dec_str (jget ''build_date'' kvs), dec_str (jget ''build_time'' kvs),
           dec_str (jget ''built_by'' kvs), dec_str (jget ''mode'' kvs)) of
       (Some v, Some d, Some t, Some b, Some m) \<Rightarrow>
         Some \<lparr>ve_version = v, ve_build_date = d, ve_build_time = t, ve_built_by = b, ve_mode = m\<rparr>
     | _ \<Rightarrow> None)"

definition dec_system_info :: "json \<Rightarrow> system_info option" where
  "dec_system_info j = Option.bind (as_obj j) (\<lambda>kvs.
     case (dec_str (jget ''hostname'' kvs), dec_str (jget ''uptime'' kvs), dec_int (jget ''dp_core_count'' kvs),
           dec_str (jget ''core_type'' kvs), dec_int (jget ''port_count'' kvs)) of
       (Some h, Some u, Some d, Some t, Some p) \<Rightarrow>
         Some \<lparr>si_hostname = h, si_uptime = u, si_dp_core_count = d, si_core_type = t,
               si_port_count = p, si_ports = jget ''ports'' kvs\<rparr>
     | _ \<Rightarrow> None)"

definition GetVersion :: "'w env \<Rightarrow> 'w conn \<Rightarrow> (client_error + version) \<times> 'w conn" where
  "GetVersion en c = (case Call en ''get_version'' None c of
      (Inl e, c') \<Rightarrow> (Inl (ClCall e), c')
    | (Inr res, c') \<Rightarrow>
        (case Option.bind res dec_version of None \<Rightarrow> (Inl ClDecode, c') | Some v \<Rightarrow> (Inr v, c')))"

definition GetSystemInfo :: "'w env \<Rightarrow> 'w conn \<Rightarrow> (client_error + system_info) \<times> 'w conn" where
  "GetSystemInfo en c = (case Call en ''get_system_info'' None c of
      (Inl e, c') \<Rightarrow> (Inl (ClCall e), c')
    | (Inr res, c') \<Rightarrow>
        (case Option.bind res dec_system_info of None \<Rightarrow> (Inl ClDecode, c') | Some v \<Rightarrow> (Inr v, c')))"

definition Ping :: "'w env \<Rightarrow> 'w conn \<Rightarrow> (call_error + json option) \<times> 'w conn" where
  "Ping en c = Call en ''ping'' None c"

section \<open>The barrier\<close>

text \<open>
  One turn of the loop of \<open>Barrier\<close>: the random key of the request, the events that the
  subscriber dispatches before the select fires, and which of its cases fires.
\<close>

datatype wake = Deadline | Tick

datatype barrier_error = BarrierCall call_error | BarrierTimeout

fun barrier_loop :: "'w env \<Rightarrow> u64 \<Rightarrow> bool \<Rightarrow> (u32 \<times> async_event list \<times> wake) list \<Rightarrow>
    'w conn \<times> client_disp \<Rightarrow> (barrier_error + unit) option \<times> 'w conn \<times> client_disp" where
  "barrier_loop en gen baseline [] s = (None, s)"
| "barrier_loop en gen baseline ((key, evs, w) # turns) (c, d) =
     (case Call en ''publish_now''
             (Some [(''key'', Some (JInt (uint key))), (''baseline'', Some (JBool baseline))]) c of
        (Inl e, c') \<Rightarrow> (Some (Inl (BarrierCall e)), c', d)
      | (Inr _, c') \<Rightarrow>
          (let d' = fold Dispatch evs d in
           case w of
             Deadline \<Rightarrow> (Some (Inl BarrierTimeout), c', d')
           | Tick \<Rightarrow>
               (if gen < Generation (cd_stats d') then (Some (Inr ()), c', d')
                else barrier_loop en gen baseline turns (c', d'))))"

text \<open>\<open>None\<close>: the barrier is still waiting after the given turns.\<close>

definition Barrier :: "'w env \<Rightarrow> bool \<Rightarrow> (u32 \<times> async_event list \<times> wake) list \<Rightarrow>
    'w conn \<times> client_disp \<Rightarrow> (barrier_error + unit) option \<times> 'w conn \<times> client_disp" where
  "Barrier en baseline turns s = barrier_loop en (Generation (cd_stats (snd s))) baseline turns s"

section \<open>Lemmas\<close>

lemma Dispatch_bus:
  "cd_events (Dispatch ev d) = (if ae_name ev = ''trex-event''
     then Publish \<lparr>sv_id = ae_type ev, sv_data = ae_data ev\<rparr> (cd_events d) else cd_events d)"
  by (auto simp: Dispatch_def stats_channels_def)

lemma Dispatch_stats:
  "cd_stats (Dispatch ev d) =
     (if ae_name ev \<in> set stats_channels then Store_Dispatch ev (cd_stats d) else cd_stats d)"
  by (simp add: Dispatch_def)

lemma Dispatch_fold_stats:
  "cd_stats (fold Dispatch evs d) =
     fold Store_Dispatch (filter (\<lambda>ev. ae_name ev \<in> set stats_channels) evs) (cd_stats d)"
  by (induction evs arbitrary: d) (simp_all add: Dispatch_stats)

text \<open>The progress of a client: known channels stay known, registrations are left alone.\<close>

definition client_progress :: "client_disp \<Rightarrow> client_disp \<Rightarrow> bool" where
  "client_progress d e \<longleftrightarrow> dom (so_latest (cd_stats d)) \<subseteq> dom (so_latest (cd_stats e)) \<and>
     so_ref (cd_stats e) = so_ref (cd_stats d) \<and>
     eb_subs (cd_events e) = eb_subs (cd_events d) \<and> eb_next (cd_events e) = eb_next (cd_events d)"

interpretation client: dispatcher Dispatch "\<lambda>d. bus_inv (cd_events d)" client_progress
proof unfold_locales
  fix ev d
  show "bus_inv (cd_events (Dispatch ev d))" if "bus_inv (cd_events d)"
    using that by (simp add: Dispatch_bus bus_inv_Publish)
  show "client_progress d (Dispatch ev d)"
    by (auto simp: client_progress_def Dispatch_bus Dispatch_stats Store_Dispatch_def)
qed (auto simp: client_progress_def)

lemma barrier_loop_fresh:
  "barrier_loop en gen baseline turns (c, d) = (Some (Inr ()), c', d') \<Longrightarrow>
   gen < Generation (cd_stats d') \<and>
   (\<exists>n \<le> length turns. 0 < n \<and> d' = fold Dispatch (concat (map (fst \<circ> snd) (take n turns))) d)"
proof (induction turns arbitrary: c d)
  case (Cons t turns)
  obtain key evs w where t: "t = (key, evs, w)" by (metis prod_cases3)
  show ?case
  proof (cases "gen < Generation (cd_stats (fold Dispatch evs d)) \<or> w = Deadline")
    case True
    with Cons.prems t have "d' = fold Dispatch evs d" "gen < Generation (cd_stats d')"
      by (auto simp: Let_def split: prod.splits sum.splits wake.splits if_splits)
    then show ?thesis
      using t by (intro conjI exI [of _ 1]) simp_all
  next
    case False
    with Cons.prems t obtain c1 where
      "barrier_loop en gen baseline turns (c1, fold Dispatch evs d) = (Some (Inr ()), c', d')"
      by (auto simp: Let_def split: prod.splits sum.splits wake.splits if_splits)
    from Cons.IH [OF this] obtain n where "gen < Generation (cd_stats d')" "n \<le> length turns"
      "d' = fold Dispatch (concat (map (fst \<circ> snd) (take n turns))) (fold Dispatch evs d)"
      by blast
    then show ?thesis
      using t by (intro conjI exI [of _ "Suc n"]) (simp_all add: comp_def)
  qed
qed simp

section \<open>Properties\<close>

text \<open>whatever arrives on the publisher socket and whatever the server answers, the
  subscriber keeps the event bus sound (no send on a closed channel), never forgets a
  statistics channel it has seen, and touches neither the reference of the last clear nor the
  registrations of the subscribers.\<close>

theorem Run_keeps_client:
  assumes "bus_inv (cd_events (sb_disp s))" "Run en Dispatch sid inp (c, s) = (stopped, c', s')"
  shows "bus_inv (cd_events (sb_disp s')) \<and> client_progress (sb_disp s) (sb_disp s')"
  using client.Run_keeps [of "(c, s)" en sid inp] assms by simp

definition sample_disp :: client_disp where
  "sample_disp = \<lparr>cd_stats = NewStore, cd_events = NewEventBus\<rparr>"

theorem Run_keeps_client_witness:
  "client_progress sample_disp (sb_disp (snd (snd (Run sample_env Dispatch 7 [Message (unary_write (JObj [])), Cancelled]
     (sample_conn, \<lparr>sb_seq = 0, sb_errors = [], sb_disp = sample_disp\<rparr>)))))"
proof -
  obtain st c' s' where r: "Run sample_env Dispatch 7 [Message (unary_write (JObj [])), Cancelled]
      (sample_conn, \<lparr>sb_seq = 0, sb_errors = [], sb_disp = sample_disp\<rparr>) = (st, c', s')"
    by (metis prod_cases3)
  have "bus_inv (cd_events (sb_disp \<lparr>sb_seq = 0, sb_errors = [], sb_disp = sample_disp\<rparr>))"
    by (simp add: sample_disp_def bus_inv_init)
  from Run_keeps_client [OF this r] show ?thesis
    unfolding r by simp
qed

text \<open>C38: a barrier that succeeds has seen fresh data: a statistics payload was recorded after
  the barrier began, and the store holds the last one of each channel.\<close>

theorem Barrier_fresh:
  assumes "Barrier en baseline turns (c, d) = (Some (Inr ()), c', d')"
  shows "Generation (cd_stats d) < Generation (cd_stats d') \<and>
    (\<exists>evs. d' = fold Dispatch evs d \<and> set evs \<subseteq> (\<Union>(_, es, _) \<in> set turns. set es) \<and>
       (\<exists>ev \<in> set evs. ae_name ev \<in> set stats_channels))"
proof -
  from assms have loop: "barrier_loop en (Generation (cd_stats d)) baseline turns (c, d) = (Some (Inr ()), c', d')"
    by (simp add: Barrier_def)
  obtain n where gen: "Generation (cd_stats d) < Generation (cd_stats d')"
    and n: "d' = fold Dispatch (concat (map (fst \<circ> snd) (take n turns))) d"
    using barrier_loop_fresh [OF loop] by blast
  let ?evs = "concat (map (fst \<circ> snd) (take n turns))"
  have "\<exists>ev \<in> set ?evs. ae_name ev \<in> set stats_channels"
  proof (rule ccontr)
    assume "\<not> ?thesis"
    then have none: "filter (\<lambda>ev. ae_name ev \<in> set stats_channels) ?evs = []"
      by (simp only: filter_empty_conv) blast
    have "Generation (cd_stats d') = Generation (cd_stats d)"
      unfolding n Dispatch_fold_stats none by simp
    with gen show False by simp
  qed
  moreover have "set ?evs \<subseteq> (\<Union>(_, es, _) \<in> set turns. set es)"
    using set_take_subset [of n turns] by fastforce
  ultimately show ?thesis
    using gen n by blast
qed

theorem Barrier_fresh_witness:
  "\<exists>evs. snd (snd (Barrier sample_env False [(1, [sample_event 5], Tick)] (sample_conn, sample_disp))) = fold Dispatch evs sample_disp
     \<and> (\<exists>ev \<in> set evs. ae_name ev \<in> set stats_channels)"
proof -
  have ok: "params_ok (Some [(''key'', Some (JInt (uint (1::u32)))), (''baseline'', Some (JBool False))])"
    by (simp add: params_ok_def entries_def)
  have reply: "\<exists>v. read_reply (fst (sample_server r n)) = Inr v" for r n
    by (simp add: sample_server_def read_reply_def dec_response_def as_obj_def jget_def dec_str_def fold_key_def)
  obtain v c1 where call: "Call sample_env ''publish_now''
      (Some [(''key'', Some (JInt (uint (1::u32)))), (''baseline'', Some (JBool False))]) sample_conn = (Inr v, c1)"
    using abstract_call_sends [OF ok, of sample_conn "''publish_now''" sample_server] reply
    unfolding Call_def callLocked_abstract [OF stored_zlib_round_trip unary_codec sample_conn_ready] by metis
  have "Generation (cd_stats sample_disp) < Generation (cd_stats (fold Dispatch [sample_event 5] sample_disp))"
    by (simp add: sample_disp_def sample_event_def Dispatch_stats stats_channels_def store_defs)
  then have b: "Barrier sample_env False [(1, [sample_event 5], Tick)] (sample_conn, sample_disp) =
      (Some (Inr ()), c1, fold Dispatch [sample_event 5] sample_disp)"
    using call by (simp add: Barrier_def)
  from Barrier_fresh [OF b] show ?thesis
    unfolding b by auto
qed

end
