(* ===== verification/Session_Connect.thy ===== *)
theory Session_Connect
  imports Session_Client
begin

text \<open>
  Setting a session up and tearing it down: \<open>Connect\<close> and \<open>Close\<close> of \<open>pkg/session/client.go\<close>, \<open>Dial\<close>
  of \<open>pkg/rpc/connection.go\<close> and \<open>NewSubscriber\<close> of \<open>pkg/rpc/subscriber.go\<close>. The ZeroMQ library
  is outside: what dialling an endpoint gives is a parameter, and the operations on sockets are
  recorded in order.
\<close>

section \<open>Sockets\<close>

datatype socket = SyncSocket | AsyncSocket
datatype socket_op = Dialled socket | Closed socket

text \<open>
  Dialling the request socket gives an error or a channel; dialling the subscriber socket and
  setting its subscription give an error or nothing.
\<close>

record 'w sockets =
  sk_dial_req :: "string \<Rightarrow> string + 'w"
  sk_dial_sub :: "string \<Rightarrow> string option"
  sk_subscribe :: "string option"

definition DefaultSyncPort :: int where "DefaultSyncPort = 4501"
definition DefaultAsyncPort :: int where "DefaultAsyncPort = 4500"

definition endpoint :: "string \<Rightarrow> int \<Rightarrow> string" where
  "endpoint host port = ''tcp://'' @ host @ '':'' @ itoa port"

datatype connect_error =
    CoDial string string
  | CoHandshake call_error
  | CoSubDial string string
  | CoSubscribe string

definition Dial :: "'w sockets \<Rightarrow> string \<Rightarrow> int \<Rightarrow> (connect_error + 'w conn) \<times> socket_op list" where
  "Dial sk host port = (let ep = endpoint host port in
     case sk_dial_req sk ep of
       Inl e \<Rightarrow> (Inl (CoDial ep e), [])
     | Inr w \<Rightarrow> (Inr \<lparr>cn_world = w, cn_idCounter = 0, cn_apiH = []\<rparr>, [Dialled SyncSocket]))"

definition NewSubscriber :: "'w sockets \<Rightarrow> string \<Rightarrow> int \<Rightarrow> 'd \<Rightarrow> (connect_error + 'd sub) \<times> socket_op list" where
  "NewSubscriber sk host port disp = (let ep = endpoint host port in
     case sk_dial_sub sk ep of
       Some e \<Rightarrow> (Inl (CoSubDial ep e), [])
     | None \<Rightarrow>
         (case sk_subscribe sk of
            Some e \<Rightarrow> (Inl (CoSubscribe e), [Dialled AsyncSocket])
          | None \<Rightarrow> (Inr \<lparr>sb_seq = 0, sb_errors = [], sb_disp = disp\<rparr>, [Dialled AsyncSocket])))"

section \<open>Sessions\<close>

record 'w session =
  ss_host :: string
  ss_client :: client
  ss_conn :: "'w conn"
  ss_sub :: "client_disp sub"

text \<open>\<open>rnd\<close> is the number that the random generator gives.\<close>

definition Connect :: "'w env \<Rightarrow> 'w sockets \<Rightarrow> u32 \<Rightarrow> string \<Rightarrow> string \<Rightarrow>
    (connect_error + 'w session) \<times> socket_op list" where
  "Connect en sk rnd host username = (let user = (if username = [] then DefaultUser else username) in
     case Dial sk host DefaultSyncPort of
       (Inl e, ops) \<Rightarrow> (Inl e, ops)
     | (Inr c, ops) \<Rightarrow>
         (case Handshake en APIClass APIMajor APIMinor c of
            (Inl e, c1) \<Rightarrow> (Inl (CoHandshake e), ops @ [Closed SyncSocket])
          | (Inr _, c1) \<Rightarrow>
              (case NewSubscriber sk host DefaultAsyncPort \<lparr>cd_stats = NewStore, cd_events = NewEventBus\<rparr> of
                 (Inl e, ops') \<Rightarrow> (Inl e, ops @ ops' @ [Closed SyncSocket])
               | (Inr sub, ops') \<Rightarrow>
                   (Inr \<lparr>ss_host = host, ss_client = \<lparr>cl_username = user, cl_sessionID = rnd\<rparr>, ss_conn = c1, ss_sub = sub\<rparr>,
                    ops @ ops'))))"

text \<open>
  \<open>Close\<close>: the context is cancelled and the subscriber socket closed; the goroutine may still
  handle messages it had received, then its receive fails; \<open>Close\<close> waits for its end before it
  closes the connection. The first component tells whether that end came.
\<close>

definition session_Close :: "'w env \<Rightarrow> u8 list list \<Rightarrow> string \<Rightarrow> 'w session \<Rightarrow> bool \<times> 'w session \<times> socket_op list" where
  "session_Close en pending err s =
     (case Run en Dispatch (cl_sessionID (ss_client s)) (map Message pending @ [RecvFailed True err]) (ss_conn s, ss_sub s) of
        (returned, c, sub) \<Rightarrow> (returned, s\<lparr>ss_conn := c, ss_sub := sub\<rparr>,
          Closed AsyncSocket # (if returned then [Closed SyncSocket] else [])))"

section \<open>Lemmas\<close>

text \<open>The sockets that are open after some operations.\<close>

fun open_sockets :: "socket_op list \<Rightarrow> socket set \<Rightarrow> socket set" where
  "open_sockets [] S = S"
| "open_sockets (Dialled s # ops) S = open_sockets ops (insert s S)"
| "open_sockets (Closed s # ops) S = open_sockets ops (S - {s})"

lemma open_sockets_append [simp]: "open_sockets (xs @ ys) S = open_sockets ys (open_sockets xs S)"
  by (induction xs S rule: open_sockets.induct) simp_all

text \<open>Once the socket is closed under it, the receive loop ends, whatever it had still to handle.\<close>

lemma Run_ends: "fst (Run en dispatch sid (map Message pending @ RecvFailed True err # rest) cs)"
  by (induction pending arbitrary: cs) simp_all

lemma Handshake_request:
  assumes "zlib_round_trip zl" "json_codec wr rd" "lk_reply (cn_world c) = None"
    and "Handshake (link_env zl wr rd srv big) name major minor c = (Inr u, c')"
  shows "\<exists>r result kvs. sends (cn_apiH c) (cn_idCounter c) ''api_sync_v2''
        (Some [(''name'', Some (JStr name)), (''major'', Some (JInt major)), (''minor'', Some (JInt minor))]) r \<and>
      lk_log (cn_world c') = lk_log (cn_world c) @ [r] \<and> lk_reply (cn_world c') = None \<and>
      read_reply (fst (srv r (lk_server (cn_world c)))) = Inr (Some result) \<and> as_obj result = Some kvs \<and>
      dec_str (jget ''api_h'' kvs) = Some (cn_apiH c') \<and> cn_apiH c' \<noteq> []"
proof -
  let ?ps = "Some [(''name'', Some (JStr name)), (''major'', Some (JInt major)), (''minor'', Some (JInt minor))]"
  have "params_ok ?ps"
    by (simp add: params_ok_def entries_def)
  from abstract_call_sends [OF this, of c "''api_sync_v2''" srv]
  obtain r where r: "sends (cn_apiH c) (cn_idCounter c) ''api_sync_v2'' ?ps r"
    "callLocked (link_env zl wr rd srv big) ''api_sync_v2'' ?ps c = (read_reply (fst (srv r (lk_server (cn_world c)))),
       c\<lparr>cn_idCounter := cn_idCounter c + 1, cn_world :=
         \<lparr>lk_server = snd (srv r (lk_server (cn_world c))), lk_reply = None,
          lk_log = lk_log (cn_world c) @ [r]\<rparr>\<rparr>)"
    unfolding callLocked_abstract [OF assms(1-3)] by blast
  from assms(4) r(2) obtain result kvs where
    "read_reply (fst (srv r (lk_server (cn_world c)))) = Inr (Some result)" "as_obj result = Some kvs"
    "dec_str (jget ''api_h'' kvs) = Some (cn_apiH c')" "cn_apiH c' \<noteq> []"
    "lk_log (cn_world c') = lk_log (cn_world c) @ [r]" "lk_reply (cn_world c') = None"
    by (auto simp: Handshake_def bind_eq_Some_conv split: sum.splits option.splits if_splits)
  with r(1) show ?thesis by blast
qed

lemma ports_text: "itoa 4501 = ''4501''" "itoa 4500 = ''4500''"
  by (simp_all add: itoa_def nat_digits.simps)

lemma Connect_Inl:
  "Connect en sk rnd host username = (Inl e, ops) \<Longrightarrow>
     open_sockets ops {} = (case e of CoSubscribe _ \<Rightarrow> {AsyncSocket} | _ \<Rightarrow> {})"
  by (auto simp: Connect_def Dial_def NewSubscriber_def Let_def split: sum.splits option.splits prod.splits)

lemma Connect_Inr:
  assumes "Connect en sk rnd host username = (Inr s, ops)"
  obtains w c where "sk_dial_req sk (''tcp://'' @ host @ '':4501'') = Inr w"
    "Handshake en ''STL'' 5 1 \<lparr>cn_world = w, cn_idCounter = 0, cn_apiH = []\<rparr> = (Inr (), c)"
    "s = \<lparr>ss_host = host, ss_client = \<lparr>cl_username = (if username = [] then DefaultUser else username), cl_sessionID = rnd\<rparr>,
       ss_conn = c, ss_sub = \<lparr>sb_seq = 0, sb_errors = [], sb_disp = \<lparr>cd_stats = NewStore, cd_events = NewEventBus\<rparr>\<rparr>\<rparr>"
    "ops = [Dialled SyncSocket, Dialled AsyncSocket]"
  using assms that
  by (auto simp: Connect_def Dial_def NewSubscriber_def Let_def endpoint_def DefaultSyncPort_def ports_text
      APIClass_def APIMajor_def APIMinor_def split: sum.splits option.splits prod.splits)

lemma session_Close_ends:
  assumes "session_Close en pending err s = (returned, s', ops)"
  shows "returned" "ops = [Closed AsyncSocket, Closed SyncSocket]"
    "Run en Dispatch (cl_sessionID (ss_client s)) (map Message pending @ [RecvFailed True err]) (ss_conn s, ss_sub s) =
       (True, ss_conn s', ss_sub s')"
  using assms Run_ends [of en Dispatch "cl_sessionID (ss_client s)" pending err "[]" "(ss_conn s, ss_sub s)"]
  by (auto simp: session_Close_def split: prod.splits)

section \<open>Property\<close>

text \<open>C39: \<open>Connect\<close> returns a session whose first and only request was the handshake for version
  5.1 of the STL interface, which holds the handle that the server answered with, a fresh store
  and a fresh bus, with both sockets open; \<open>Close\<close> then ends, whatever messages are still to be
  handled, and leaves no socket open. A \<open>Connect\<close> that fails leaves no socket open either, but
  for the subscriber socket when its subscription is refused.\<close>

theorem Connect_outcome:
  assumes "zlib_round_trip zl" "json_codec wr rd" "\<forall>ep w. sk_dial_req sk ep = Inr w \<longrightarrow> lk_reply w = None"
    and "Connect (link_env zl wr rd srv big) sk rnd host username = (res, ops)"
  shows "case res of
      Inl e \<Rightarrow> open_sockets ops {} = (case e of CoSubscribe _ \<Rightarrow> {AsyncSocket} | _ \<Rightarrow> {})
    | Inr s \<Rightarrow> open_sockets ops {} = {SyncSocket, AsyncSocket} \<and> ss_host s = host \<and>
        ss_client s = \<lparr>cl_username = (if username = [] then ''trex'' else username), cl_sessionID = rnd\<rparr> \<and>
        sb_disp (ss_sub s) = \<lparr>cd_stats = NewStore, cd_events = NewEventBus\<rparr> \<and> lk_reply (cn_world (ss_conn s)) = None \<and>
        (\<exists>w r result kvs. sk_dial_req sk (''tcp://'' @ host @ '':4501'') = Inr w \<and>
           lk_log (cn_world (ss_conn s)) = lk_log w @ [r] \<and> req_method r = ''api_sync_v2'' \<and>
           req_param ''name'' r = Some (JStr ''STL'') \<and> req_param ''major'' r = Some (JInt 5) \<and>
           req_param ''minor'' r = Some (JInt 1) \<and>
           read_reply (fst (srv r (lk_server w))) = Inr (Some result) \<and> as_obj result = Some kvs \<and>
           dec_str (jget ''api_h'' kvs) = Some (cn_apiH (ss_conn s)) \<and> cn_apiH (ss_conn s) \<noteq> []) \<and>
        (\<forall>pending err. case session_Close (link_env zl wr rd srv big) pending err s of
           (returned, s', ops') \<Rightarrow> returned \<and> open_sockets (ops @ ops') {} = {})"
proof (cases res)
  case (Inl e)
  with Connect_Inl [OF assms(4) [unfolded Inl]] show ?thesis by simp
next
  case (Inr s)
  let ?en = "link_env zl wr rd srv big"
  obtain w c where w: "sk_dial_req sk (''tcp://'' @ host @ '':4501'') = Inr w"
    "Handshake ?en ''STL'' 5 1 \<lparr>cn_world = w, cn_idCounter = 0, cn_apiH = []\<rparr> = (Inr (), c)"
    "s = \<lparr>ss_host = host, ss_client = \<lparr>cl_username = (if username = [] then DefaultUser else username), cl_sessionID = rnd\<rparr>,
       ss_conn = c, ss_sub = \<lparr>sb_seq = 0, sb_errors = [], sb_disp = \<lparr>cd_stats = NewStore, cd_events = NewEventBus\<rparr>\<rparr>\<rparr>"
    "ops = [Dialled SyncSocket, Dialled AsyncSocket]"
    by (rule Connect_Inr [OF assms(4) [unfolded Inr]])
  have "lk_reply (cn_world \<lparr>cn_world = w, cn_idCounter = 0, cn_apiH = []\<rparr>) = None"
    using assms(3) w(1) by simp
  from Handshake_request [OF assms(1,2) this w(2)] obtain r result kvs where
    r: "sends [] 0 ''api_sync_v2'' (Some [(''name'', Some (JStr ''STL'')), (''major'', Some (JInt 5)), (''minor'', Some (JInt 1))]) r"
    "lk_log (cn_world c) = lk_log w @ [r]" "lk_reply (cn_world c) = None"
    "read_reply (fst (srv r (lk_server w))) = Inr (Some result)" "as_obj result = Some kvs"
    "dec_str (jget ''api_h'' kvs) = Some (cn_apiH c)" "cn_apiH c \<noteq> []"
    by auto
  have "req_method r = ''api_sync_v2''" "req_param ''name'' r = Some (JStr ''STL'')"
    "req_param ''major'' r = Some (JInt 5)" "req_param ''minor'' r = Some (JInt 1)"
    using r(1) by (simp_all add: sends_def entries_def)
  moreover have "case session_Close ?en pending err s of (returned, s', ops') \<Rightarrow>
      returned \<and> open_sockets (ops @ ops') {} = {}" for pending err
    using session_Close_ends [of ?en pending err s] by (auto simp: w(4) split: prod.splits)
  ultimately show ?thesis
    using w r by (auto simp: Inr DefaultUser_def)
qed

definition sample_sockets :: "nat link sockets" where
  "sample_sockets = \<lparr>sk_dial_req = \<lambda>_. Inr \<lparr>lk_server = 0, lk_reply = None, lk_log = []\<rparr>, sk_dial_sub = \<lambda>_. None,
     sk_subscribe = None\<rparr>"

theorem Connect_outcome_witness:
  "\<exists>s ops. Connect sample_env sample_sockets 7 ''host'' [] = (Inr s, ops) \<and> ss_client s = \<lparr>cl_username = ''trex'', cl_sessionID = 7\<rparr> \<and>
     cn_apiH (ss_conn s) \<noteq> [] \<and> open_sockets ops {} = {SyncSocket, AsyncSocket}"
proof -
  obtain res c' where h: "Handshake sample_env ''STL'' 5 1 sample_conn = (res, c')" by fastforce
  have ne: "cn_apiH c' \<noteq> []"
    using Handshake_installs_witness h by simp
  have "res = Inr ()"
  proof (cases res)
    case (Inl e)
    with Handshake_installs [OF stored_zlib_round_trip unary_codec sample_conn_ready h] ne show ?thesis
      by (simp add: sample_conn_def)
  qed simp
  then obtain s ops where c: "Connect sample_env sample_sockets 7 ''host'' [] = (Inr s, ops)"
    using h by (simp add: Connect_def Dial_def NewSubscriber_def sample_sockets_def sample_conn_def APIClass_def APIMajor_def
        APIMinor_def Let_def)
  have "\<forall>ep w. sk_dial_req sample_sockets ep = Inr w \<longrightarrow> lk_reply w = None"
    by (simp add: sample_sockets_def)
  from Connect_outcome [OF stored_zlib_round_trip unary_codec this c] c show ?thesis
    by auto
qed

end
