(* ===== verification/Session_Port.thy ===== *)
theory Session_Port
  imports Session_Client Stl_Stream
begin

text \<open>
  Ports: \<open>pkg/session/port.go\<close> and \<open>pkg/session/status.go\<close>. A port is its id and the handler
  that the server gave when it was acquired; operations that write the handler return the
  port, the others leave it alone.
\<close>

section \<open>Ports\<close>

definition DefaultProfileID :: string where "DefaultProfileID = ''_''"

definition maskAll :: u64 where "maskAll = - 1"

record mult =
  mu_type :: string
  mu_value :: f64
  mu_op :: string

definition MultRaw :: string where "MultRaw = ''raw''"
definition MultBPS :: string where "MultBPS = ''bps''"
definition MultPPS :: string where "MultPPS = ''pps''"
definition MultPercentage :: string where "MultPercentage = ''percentage''"
definition MultOpAbs :: string where "MultOpAbs = ''abs''"
definition MultOpAdd :: string where "MultOpAdd = ''add''"
definition MultOpSub :: string where "MultOpSub = ''sub''"

record port =
  pt_id :: int
  pt_handler :: "json option"

definition Client_Port :: "int \<Rightarrow> port" where
  "Client_Port i = \<lparr>pt_id = i, pt_handler = None\<rparr>"

text \<open>
  Errors: those wrapped with the port's id, those returned as they are, those of a stream of
  a batch, those of decoding, and an index out of range, which is a panic.
\<close>

datatype port_error =
    PortCall int call_error
  | PortRaw call_error
  | PortStream nat int rpc_error
  | PortDecode int
  | PortPanic

text \<open>A nil handler is marshalled as null.\<close>

definition handler_json :: "port \<Rightarrow> json option" where
  "handler_json p = Some (case pt_handler p of None \<Rightarrow> JNull | Some j \<Rightarrow> j)"

definition mult_json :: "mult \<Rightarrow> json option" where
  "mult_json m = map_option
     (\<lambda>v. JObj [(''type'', JStr (mu_type m)), (''value'', v), (''op'', JStr (mu_op m))]) (json_of_f64 (mu_value m))"

section \<open>Operations\<close>

definition Acquire :: "'w env \<Rightarrow> client \<Rightarrow> bool \<Rightarrow> port \<Rightarrow> 'w conn \<Rightarrow> (port_error + unit) \<times> port \<times> 'w conn" where
  "Acquire en cl force p c =
     (case Call en ''acquire''
             (Some [(''port_id'', Some (JInt (pt_id p))), (''user'', Some (JStr (cl_username cl))),
                    (''session_id'', Some (JInt (uint (cl_sessionID cl)))), (''force'', Some (JBool force))]) c of
        (Inl e, c') \<Rightarrow> (Inl (PortCall (pt_id p) e), p, c')
      | (Inr res, c') \<Rightarrow> (Inr (), p\<lparr>pt_handler := res\<rparr>, c'))"

definition Release :: "'w env \<Rightarrow> port \<Rightarrow> 'w conn \<Rightarrow> (port_error + unit) \<times> port \<times> 'w conn" where
  "Release en p c =
     (case Call en ''release'' (Some [(''port_id'', Some (JInt (pt_id p))), (''handler'', handler_json p)]) c of
        (Inl e, c') \<Rightarrow> (Inl (PortCall (pt_id p) e), p, c')
      | (Inr _, c') \<Rightarrow> (Inr (), p\<lparr>pt_handler := None\<rparr>, c'))"

text \<open>The parameters that the traffic operations share.\<close>

definition profile_params :: "port \<Rightarrow> (string \<times> json option) list" where
  "profile_params p = [(''handler'', handler_json p), (''port_id'', Some (JInt (pt_id p))),
     (''profile_id'', Some (JStr DefaultProfileID))]"

definition RemoveAllStreams :: "'w env \<Rightarrow> port \<Rightarrow> 'w conn \<Rightarrow> (port_error + unit) \<times> 'w conn" where
  "RemoveAllStreams en p c = (case Call en ''remove_all_streams'' (Some (profile_params p)) c of
      (Inl e, c') \<Rightarrow> (Inl (PortRaw e), c')
    | (Inr _, c') \<Rightarrow> (Inr (), c'))"

text \<open>The batch of \<open>AddStreams\<close> and the loop over the responses.\<close>

definition add_stream_call :: "port \<Rightarrow> resolved_stream \<Rightarrow> batch_call" where
  "add_stream_call p s = \<lparr>bc_method = ''add_stream'',
     bc_params = Some (profile_params p @ [(''stream_id'', Some (JInt (rs_id s))), (''stream'', Some (rs_json s))])\<rparr>"

fun check_responses :: "resolved_stream list \<Rightarrow> nat \<Rightarrow> response list \<Rightarrow> port_error + unit" where
  "check_responses streams i [] = Inr ()"
| "check_responses streams i (r # rs) = (case rp_error r of
      None \<Rightarrow> check_responses streams (Suc i) rs
    | Some e \<Rightarrow> (if i < length streams then Inl (PortStream i (rs_id (streams ! i)) e) else Inl PortPanic))"

definition AddStreams :: "'w env \<Rightarrow> port \<Rightarrow> resolved_stream list \<Rightarrow> 'w conn \<Rightarrow> (port_error + unit) \<times> 'w conn" where
  "AddStreams en p streams c = (case CallBatch en (map (add_stream_call p) streams) c of
      (Inl e, c') \<Rightarrow> (Inl (PortCall (pt_id p) e), c')
    | (Inr resps, c') \<Rightarrow> (check_responses streams 0 resps, c'))"

definition default_op :: "mult \<Rightarrow> mult" where
  "default_op m = (if mu_op m = [] then m\<lparr>mu_op := MultOpAbs\<rparr> else m)"

definition Start :: "'w env \<Rightarrow> port \<Rightarrow> mult \<Rightarrow> f64 \<Rightarrow> bool \<Rightarrow> f64 \<Rightarrow> 'w conn \<Rightarrow> (port_error + unit) \<times> 'w conn" where
  "Start en p mul duration force startAtTs c =
     (case Call en ''start_traffic''
             (Some (profile_params p @
               [(''mul'', mult_json (default_op mul)), (''duration'', json_of_f64 duration),
                (''force'', Some (JBool force)), (''core_mask'', Some (json_of_u64 maskAll)),
                (''start_at_ts'', json_of_f64 startAtTs)])) c of
        (Inl e, c') \<Rightarrow> (Inl (PortCall (pt_id p) e), c')
      | (Inr _, c') \<Rightarrow> (Inr (), c'))"

definition Stop :: "'w env \<Rightarrow> port \<Rightarrow> 'w conn \<Rightarrow> (port_error + unit) \<times> 'w conn" where
  "Stop en p c = (case Call en ''stop_traffic'' (Some (profile_params p)) c of
      (Inl e, c') \<Rightarrow> (Inl (PortCall (pt_id p) e), c')
    | (Inr _, c') \<Rightarrow> (Inr (), c'))"

definition Pause :: "'w env \<Rightarrow> port \<Rightarrow> 'w conn \<Rightarrow> (port_error + unit) \<times> 'w conn" where
  "Pause en p c = (case Call en ''pause_traffic'' (Some (profile_params p)) c of
      (Inl e, c') \<Rightarrow> (Inl (PortRaw e), c')
    | (Inr _, c') \<Rightarrow> (Inr (), c'))"

definition Resume :: "'w env \<Rightarrow> port \<Rightarrow> 'w conn \<Rightarrow> (port_error + unit) \<times> 'w conn" where
  "Resume en p c = (case Call en ''resume_traffic'' (Some (profile_params p)) c of
      (Inl e, c') \<Rightarrow> (Inl (PortRaw e), c')
    | (Inr _, c') \<Rightarrow> (Inr (), c'))"

definition Update :: "'w env \<Rightarrow> port \<Rightarrow> mult \<Rightarrow> bool \<Rightarrow> 'w conn \<Rightarrow> (port_error + unit) \<times> 'w conn" where
  "Update en p mul force c =
     (case Call en ''update_traffic''
             (Some (profile_params p @
               [(''mul'', mult_json (default_op mul)), (''force'', Some (JBool force))])) c of
        (Inl e, c') \<Rightarrow> (Inl (PortCall (pt_id p) e), c')
      | (Inr _, c') \<Rightarrow> (Inr (), c'))"

section \<open>Waiting for the end of the traffic\<close>

definition eventPortID :: "json option \<Rightarrow> int" where
  "eventPortID data = (case Option.bind data (\<lambda>j. Option.bind (as_obj j) (\<lambda>kvs. dec_int_ptr (jget ''port_id'' kvs))) of
      Some (Some i) \<Rightarrow> i
    | _ \<Rightarrow> -1)"

text \<open>The goroutine of \<open>WaitJobDone\<close>: whether it signals after reading the given events.\<close>

fun wait_job :: "int \<Rightarrow> server_event list \<Rightarrow> bool" where
  "wait_job i [] = False"
| "wait_job i (ev # evs) = (if eventPortID (sv_data ev) = i then True else wait_job i evs)"

section \<open>Status\<close>

record port_info =
  pi_index :: int
  pi_driver :: string
  pi_numa :: int
  pi_pci_addr :: string
  pi_hw_mac :: string

definition dec_port_info :: "json \<Rightarrow> port_info option" where
  "dec_port_info j = Option.bind (as_obj j) (\<lambda>kvs.
     case (dec_int (jget ''index'' kvs), dec_str (jget ''driver'' kvs), dec_int (jget ''numa'' kvs),
           dec_str (jget ''pci_addr'' kvs), dec_str (jget ''hw_mac'' kvs)) of
       (Some i, Some d, Some n, Some a, Some m) \<Rightarrow>
         Some \<lparr>pi_index = i, pi_driver = d, pi_numa = n, pi_pci_addr = a, pi_hw_mac = m\<rparr>
     | _ \<Rightarrow> None)"

text \<open>\<open>Inr None\<close> is the nil slice of a reply without ports.\<close>

definition PortInfos :: "system_info \<Rightarrow> unit + port_info list option" where
  "PortInfos s = (case si_ports s of
      None \<Rightarrow> Inr None
    | Some ports \<Rightarrow>
        (case dec_list dec_port_info (Some ports) of
           None \<Rightarrow> Inl ()
         | Some is \<Rightarrow> Inr (if ports = JNull then None else Some is)))"

record port_status =
  px_owner :: string
  px_state :: string
  px_linkUp :: bool
  px_speed :: f64

definition sub_obj :: "string \<Rightarrow> (string \<times> json) list \<Rightarrow> (string \<times> json) list option" where
  "sub_obj k kvs = (case jget k kvs of None \<Rightarrow> Some [] | Some j \<Rightarrow> as_obj j)"

definition dec_port_status :: "json \<Rightarrow> port_status option" where
  "dec_port_status j = Option.bind (as_obj j) (\<lambda>kvs. Option.bind (sub_obj ''attr'' kvs) (\<lambda>attr.
     Option.bind (sub_obj ''link'' attr) (\<lambda>link.
       case (dec_str (jget ''owner'' kvs), dec_str (jget ''state'' kvs), dec_bool (jget ''up'' link),
             dec_f64 (jget ''speed'' attr)) of
         (Some ow, Some st, Some up, Some sp) \<Rightarrow>
           Some \<lparr>px_owner = ow, px_state = st, px_linkUp = up, px_speed = sp\<rparr>
       | _ \<Rightarrow> None)))"

definition Status :: "'w env \<Rightarrow> port \<Rightarrow> 'w conn \<Rightarrow> (port_error + port_status) \<times> 'w conn" where
  "Status en p c = (case Call en ''get_port_status'' (Some [(''port_id'', Some (JInt (pt_id p)))]) c of
      (Inl e, c') \<Rightarrow> (Inl (PortCall (pt_id p) e), c')
    | (Inr res, c') \<Rightarrow>
        (case Option.bind res dec_port_status of None \<Rightarrow> (Inl (PortDecode (pt_id p)), c') | Some st \<Rightarrow> (Inr st, c')))"

section \<open>Contracts\<close>

text \<open>The operations of a port that exchange one request with the server.\<close>

datatype port_op =
    OpAcquire bool
  | OpRelease
  | OpRemoveAllStreams
  | OpStart mult f64 bool f64
  | OpStop
  | OpPause
  | OpResume
  | OpUpdate mult bool
  | OpStatus

fun port_step :: "'w env \<Rightarrow> client \<Rightarrow> port_op \<Rightarrow> port \<times> 'w conn \<Rightarrow> port \<times> 'w conn" where
  "port_step en cl (OpAcquire f) (p, c) = snd (Acquire en cl f p c)"
| "port_step en cl OpRelease (p, c) = snd (Release en p c)"
| "port_step en cl OpRemoveAllStreams (p, c) = (p, snd (RemoveAllStreams en p c))"
| "port_step en cl (OpStart m d f t) (p, c) = (p, snd (Start en p m d f t c))"
| "port_step en cl OpStop (p, c) = (p, snd (Stop en p c))"
| "port_step en cl OpPause (p, c) = (p, snd (Pause en p c))"
| "port_step en cl OpResume (p, c) = (p, snd (Resume en p c))"
| "port_step en cl (OpUpdate m f) (p, c) = (p, snd (Update en p m f c))"
| "port_step en cl OpStatus (p, c) = (p, snd (Status en p c))"

fun op_method :: "port_op \<Rightarrow> string" where
  "op_method (OpAcquire f) = ''acquire''"
| "op_method OpRelease = ''release''"
| "op_method OpRemoveAllStreams = ''remove_all_streams''"
| "op_method (OpStart m d f t) = ''start_traffic''"
| "op_method OpStop = ''stop_traffic''"
| "op_method OpPause = ''pause_traffic''"
| "op_method OpResume = ''resume_traffic''"
| "op_method (OpUpdate m f) = ''update_traffic''"
| "op_method OpStatus = ''get_port_status''"

fun op_params :: "client \<Rightarrow> port \<Rightarrow> port_op \<Rightarrow> (string \<times> json option) list" where
  "op_params cl p (OpAcquire f) = [(''port_id'', Some (JInt (pt_id p))), (''user'', Some (JStr (cl_username cl))),
     (''session_id'', Some (JInt (uint (cl_sessionID cl)))), (''force'', Some (JBool f))]"
| "op_params cl p OpRelease = [(''port_id'', Some (JInt (pt_id p))), (''handler'', handler_json p)]"
| "op_params cl p (OpStart m d f t) = profile_params p @
     [(''mul'', mult_json (default_op m)), (''duration'', json_of_f64 d), (''force'', Some (JBool f)),
      (''core_mask'', Some (json_of_u64 maskAll)), (''start_at_ts'', json_of_f64 t)]"
| "op_params cl p (OpUpdate m f) = profile_params p @
     [(''mul'', mult_json (default_op m)), (''force'', Some (JBool f))]"
| "op_params cl p OpStatus = [(''port_id'', Some (JInt (pt_id p)))]"
| "op_params cl p _ = profile_params p"

text \<open>What an operation makes of the port, given the result of its call.\<close>

fun op_port :: "port_op \<Rightarrow> port \<Rightarrow> call_error + json option \<Rightarrow> port" where
  "op_port (OpAcquire f) p res = (case res of Inr h \<Rightarrow> p\<lparr>pt_handler := h\<rparr> | Inl _ \<Rightarrow> p)"
| "op_port OpRelease p res = (case res of Inr _ \<Rightarrow> p\<lparr>pt_handler := None\<rparr> | Inl _ \<Rightarrow> p)"
| "op_port _ p res = p"

fun op_finite :: "port_op \<Rightarrow> bool" where
  "op_finite (OpStart m d f t) = (f_finite (mu_value m) \<and> f_finite d \<and> f_finite t)"
| "op_finite (OpUpdate m f) = f_finite (mu_value m)"
| "op_finite _ = True"

lemma port_step_Call:
  "port_step en cl op (p, c) =
     (op_port op p (fst (Call en (op_method op) (Some (op_params cl p op)) c)),
      snd (Call en (op_method op) (Some (op_params cl p op)) c))"
  by (cases op) (auto simp: Acquire_def Release_def RemoveAllStreams_def Start_def Stop_def Pause_def
      Resume_def Update_def Status_def split: prod.splits sum.splits option.splits)

lemma mult_json_finite: "f_finite (mu_value m) \<Longrightarrow> mult_json (default_op m) \<noteq> None"
  by (simp add: mult_json_def default_op_def)

lemma handler_json_some [simp]: "handler_json p \<noteq> None"
  by (simp add: handler_json_def)

lemma op_params_ok: "op_finite op \<Longrightarrow> params_ok (Some (op_params cl p op))"
  by (cases op) (auto simp: params_ok_def entries_def profile_params_def mult_json_finite handler_json_def
      mult_json_def default_op_def f_finite_def json_of_f64_def split: f64.splits)

text \<open>The handler and the operation of a multiplier, as a request carries them.\<close>

definition uses_handler :: "port_op \<Rightarrow> bool" where
  "uses_handler op \<longleftrightarrow> (case op of OpAcquire _ \<Rightarrow> False | OpStatus \<Rightarrow> False | _ \<Rightarrow> True)"

lemma sends_params:
  assumes "sends h n m (Some ps) r" "k \<noteq> ''api_h'' \<or> h = []"
  shows "req_param k r = Option.bind (map_of ps k) (\<lambda>v. v)"
  using assms by (cases "h = []") (auto simp: sends_def entries_def)

lemma op_params_port: "map_of (op_params cl p op) ''port_id'' = Some (Some (JInt (pt_id p)))"
  by (cases op) (simp_all add: profile_params_def)

lemma op_params_handler: "uses_handler op \<Longrightarrow> map_of (op_params cl p op) ''handler'' = Some (handler_json p)"
  by (cases op) (simp_all add: profile_params_def uses_handler_def)

lemma check_responses_spec:
  "check_responses streams i rs = Inr () \<longleftrightarrow> list_all (\<lambda>r. rp_error r = None) rs"
  "i + length rs \<le> length streams \<Longrightarrow> check_responses streams i rs \<noteq> Inl PortPanic"
  by (induction rs arbitrary: i) (auto split: option.splits)

lemma port_step_exchange:
  assumes "zlib_round_trip zl" "json_codec wr rd" "lk_reply (cn_world c) = None" "op_finite op"
    and "port_step (link_env zl wr rd srv big) cl op (p, c) = (p', c')"
  shows "\<exists>r. lk_log (cn_world c') = lk_log (cn_world c) @ [r] \<and> req_method r = op_method op \<and>
    req_param ''port_id'' r = Some (JInt (pt_id p)) \<and>
    (uses_handler op \<longrightarrow> req_param ''handler'' r = handler_json p) \<and>
    p' = op_port op p (read_reply (fst (srv r (lk_server (cn_world c))))) \<and>
    lk_reply (cn_world c') = None"
proof -
  let ?en = "link_env zl wr rd srv big"
  let ?ps = "Some (op_params cl p op)"
  obtain r where r: "sends (cn_apiH c) (cn_idCounter c) (op_method op) ?ps r"
    and call: "Call ?en (op_method op) ?ps c =
      (read_reply (fst (srv r (lk_server (cn_world c)))),
       c\<lparr>cn_idCounter := cn_idCounter c + 1, cn_world :=
         \<lparr>lk_server = snd (srv r (lk_server (cn_world c))), lk_reply = None,
          lk_log = lk_log (cn_world c) @ [r]\<rparr>\<rparr>)"
    using abstract_call_sends [OF op_params_ok [OF assms(4), of cl p], of c "op_method op" srv]
    unfolding Call_def callLocked_abstract [OF assms(1-3)] by blast
  have "req_method r = op_method op"
    using r by (simp add: sends_def)
  moreover have "req_param ''port_id'' r = Some (JInt (pt_id p))"
    using sends_params [OF r, of "''port_id''"] by (simp add: op_params_port)
  moreover have "uses_handler op \<longrightarrow> req_param ''handler'' r = handler_json p"
    using sends_params [OF r, of "''handler''"] by (simp add: op_params_handler)
  ultimately show ?thesis
    using assms(5) unfolding port_step_Call call by (intro exI [of _ r]) auto
qed

text \<open>What an upload does to the link: the batch is one message and one transition of the server.\<close>

lemma AddStreams_link:
  assumes "zlib_round_trip zl" "brace_codec wr rd" "lk_reply (cn_world c) = None"
    and "AddStreams (link_env zl wr rd srv big) p streams c = (res, c')"
  shows "\<exists>rs. lk_log (cn_world c') = lk_log (cn_world c) @ [JArr rs] \<and> length rs = length streams \<and>
    lk_reply (cn_world c') = None \<and> lk_server (cn_world c') = snd (srv (JArr rs) (lk_server (cn_world c))) \<and>
    (\<forall>i < length streams. req_method (rs ! i) = ''add_stream'' \<and>
       req_param ''port_id'' (rs ! i) = Some (JInt (pt_id p)) \<and> req_param ''handler'' (rs ! i) = handler_json p \<and>
       req_param ''stream_id'' (rs ! i) = Some (JInt (rs_id (streams ! i))) \<and>
       req_param ''stream'' (rs ! i) = Some (rs_json (streams ! i))) \<and>
    res = (case read_batch (fst (srv (JArr rs) (lk_server (cn_world c)))) of
        Inl e \<Rightarrow> Inl (PortCall (pt_id p) e)
      | Inr xs \<Rightarrow> check_responses streams 0 xs)"
proof -
  let ?en = "link_env zl wr rd srv big"
  let ?bcs = "map (add_stream_call p) streams"
  have ok: "batch_ok ?bcs"
    by (auto simp: batch_ok_def list_all_iff add_stream_call_def params_ok_def entries_def profile_params_def
        handler_json_def)
  obtain rs where rs: "length rs = length streams"
    "\<And>i. i < length streams \<Longrightarrow> sends (cn_apiH c) (cn_idCounter c + of_nat i) ''add_stream''
       (bc_params (add_stream_call p (streams ! i))) (rs ! i)"
    and call: "CallBatch ?en ?bcs c =
      (read_batch (fst (srv (JArr rs) (lk_server (cn_world c)))),
       c\<lparr>cn_idCounter := cn_idCounter c + of_nat (length ?bcs), cn_world :=
         \<lparr>lk_server = snd (srv (JArr rs) (lk_server (cn_world c))), lk_reply = None,
          lk_log = lk_log (cn_world c) @ [JArr rs]\<rparr>\<rparr>)"
    using CallBatch_abstract [OF assms(1-3) ok, of srv big] by (auto simp: add_stream_call_def)
  have req: "req_method (rs ! i) = ''add_stream'' \<and>
       req_param ''port_id'' (rs ! i) = Some (JInt (pt_id p)) \<and> req_param ''handler'' (rs ! i) = handler_json p \<and>
       req_param ''stream_id'' (rs ! i) = Some (JInt (rs_id (streams ! i))) \<and>
       req_param ''stream'' (rs ! i) = Some (rs_json (streams ! i))" if "i < length streams" for i
    using rs(2) [OF that] by (simp add: sends_def entries_def add_stream_call_def profile_params_def)
  show ?thesis
    using req rs(1) assms(4) call by (intro exI [of _ rs]) (auto simp: AddStreams_def split: sum.splits)
qed

section \<open>Properties\<close>

text \<open>C15: every operation of a port sends the server exactly one request, of its own method and
  for its own port; all but acquire and status carry the handler the port holds, and the
  handler changes only when the server grants an acquire (to what it returned) or a release
  (to none): a failed call leaves the port as it was.\<close>

theorem port_step_contract:
  assumes "zlib_round_trip zl" "json_codec wr rd" "lk_reply (cn_world c) = None" "op_finite op"
    and "port_step (link_env zl wr rd srv big) cl op (p, c) = (p', c')"
  shows "\<exists>r. lk_log (cn_world c') = lk_log (cn_world c) @ [r] \<and> req_method r = op_method op \<and>
    req_param ''port_id'' r = Some (JInt (pt_id p)) \<and>
    (uses_handler op \<longrightarrow> req_param ''handler'' r = handler_json p) \<and>
    p' = op_port op p (read_reply (fst (srv r (lk_server (cn_world c))))) \<and>
    lk_reply (cn_world c') = None"
  using assms by (rule port_step_exchange)

theorem port_step_contract_witness:
  "\<exists>r. lk_log (cn_world (snd (port_step sample_env \<lparr>cl_username = ''trex'', cl_sessionID = 7\<rparr> OpStop
       (\<lparr>pt_id = 2, pt_handler = Some (JStr ''h'')\<rparr>, sample_conn)))) = [r] \<and>
     req_param ''handler'' r = Some (JStr ''h'')"
proof -
  obtain p' c' where s: "port_step sample_env \<lparr>cl_username = ''trex'', cl_sessionID = 7\<rparr> OpStop
       (\<lparr>pt_id = 2, pt_handler = Some (JStr ''h'')\<rparr>, sample_conn) = (p', c')"
    by (metis surj_pair)
  have "op_finite OpStop" by simp
  from port_step_contract [OF stored_zlib_round_trip unary_codec sample_conn_ready this s] show ?thesis
    unfolding s by (auto simp: sample_conn_def uses_handler_def handler_json_def)
qed

text \<open>C36: uploading streams is one batch: the server sees one add_stream request per stream, in
  order, with the stream's id and wire object and the port's handler; the upload succeeds
  exactly when no response carries an error, and otherwise the first stream with an error is
  reported. With at most one response per stream it cannot panic.\<close>

theorem AddStreams_contract:
  assumes "zlib_round_trip zl" "brace_codec wr rd" "lk_reply (cn_world c) = None"
    and "AddStreams (link_env zl wr rd srv big) p streams c = (res, c')"
  shows "\<exists>rs resps. lk_log (cn_world c') = lk_log (cn_world c) @ [JArr rs] \<and> length rs = length streams \<and>
    (\<forall>i < length streams. req_method (rs ! i) = ''add_stream'' \<and>
       req_param ''port_id'' (rs ! i) = Some (JInt (pt_id p)) \<and> req_param ''handler'' (rs ! i) = handler_json p \<and>
       req_param ''stream_id'' (rs ! i) = Some (JInt (rs_id (streams ! i))) \<and>
       req_param ''stream'' (rs ! i) = Some (rs_json (streams ! i))) \<and>
    resps = read_batch (fst (srv (JArr rs) (lk_server (cn_world c)))) \<and>
    (res = Inr () \<longleftrightarrow> (\<exists>xs. resps = Inr xs \<and> list_all (\<lambda>r. rp_error r = None) xs)) \<and>
    (\<forall>xs. resps = Inr xs \<longrightarrow> length xs \<le> length streams \<longrightarrow> res \<noteq> Inl PortPanic)"
proof -
  obtain rs where rs: "lk_log (cn_world c') = lk_log (cn_world c) @ [JArr rs]" "length rs = length streams"
    "\<forall>i < length streams. req_method (rs ! i) = ''add_stream'' \<and>
       req_param ''port_id'' (rs ! i) = Some (JInt (pt_id p)) \<and> req_param ''handler'' (rs ! i) = handler_json p \<and>
       req_param ''stream_id'' (rs ! i) = Some (JInt (rs_id (streams ! i))) \<and>
       req_param ''stream'' (rs ! i) = Some (rs_json (streams ! i))"
    and res: "res = (case read_batch (fst (srv (JArr rs) (lk_server (cn_world c)))) of
        Inl e \<Rightarrow> Inl (PortCall (pt_id p) e)
      | Inr xs \<Rightarrow> check_responses streams 0 xs)"
    using AddStreams_link [OF assms] by blast
  let ?resps = "read_batch (fst (srv (JArr rs) (lk_server (cn_world c))))"
  have "(res = Inr ()) = (\<exists>xs. ?resps = Inr xs \<and> list_all (\<lambda>r. rp_error r = None) xs)"
    by (cases ?resps) (simp_all add: res check_responses_spec)
  moreover have "\<forall>xs. ?resps = Inr xs \<longrightarrow> length xs \<le> length streams \<longrightarrow> res \<noteq> Inl PortPanic"
    by (simp add: res check_responses_spec)
  ultimately show ?thesis
    using rs by (intro exI [of _ rs] exI [of _ ?resps]) blast
qed

theorem AddStreams_contract_witness:
  "\<exists>r. lk_log (cn_world (snd (AddStreams sample_env \<lparr>pt_id = 2, pt_handler = None\<rparr>
       [\<lparr>rs_id = 5, rs_json = JNull\<rparr>] sample_conn))) = [JArr [r]] \<and>
     req_param ''stream_id'' r = Some (JInt 5)"
proof -
  obtain res c' where a: "AddStreams sample_env \<lparr>pt_id = 2, pt_handler = None\<rparr>
       [\<lparr>rs_id = 5, rs_json = JNull\<rparr>] sample_conn = (res, c')"
    by (metis surj_pair)
  obtain rs where "lk_log (cn_world c') = [JArr rs]" "length rs = 1"
    "req_param ''stream_id'' (rs ! 0) = Some (JInt 5)"
    using AddStreams_contract [OF stored_zlib_round_trip unary_brace_codec sample_conn_ready a]
    by (auto simp: sample_conn_def)
  then show ?thesis
    unfolding a by (auto simp: length_Suc_conv)
qed

text \<open>a waiter that subscribed before the traffic was started is told of the end of its own
  port's traffic as soon as the server reports it, unless eight other job-done events wait
  unread, and is never woken by the events of other ports or of other kinds.\<close>

theorem WaitJobDone_signal:
  assumes "reachable b" "length (eb_chans b) < 2 ^ 63 - 1"
  shows "wait_job i (ch_buf (eb_chans (fold Publish evs (snd (Subscribe EventPortJobDone b)))
           ! fst (fst (Subscribe EventPortJobDone b)))) \<longleftrightarrow>
    (\<exists>ev \<in> set (take 8 (filter (\<lambda>ev. sv_id ev = EventPortJobDone) evs)). eventPortID (sv_data ev) = i)"
proof -
  have "wait_job i es \<longleftrightarrow> (\<exists>ev \<in> set es. eventPortID (sv_data ev) = i)" for es
    by (induction es) auto
  then show ?thesis
    by (simp only: Subscribe_buffer [OF assms])
qed

definition job_done :: "int \<Rightarrow> server_event" where
  "job_done i = \<lparr>sv_id = 4, sv_data = Some (JObj [(''port_id'', JInt i)])\<rparr>"

theorem WaitJobDone_signal_witness:
  "wait_job 3 (ch_buf (eb_chans (fold Publish [job_done 1, job_done 3] (snd (Subscribe EventPortJobDone sample_bus)))
     ! fst (fst (Subscribe EventPortJobDone sample_bus))))"
proof -
  have "length (eb_chans sample_bus) < 2 ^ 63 - 1"
    by (simp add: sample_bus_eq)
  moreover have "eventPortID (sv_data (job_done 3)) = 3"
    by (simp add: job_done_def eventPortID_def as_obj_def jget_def dec_int_ptr_def dec_int_def int64_range_def)
  ultimately show ?thesis
    using WaitJobDone_signal [OF sample_reachable, of 3 "[job_done 1, job_done 3]"]
    by (simp add: EventPortJobDone_def job_done_def del: fold_simps)
qed

end
