(* ===== verification/Session_Wait.thy ===== *)
theory Session_Wait
  imports Session_Port
begin

text \<open>
  Waiting for timed traffic: \<open>WaitJobDone\<close> and \<open>WaitOnTraffic\<close> of \<open>pkg/session/port.go\<close>, over the
  event bus. The goroutine that reads the subscription, the publications of the subscriber, the
  other users of the bus and the context take turns in any order: an execution is a list of steps.
\<close>

section \<open>The waiter\<close>

record waiter =
  wt_bus :: bus
  wt_ch :: nat
  wt_key :: int
  wt_done :: bool
  wt_reading :: bool
  wt_ctx :: bool

definition WaitJobDone :: "bus \<Rightarrow> waiter" where
  "WaitJobDone b = (case Subscribe EventPortJobDone b of ((ch, key), b') \<Rightarrow>
     \<lparr>wt_bus = b', wt_ch = ch, wt_key = key, wt_done = False, wt_reading = True, wt_ctx = False\<rparr>)"

text \<open>A turn of the goroutine: one iteration of its \<open>range\<close>, or nothing while the channel is empty.\<close>

definition wait_turn :: "int \<Rightarrow> waiter \<Rightarrow> waiter" where
  "wait_turn i w = (if \<not> wt_reading w then w else case receive (wt_ch w) (wt_bus w) of
      (None, _) \<Rightarrow> w
    | (Some None, b) \<Rightarrow> w\<lparr>wt_bus := b, wt_reading := False\<rparr>
    | (Some (Some ev), b) \<Rightarrow> (if eventPortID (sv_data ev) = i
        then w\<lparr>wt_bus := b, wt_done := True, wt_reading := False\<rparr>
        else w\<lparr>wt_bus := b\<rparr>))"

text \<open>
  The steps. The channel and the cancel function of the subscription are known to the waiter
  alone, so no other step receives from the one or calls the other.
\<close>

datatype wait_event =
    WTurn
  | WCtxDone
  | WPublish server_event
  | WSubscribe event_id
  | WCancel event_id int
  | WReceive nat

fun wait_step :: "int \<Rightarrow> wait_event \<Rightarrow> waiter \<Rightarrow> waiter" where
  "wait_step i WTurn w = wait_turn i w"
| "wait_step i WCtxDone w = w\<lparr>wt_ctx := True\<rparr>"
| "wait_step i (WPublish ev) w = w\<lparr>wt_bus := Publish ev (wt_bus w)\<rparr>"
| "wait_step i (WSubscribe eid) w = w\<lparr>wt_bus := snd (Subscribe eid (wt_bus w))\<rparr>"
| "wait_step i (WCancel eid key) w =
     (if eid = EventPortJobDone \<and> key = wt_key w then w else w\<lparr>wt_bus := cancel eid key (wt_bus w)\<rparr>)"
| "wait_step i (WReceive ch) w = (if ch = wt_ch w then w else w\<lparr>wt_bus := snd (receive ch (wt_bus w))\<rparr>)"

text \<open>
  \<open>WaitOnTraffic\<close>: what its select may return after the steps (\<open>Inl\<close> is the error of the
  context; with both ready Go picks either, with none the call still waits), and the bus after the
  deferred cancel.
\<close>

definition select_results :: "waiter \<Rightarrow> (unit + unit) list" where
  "select_results w = (if wt_done w then [Inr ()] else []) @ (if wt_ctx w then [Inl ()] else [])"

definition WaitOnTraffic :: "int \<Rightarrow> bus \<Rightarrow> wait_event list \<Rightarrow> (unit + unit) list \<times> bus" where
  "WaitOnTraffic i b steps = (let w = fold (wait_step i) steps (WaitJobDone b) in
     (select_results w, cancel EventPortJobDone (wt_key w) (wt_bus w)))"

section \<open>Lemmas\<close>

text \<open>The events the goroutine has not read yet.\<close>

definition unread :: "waiter \<Rightarrow> server_event list" where
  "unread w = ch_buf (eb_chans (wt_bus w) ! wt_ch w)"

definition waiting :: "waiter \<Rightarrow> bool" where
  "waiting w \<longleftrightarrow> bus_inv (wt_bus w) \<and> eb_subs (wt_bus w) EventPortJobDone (wt_key w) = Some (wt_ch w) \<and>
     (wt_reading w \<or> wt_done w)"

lemma waitingD:
  assumes "waiting w"
  shows "wt_ch w < length (eb_chans (wt_bus w))" "\<not> ch_closed (eb_chans (wt_bus w) ! wt_ch w)"
    "wt_key w < eb_next (wt_bus w)" "int (length (eb_chans (wt_bus w))) = eb_next (wt_bus w)" "length (unread w) \<le> 8"
proof -
  have inv: "bus_inv (wt_bus w)" "eb_subs (wt_bus w) EventPortJobDone (wt_key w) = Some (wt_ch w)"
    using assms by (simp_all add: waiting_def)
  from bus_invD [OF inv] show "wt_ch w < length (eb_chans (wt_bus w))" "\<not> ch_closed (eb_chans (wt_bus w) ! wt_ch w)"
    "wt_key w < eb_next (wt_bus w)" by auto
  then show "length (unread w) \<le> 8" "int (length (eb_chans (wt_bus w))) = eb_next (wt_bus w)"
    using inv(1) by (auto simp: bus_inv_def unread_def ch_cap_def)
qed

lemma WaitJobDone_waiting:
  assumes "bus_inv b" "length (eb_chans b) < 2 ^ 63 - 1"
  shows "waiting (WaitJobDone b)" "unread (WaitJobDone b) = []"
    "length (eb_chans (wt_bus (WaitJobDone b))) = Suc (length (eb_chans b))"
    "\<not> wt_done (WaitJobDone b)" "\<not> wt_ctx (WaitJobDone b)"
  using bus_inv_Subscribe [OF assms, of EventPortJobDone]
  by (auto simp: WaitJobDone_def waiting_def unread_def Subscribe_simps prod.case_eq_if)

lemma wait_turn_cases:
  assumes "waiting w"
  obtains "wait_turn i w = w" "\<not> wt_reading w \<or> unread w = []"
  | ev rest where "wt_reading w" "unread w = ev # rest"
      "wait_turn i w = (if eventPortID (sv_data ev) = i
         then w\<lparr>wt_bus := snd (receive (wt_ch w) (wt_bus w)), wt_done := True, wt_reading := False\<rparr>
         else w\<lparr>wt_bus := snd (receive (wt_ch w) (wt_bus w))\<rparr>)"
  using waitingD(2) [OF assms] that
  by (cases "wt_reading w"; cases "unread w") (auto simp: wait_turn_def receive_def unread_def)

lemma wait_step_length: "length (eb_chans (wt_bus (wait_step i ev w))) \<le> Suc (length (eb_chans (wt_bus w)))"
proof (cases ev)
  case WTurn
  then show ?thesis
    by (auto simp: wait_turn_def receive_def split: prod.splits option.splits list.splits)
qed (auto simp: Subscribe_simps receive_simps cancel_def split: option.splits)

lemma wait_step_waiting:
  assumes w: "waiting w" and len: "length (eb_chans (wt_bus w)) < 2 ^ 63 - 1"
  shows "waiting (wait_step i ev w)"
proof (cases ev)
  case WTurn
  show ?thesis
    by (rule wait_turn_cases [OF w, of i])
      (use w WTurn in \<open>auto simp: waiting_def receive_simps intro: bus_inv_receive\<close>)
next
  case (WSubscribe eid)
  with w waitingD(3) [OF w] bus_inv_Subscribe [OF _ len, of eid] show ?thesis
    by (auto simp: waiting_def Subscribe_simps)
next
  case (WCancel eid key)
  with w show ?thesis
    by (cases "eb_subs (wt_bus w) eid key") (auto simp: waiting_def cancel_None bus_inv_cancel cancel_simps)
qed (use w in \<open>auto simp: waiting_def bus_inv_Publish bus_inv_receive receive_simps\<close>)

lemma wait_steps_waiting:
  assumes "waiting w" "length (eb_chans (wt_bus w)) + length steps < 2 ^ 63"
  shows "waiting (fold (wait_step i) steps w) \<and>
    length (eb_chans (wt_bus (fold (wait_step i) steps w))) \<le> length (eb_chans (wt_bus w)) + length steps"
  using assms
proof (induction steps arbitrary: w)
  case (Cons ev steps)
  have "length (eb_chans (wt_bus w)) < 2 ^ 63 - 1" "length (eb_chans (wt_bus (wait_step i ev w))) + length steps < 2 ^ 63"
    using Cons.prems(2) wait_step_length [of i ev w] by simp_all
  then have "waiting (fold (wait_step i) steps (wait_step i ev w)) \<and>
      length (eb_chans (wt_bus (fold (wait_step i) steps (wait_step i ev w)))) \<le>
        length (eb_chans (wt_bus (wait_step i ev w))) + length steps"
    using Cons.IH wait_step_waiting [OF Cons.prems(1)] by blast
  then show ?case
    using wait_step_length [of i ev w] by simp
qed simp

text \<open>What a step does to the unread events.\<close>

definition own_done :: "int \<Rightarrow> server_event \<Rightarrow> bool" where
  "own_done i ev \<longleftrightarrow> sv_id ev = EventPortJobDone \<and> eventPortID (sv_data ev) = i"

lemma unread_publish:
  assumes "waiting w"
  shows "unread (wait_step i (WPublish ev) w) =
    (if sv_id ev = EventPortJobDone \<and> length (unread w) < 8 then unread w @ [ev] else unread w)"
proof -
  have inv: "bus_inv (wt_bus w)" "eb_subs (wt_bus w) EventPortJobDone (wt_key w) = Some (wt_ch w)"
    using assms by (simp_all add: waiting_def)
  have "sv_id ev = EventPortJobDone" if "eb_subs (wt_bus w) (sv_id ev) key = Some (wt_ch w)" for key
    using inv that unfolding bus_inv_def by blast
  then have "subscribed (wt_bus w) (sv_id ev) (wt_ch w) \<longleftrightarrow> sv_id ev = EventPortJobDone"
    using inv(2) by (auto simp: subscribed_def ran_def)
  then show ?thesis
    using waitingD(1) [OF assms] by (simp add: unread_def Publish_nth offer_def ch_cap_def)
qed

lemma unread_other:
  assumes w: "waiting w" and "ev \<noteq> WTurn" "\<forall>e. ev \<noteq> WPublish e"
  shows "unread (wait_step i ev w) = unread w"
proof (cases ev)
  case (WCancel eid key)
  show ?thesis
  proof (cases "eb_subs (wt_bus w) eid key")
    case (Some ch)
    have "ch \<noteq> wt_ch w" if "\<not> (eid = EventPortJobDone \<and> key = wt_key w)"
      using w Some that unfolding waiting_def bus_inv_def by blast
    then show ?thesis
      using WCancel waitingD(1) [OF w] by (auto simp: unread_def cancel_simps [OF Some])
  qed (simp add: WCancel cancel_None)
qed (use assms waitingD(1) [OF w] in \<open>auto simp: unread_def Subscribe_simps nth_append receive_nth\<close>)

lemma wait_step_flags:
  "ev \<noteq> WTurn \<Longrightarrow> wt_done (wait_step i ev w) = wt_done w \<and> wt_reading (wait_step i ev w) = wt_reading w"
  "wt_ctx (wait_step i ev w) \<longleftrightarrow> wt_ctx w \<or> ev = WCtxDone"
  by (cases ev; auto simp: wait_turn_def split: prod.splits option.splits)+

text \<open>The event of the own port is among the next \<open>n\<close> to be read, or was read.\<close>

definition due :: "int \<Rightarrow> nat \<Rightarrow> waiter \<Rightarrow> bool" where
  "due i n w \<longleftrightarrow> wt_done w \<or> (\<exists>ev \<in> set (take n (unread w)). eventPortID (sv_data ev) = i)"

lemma unread_turn:
  assumes "waiting w" "wt_reading w" "unread w = ev # rest"
  shows "ch_buf (eb_chans (snd (receive (wt_ch w) (wt_bus w))) ! wt_ch w) = rest"
  using assms waitingD(1) [OF assms(1)] by (simp add: receive_nth) (simp add: unread_def)

lemma due_step:
  assumes w: "waiting w" and "due i n w"
  shows "due i (if ev = WTurn then n - 1 else n) (wait_step i ev w)"
proof (cases "ev = WTurn")
  case True
  show ?thesis
  proof (rule wait_turn_cases [OF w, of i])
    assume "wait_turn i w = w" "\<not> wt_reading w \<or> unread w = []"
    then show ?thesis
      using assms True by (auto simp: due_def waiting_def)
  next
    fix e rest
    assume t: "wt_reading w" "unread w = e # rest" "wait_turn i w = (if eventPortID (sv_data e) = i
         then w\<lparr>wt_bus := snd (receive (wt_ch w) (wt_bus w)), wt_done := True, wt_reading := False\<rparr>
         else w\<lparr>wt_bus := snd (receive (wt_ch w) (wt_bus w))\<rparr>)"
    show ?thesis
      using assms(2) True t(2) unread_turn [OF w t(1,2)] unfolding due_def
      by (cases n) (auto simp: t(3) unread_def)
  qed
next
  case False
  have "\<exists>more. unread (wait_step i ev w) = unread w @ more"
    using unread_publish [OF w, of i] unread_other [OF w False] by (cases ev) auto
  then show ?thesis
    using assms(2) False wait_step_flags(1) [OF False, of i w] by (auto simp: due_def)
qed

lemma due_steps:
  assumes "waiting w" "length (eb_chans (wt_bus w)) + length steps < 2 ^ 63" "due i n w"
  shows "due i (n - count_list steps WTurn) (fold (wait_step i) steps w)"
  using assms
proof (induction steps arbitrary: w n)
  case (Cons ev steps)
  have l: "length (eb_chans (wt_bus w)) < 2 ^ 63 - 1" "length (eb_chans (wt_bus (wait_step i ev w))) + length steps < 2 ^ 63"
    using Cons.prems(2) wait_step_length [of i ev w] by simp_all
  from Cons.IH [OF wait_step_waiting [OF Cons.prems(1) l(1)] l(2) due_step [OF Cons.prems(1,3)]]
  show ?case by (auto simp: diff_diff_eq)
qed simp

text \<open>Only an event of the own port ends the wait.\<close>

lemma unread_published:
  assumes "waiting w" "length (eb_chans (wt_bus w)) + length steps < 2 ^ 63"
    and "\<not> wt_done w" "\<forall>ev \<in> set (unread w). \<not> own_done i ev" "\<forall>ev \<in> set (unread w). sv_id ev = EventPortJobDone"
    and "\<forall>ev. WPublish ev \<in> set steps \<longrightarrow> \<not> own_done i ev"
  shows "\<not> wt_done (fold (wait_step i) steps w)"
  using assms
proof (induction steps arbitrary: w)
  case (Cons st steps)
  let ?w = "wait_step i st w"
  have l: "length (eb_chans (wt_bus w)) < 2 ^ 63 - 1" "length (eb_chans (wt_bus ?w)) + length steps < 2 ^ 63"
    using Cons.prems(2) wait_step_length [of i st w] by simp_all
  have "\<not> wt_done ?w \<and> (\<forall>ev \<in> set (unread ?w). \<not> own_done i ev \<and> sv_id ev = EventPortJobDone)"
  proof (cases "st = WTurn")
    case True
    show ?thesis
    proof (rule wait_turn_cases [OF Cons.prems(1), of i])
      assume "wait_turn i w = w"
      then show ?thesis using True Cons.prems by simp
    next
      fix e rest
      assume t: "wt_reading w" "unread w = e # rest" "wait_turn i w = (if eventPortID (sv_data e) = i
         then w\<lparr>wt_bus := snd (receive (wt_ch w) (wt_bus w)), wt_done := True, wt_reading := False\<rparr>
         else w\<lparr>wt_bus := snd (receive (wt_ch w) (wt_bus w))\<rparr>)"
      then show ?thesis
        using True Cons.prems(3-5) unread_turn [OF Cons.prems(1) t(1,2)] by (auto simp: own_done_def unread_def)
    qed
  next
    case False
    then show ?thesis
      using Cons.prems wait_step_flags(1) [OF False, of i w] unread_publish [OF Cons.prems(1), of i]
        unread_other [OF Cons.prems(1) False, of i] by (cases st) auto
  qed
  then show ?case
    using Cons.IH [OF wait_step_waiting [OF Cons.prems(1) l(1)] l(2)] Cons.prems(6) by simp
qed simp

lemma wt_ctx_fold: "wt_ctx (fold (wait_step i) steps w) \<longleftrightarrow> wt_ctx w \<or> WCtxDone \<in> set steps"
  by (induction steps arbitrary: w) (auto simp: wait_step_flags(2))

section \<open>Property\<close>

text \<open>C40: whatever the order of the publications, the turns of the reading goroutine, the other
  users of the bus and the end of the context: \<open>WaitOnTraffic\<close> returns without an error only
  when the server reported the end of the traffic of its own port since the call, and with the
  error of the context only when that has ended; once such a report found room in the subscription,
  at most eight turns of the goroutine later the call can return; and when it returns, its
  subscription is gone and its channel closed.\<close>

theorem WaitOnTraffic_returns:
  assumes "reachable b" "length (eb_chans b) + length steps < 2 ^ 63 - 1" "WaitOnTraffic i b steps = (results, b')"
  shows "(Inr () \<in> set results \<longrightarrow>
      (\<exists>ev. WPublish ev \<in> set steps \<and> sv_id ev = EventPortJobDone \<and> eventPortID (sv_data ev) = i)) \<and>
    (Inl () \<in> set results \<longleftrightarrow> WCtxDone \<in> set steps) \<and>
    (\<forall>pre ev post. steps = pre @ WPublish ev # post \<longrightarrow> sv_id ev = EventPortJobDone \<longrightarrow> eventPortID (sv_data ev) = i \<longrightarrow>
       length (unread (fold (wait_step i) pre (WaitJobDone b))) < 8 \<longrightarrow> 8 \<le> count_list post WTurn \<longrightarrow> Inr () \<in> set results) \<and>
    eb_subs b' EventPortJobDone (wt_key (WaitJobDone b)) = None \<and> ch_closed (eb_chans b' ! wt_ch (WaitJobDone b))"
proof -
  let ?v = "WaitJobDone b" and ?w = "fold (wait_step i) steps (WaitJobDone b)"
  have inv: "bus_inv b" "length (eb_chans b) < 2 ^ 63 - 1"
    using reachable_inv [OF assms(1)] assms(2) by simp_all
  note w0 = WaitJobDone_waiting [OF inv]
  have len: "length (eb_chans (wt_bus ?v)) + length steps < 2 ^ 63"
    using assms(2) w0(3) by simp
  have w: "waiting ?w"
    using wait_steps_waiting [OF w0(1) len] by blast
  have res: "results = select_results ?w" "b' = cancel EventPortJobDone (wt_key ?w) (wt_bus ?w)"
    using assms(3) by (simp_all add: WaitOnTraffic_def Let_def)
  have key: "wt_key (fold (wait_step i) ss v) = wt_key v \<and> wt_ch (fold (wait_step i) ss v) = wt_ch v" for ss v
  proof (induction ss arbitrary: v)
    case (Cons s ss)
    have "wt_key (wait_step i s v) = wt_key v \<and> wt_ch (wait_step i s v) = wt_ch v"
      by (cases s) (auto simp: wait_turn_def split: prod.splits option.splits)
    with Cons show ?case by simp
  qed simp
  have safe: "\<exists>ev. WPublish ev \<in> set steps \<and> own_done i ev" if "wt_done ?w"
    using unread_published [OF w0(1) len w0(4)] that w0(2) by auto
  have live: "wt_done ?w" if s: "steps = pre @ WPublish ev # post" "own_done i ev"
      "length (unread (fold (wait_step i) pre ?v)) < 8" "8 \<le> count_list post WTurn" for pre ev post
  proof -
    let ?p = "fold (wait_step i) pre ?v"
    have p: "waiting ?p" "length (eb_chans (wt_bus ?p)) \<le> length (eb_chans (wt_bus ?v)) + length pre"
      using wait_steps_waiting [OF w0(1), of pre i] len s(1) by simp_all
    have q: "waiting (wait_step i (WPublish ev) ?p)" "length (eb_chans (wt_bus (wait_step i (WPublish ev) ?p))) + length post < 2 ^ 63"
      using wait_step_waiting [OF p(1), of i "WPublish ev"] p(2) len s(1) by simp_all
    have "due i 8 (wait_step i (WPublish ev) ?p)"
      using unread_publish [OF p(1), of i ev] s(2,3) by (simp add: due_def own_done_def)
    from due_steps [OF q this] s(4) show ?thesis
      by (simp add: s(1) due_def)
  qed
  have "eb_subs (wt_bus ?w) EventPortJobDone (wt_key ?w) = Some (wt_ch ?w)"
    using w by (simp add: waiting_def)
  then have "eb_subs b' EventPortJobDone (wt_key ?v) = None" "ch_closed (eb_chans b' ! wt_ch ?v)"
    using waitingD(1) [OF w] key by (simp_all add: res(2) cancel_simps)
  then show ?thesis
    using safe live wt_ctx_fold [of i steps ?v] w0(5)
    by (auto simp: res(1) select_results_def own_done_def)
qed

theorem WaitOnTraffic_returns_witness:
  "fst (WaitOnTraffic 3 sample_bus (WPublish (job_done 1) # WPublish (job_done 3) # replicate 8 WTurn)) = [Inr ()]"
proof -
  let ?steps = "WPublish (job_done 1) # WPublish (job_done 3) # replicate 8 WTurn"
  obtain results b' where r: "WaitOnTraffic 3 sample_bus ?steps = (results, b')"
    by fastforce
  have len: "length (eb_chans sample_bus) + length ?steps < 2 ^ 63 - 1"
    by (simp add: sample_bus_eq)
  have port: "eventPortID (sv_data (job_done n)) = n" "sv_id (job_done n) = EventPortJobDone" if "n = 1 \<or> n = 3" for n
    using that by (auto simp: job_done_def eventPortID_def as_obj_def jget_def dec_int_ptr_def dec_int_def int64_range_def
        EventPortJobDone_def)
  have inv: "bus_inv sample_bus" "length (eb_chans sample_bus) < 2 ^ 63 - 1"
    using reachable_inv [OF sample_reachable] by (simp_all add: sample_bus_eq)
  have "length (unread (fold (wait_step 3) [WPublish (job_done 1)] (WaitJobDone sample_bus))) < 8"
    using unread_publish [OF WaitJobDone_waiting(1) [OF inv], of 3 "job_done 1"] WaitJobDone_waiting(2) [OF inv] by simp
  moreover have "?steps = [WPublish (job_done 1)] @ WPublish (job_done 3) # replicate 8 WTurn"
    by simp
  moreover have "8 \<le> count_list (replicate 8 WTurn) WTurn"
    by (simp add: numeral_eq_Suc)
  ultimately have "Inr () \<in> set results"
    using WaitOnTraffic_returns [OF sample_reachable len r] port by blast
  moreover have "Inl () \<notin> set results"
    using WaitOnTraffic_returns [OF sample_reachable len r] by auto
  moreover have "length results \<le> 1 \<or> Inl () \<in> set results"
    using r by (auto simp: WaitOnTraffic_def select_results_def Let_def)
  ultimately show ?thesis
    by (cases results) (auto simp: r)
qed

end
