(* ===== verification/Ndr_Search.thy ===== *)
theory Ndr_Search
  imports Stats_Pgid
begin

text \<open>
  The search for the no-drop rate: the results of a run, the interval arithmetic on
  percentages and the pure binary search of \<open>pkg/ndr/engine.go\<close>, with its float64
  arithmetic. The measurement is a parameter that acts on a state \<open>'s\<close>.
\<close>

section \<open>Runs and the search\<close>

record run_result =
  rr_percentage :: f64
  rr_tx :: u64
  rr_rx :: u64
  rr_drop :: u64
  rr_dropPct :: f64
  rr_queueFull :: u64
  rr_qfullPct :: f64
  rr_rxErr :: u64
  rr_pass :: bool

definition zero_run :: run_result where
  "zero_run = \<lparr>rr_percentage = Fin 0, rr_tx = 0, rr_rx = 0, rr_drop = 0, rr_dropPct = Fin 0,
     rr_queueFull = 0, rr_qfullPct = Fin 0, rr_rxErr = 0, rr_pass = False\<rparr>"

definition clampPct :: "f64 \<Rightarrow> f64" where
  "clampPct v = (if f_lt v (Fin 0) then Fin 0 else if f_lt (Fin 100) v then Fin 100 else v)"

text \<open>The midpoint of the bracket, \<open>(low + high) / 2\<close>.\<close>

definition midpoint :: "f64 \<Rightarrow> f64 \<Rightarrow> f64" where
  "midpoint low high = f_div (f_add low high) (Fin 2)"

text \<open>
  The loop of \<open>search\<close> with \<open>n\<close> iterations left. The measurement returns a run and whether
  it succeeded; a failure aborts the search.
\<close>

fun search_loop :: "nat \<Rightarrow> f64 \<Rightarrow> f64 \<Rightarrow> f64 \<Rightarrow> run_result \<Rightarrow> f64 \<Rightarrow>
    (f64 \<Rightarrow> 's \<Rightarrow> (run_result \<times> bool) \<times> 's) \<Rightarrow> 's \<Rightarrow> (f64 \<times> run_result) \<times> 's" where
  "search_loop 0 low high best bestRun pdrError meas s = ((best, bestRun), s)"
| "search_loop (Suc n) low high best bestRun pdrError meas s =
     (if \<not> f_lt pdrError (f_sub high low) then ((best, bestRun), s)
      else let mid = midpoint low high in
        (case meas mid s of ((run, ok), s') \<Rightarrow>
           if \<not> ok then ((best, bestRun), s')
           else if rr_pass run then search_loop n mid high mid run pdrError meas s'
           else search_loop n low mid best bestRun pdrError meas s'))"

definition search :: "f64 \<Rightarrow> f64 \<Rightarrow> f64 \<Rightarrow> run_result \<Rightarrow> f64 \<Rightarrow> int \<Rightarrow>
    (f64 \<Rightarrow> 's \<Rightarrow> (run_result \<times> bool) \<times> 's) \<Rightarrow> 's \<Rightarrow> (f64 \<times> run_result) \<times> 's" where
  "search low high best bestRun pdrError maxIter meas s =
     search_loop (nat maxIter) low high best bestRun pdrError meas s"

section \<open>The midpoint\<close>

text \<open>Percentages: binary64 numbers between 0 and 100.\<close>

definition pct_ok :: "rat \<Rightarrow> bool" where
  "pct_ok x \<longleftrightarrow> rnd64 x = x \<and> 0 \<le> x \<and> x \<le> 100"

definition mid :: "rat \<Rightarrow> rat \<Rightarrow> rat" where
  "mid l h = rnd64 (rnd64 (l + h) / 2)"

lemma rnd64_double: "rnd64 x = x \<Longrightarrow> rnd64 (2 * x) = 2 * x"
proof -
  have pos: "rnd64 (2 * y) = 2 * y" if y: "0 < y" "rnd64 y = y" for y
  proof -
    have "rnd_pos y = y"
      using y by (simp add: rnd64_def)
    then obtain m k where mk: "y = of_int m * pow2 k" "0 \<le> m" "m \<le> 2 ^ 53" "- 1074 \<le> k"
      using rnd_pos_form [OF y(1)] by metis
    have "2 * y = of_int m * pow2 (k + 1)"
      using mk(1) pow2_add [of k 1] by simp
    then show ?thesis
      using rnd64_dyadic [of m "k + 1"] mk(2-4) by simp
  qed
  assume x: "rnd64 x = x"
  consider "0 < x" | "x = 0" | "0 < - x" by linarith
  then show ?thesis
  proof cases
    case 3
    have "rnd64 (2 * (- x)) = 2 * (- x)"
      by (rule pos [OF 3]) (simp add: x)
    then show ?thesis by simp
  qed (use pos x in auto)
qed

lemma mid_between:
  assumes "rnd64 l = l" "rnd64 h = h" "l \<le> h"
  shows "l \<le> mid l h \<and> mid l h \<le> h"
proof -
  have "2 * l \<le> rnd64 (l + h) \<and> rnd64 (l + h) \<le> 2 * h"
    using assms by (intro fp64.between rnd64_double) simp_all
  then show ?thesis
    unfolding mid_def using assms by (intro fp64.between) simp_all
qed

lemma mid_ok:
  assumes "pct_ok l" "pct_ok h" "l \<le> h"
  shows "pct_ok (mid l h)" "l \<le> mid l h" "mid l h \<le> h"
  using mid_between [of l h] assms by (auto simp: pct_ok_def mid_def)

lemma mid_error:
  assumes "pct_ok l" "pct_ok h"
  shows "\<bar>mid l h - (l + h) / 2\<bar> \<le> pow2 (- 45)"
proof -
  have a: "\<bar>rnd64 (l + h) - (l + h)\<bar> \<le> pow2 (8 - 53)"
    using assms by (intro rnd64_error) (auto simp: pct_ok_def)
  have "0 \<le> rnd64 (l + h)" "rnd64 (l + h) \<le> 200"
    using fp64.clamp [of 0 200 "l + h"] assms by (auto simp: pct_ok_def)
  then have b: "\<bar>mid l h - rnd64 (l + h) / 2\<bar> \<le> pow2 (7 - 53)"
    unfolding mid_def by (intro rnd64_error) auto
  have "mid l h - (l + h) / 2 = (mid l h - rnd64 (l + h) / 2) + (rnd64 (l + h) - (l + h)) / 2"
    by (simp add: field_simps)
  also have "\<bar>\<dots>\<bar> \<le> pow2 (- 46) + pow2 (- 45) / 2"
    using a b by (intro order_trans [OF abs_triangle_ineq] add_mono) simp_all
  also have "\<dots> = pow2 (- 45)"
    using pow2_add [of "-46" 1] by simp
  finally show ?thesis .
qed

lemma pct_Fin: "pct_ok x \<Longrightarrow> fl x = Fin x"
  using fl_bounded [of x] by (simp add: pct_ok_def)

lemma midpoint_Fin:
  assumes "pct_ok l" "pct_ok h"
  shows "midpoint (Fin l) (Fin h) = Fin (mid l h)"
proof -
  have "\<bar>l + h\<bar> \<le> 2 ^ 53"
    using assms by (simp add: pct_ok_def)
  then have s: "fl (l + h) = Fin (rnd64 (l + h))"
    by (rule fl_bounded)
  have "0 \<le> rnd64 (l + h)" "rnd64 (l + h) \<le> 200"
    using fp64.clamp [of 0 200 "l + h"] assms by (auto simp: pct_ok_def)
  then have "\<bar>rnd64 (l + h) / 2\<bar> \<le> 2 ^ 53"
    by simp
  then have "fl (rnd64 (l + h) / 2) = Fin (mid l h)"
    unfolding mid_def by (rule fl_bounded)
  with s show ?thesis
    by (simp add: midpoint_def)
qed

lemma width_Fin:
  assumes "pct_ok l" "pct_ok h"
  shows "f_sub (Fin h) (Fin l) = Fin (rnd64 (h - l))" "\<bar>rnd64 (h - l) - (h - l)\<bar> \<le> pow2 (- 46)"
proof -
  have le: "\<bar>h - l\<bar> \<le> 100"
    using assms by (auto simp: pct_ok_def abs_le_iff)
  then have "\<bar>h - l\<bar> \<le> 2 ^ 53"
    by simp
  then show "f_sub (Fin h) (Fin l) = Fin (rnd64 (h - l))"
    by (simp add: fl_bounded)
  have "\<bar>h - l\<bar> \<le> pow2 7"
    using le by simp
  then show "\<bar>rnd64 (h - l) - (h - l)\<bar> \<le> pow2 (- 46)"
    using rnd64_error [of "h - l" 7] by simp
qed

section \<open>Measurements\<close>

text \<open>
  What the search relies on: a successful measurement reports the percentage it was asked for.
\<close>

locale measurement =
  fixes meas :: "f64 \<Rightarrow> 's \<Rightarrow> (run_result \<times> bool) \<times> 's"
  assumes reports: "meas x s = ((run, True), s') \<Longrightarrow> rr_percentage run = x"
begin

text \<open>The result is the seed, or a rate that was measured and passed.\<close>

lemma loop_result:
  "search_loop n low high best bestRun q meas s = ((b, run), s') \<Longrightarrow>
     (b, run) = (best, bestRun) \<or> (rr_pass run \<and> rr_percentage run = b)"
proof (induction n arbitrary: low high best bestRun s)
  case (Suc n)
  let ?m = "midpoint low high"
  obtain r ok s1 where m: "meas ?m s = ((r, ok), s1)" by (metis prod.collapse)
  show ?case
  proof (cases "f_lt q (f_sub high low) \<and> ok")
    case True
    then have "meas ?m s = ((r, True), s1)"
      using m by simp
    then have rep: "rr_percentage r = ?m"
      by (rule reports)
    show ?thesis
    proof (cases "rr_pass r")
      case pass: True
      with True m Suc.prems have "search_loop n ?m high ?m r q meas s1 = ((b, run), s')"
        by (simp add: Let_def)
      from Suc.IH [OF this] rep pass show ?thesis by auto
    next
      case False
      with True m Suc.prems have "search_loop n low ?m best bestRun q meas s1 = ((b, run), s')"
        by (simp add: Let_def)
      from Suc.IH [OF this] show ?thesis .
    qed
  qed (use m Suc.prems in \<open>auto simp: Let_def split: if_splits\<close>)
qed simp

end

text \<open>A measurement that keeps an invariant of the state, whatever it returns.\<close>

locale keeping_measurement =
  fixes meas :: "f64 \<Rightarrow> 's \<Rightarrow> (run_result \<times> bool) \<times> 's"
    and inv :: "'s \<Rightarrow> bool"
  assumes keeps: "inv s \<Longrightarrow> inv (snd (meas x s))"
begin

lemma loop_keeps: "inv s \<Longrightarrow> inv (snd (search_loop n low high best bestRun q meas s))"
proof (induction n arbitrary: low high best bestRun s)
  case (Suc n)
  let ?m = "midpoint low high"
  obtain r ok s1 where m: "meas ?m s = ((r, ok), s1)" by (metis prod.collapse)
  have "inv s1"
    using keeps [OF Suc.prems, of ?m] m by simp
  then show ?case
    using m Suc.prems Suc.IH by (auto simp: Let_def)
qed simp

end

text \<open>Runs at rates between two bounds.\<close>

definition rates_in :: "rat \<Rightarrow> rat \<Rightarrow> run_result list \<Rightarrow> bool" where
  "rates_in l h runs \<longleftrightarrow> list_all (\<lambda>r. \<exists>x. rr_percentage r = Fin x \<and> l \<le> x \<and> x \<le> h) runs"

lemma rates_in_simps [simp]:
  "rates_in l h []"
  "rates_in l h (r # rs) \<longleftrightarrow> (\<exists>x. rr_percentage r = Fin x \<and> l \<le> x \<and> x \<le> h) \<and> rates_in l h rs"
  "rates_in l h (rs @ rs') \<longleftrightarrow> rates_in l h rs \<and> rates_in l h rs'"
  by (simp_all add: rates_in_def)

lemma rates_in_mono: "rates_in l' h' rs \<Longrightarrow> l \<le> l' \<Longrightarrow> h' \<le> h \<Longrightarrow> rates_in l h rs"
  unfolding rates_in_def by (erule list.pred_mono_strong) fastforce

text \<open>A measurement that records each run it makes, and nothing when it fails.\<close>

locale recorded_measurement = measurement +
  fixes recorded :: "'a \<Rightarrow> run_result list"
  assumes records: "meas x s = ((run, ok), s') \<Longrightarrow> recorded s' = recorded s @ (if ok then [run] else [])"
begin

text \<open>The loop adds at most \<open>n\<close> runs, and its result is the seed or one of them.\<close>

lemma loop_records:
  "search_loop n low high best bestRun q meas s = ((b, run), s') \<Longrightarrow>
     \<exists>new. recorded s' = recorded s @ new \<and> length new \<le> n \<and> ((b, run) = (best, bestRun) \<or> run \<in> set new)"
proof (induction n arbitrary: low high best bestRun s)
  case (Suc n)
  let ?m = "midpoint low high"
  obtain r ok s1 where m: "meas ?m s = ((r, ok), s1)" by (metis prod.collapse)
  note rec = records [OF m]
  show ?case
  proof (cases "f_lt q (f_sub high low) \<and> ok")
    case True
    have step: "\<exists>new. recorded s' = recorded s @ new \<and> length new \<le> Suc n \<and> ((b, run) = (best, bestRun) \<or> run \<in> set new)"
      if nxt: "search_loop n l h x y q meas s1 = ((b, run), s')" and xy: "(x, y) = (best, bestRun) \<or> y = r" for l h x y
    proof -
      obtain new where new: "recorded s' = recorded s1 @ new" "length new \<le> n" "(b, run) = (x, y) \<or> run \<in> set new"
        using Suc.IH [OF nxt] by blast
      with rec True xy show ?thesis
        by (intro exI [of _ "r # new"]) auto
    qed
    have "(if rr_pass r then search_loop n ?m high ?m r q meas s1 else search_loop n low ?m best bestRun q meas s1) = ((b, run), s')"
      using Suc.prems True m by (simp add: Let_def)
    then show ?thesis
      using step [of ?m high ?m r] step [of low ?m best bestRun] by (auto split: if_splits)
  next
    case False
    then have "s' = s \<or> (\<not> ok \<and> s' = s1)" "(b, run) = (best, bestRun)"
      using Suc.prems m by (auto simp: Let_def split: if_splits)
    with rec show ?thesis by auto
  qed
qed simp

text \<open>All the rates measured lie in the bracket the loop starts from.\<close>

lemma loop_rates:
  assumes "pct_ok l" "pct_ok h" "l \<le> h"
  shows "\<exists>new. recorded (snd (search_loop n (Fin l) (Fin h) best bestRun q meas s)) = recorded s @ new \<and>
    rates_in l h new"
  using assms
proof (induction n arbitrary: l h best bestRun s)
  case (Suc n)
  let ?m = "mid l h"
  note ok = mid_ok [OF Suc.prems]
  have m: "midpoint (Fin l) (Fin h) = Fin ?m"
    by (rule midpoint_Fin [OF Suc.prems(1,2)])
  obtain r b s1 where meas: "meas (Fin ?m) s = ((r, b), s1)" by (metis prod.collapse)
  note rec = records [OF meas]
  show ?case
  proof (cases "f_lt q (f_sub (Fin h) (Fin l)) \<and> b")
    case True
    then have r: "rr_percentage r = Fin ?m"
      using meas by (intro reports [of _ s _ s1]) simp
    have step: "\<exists>new. recorded s2 = recorded s @ new \<and> rates_in l h new"
      if nxt: "\<exists>new. recorded s2 = recorded s1 @ new \<and> rates_in l' h' new" and le: "l \<le> l'" "h' \<le> h" for s2 l' h'
    proof -
      from nxt obtain new where "recorded s2 = recorded s1 @ new" "rates_in l' h' new"
        by (elim exE conjE)
      with rec True r ok le show ?thesis
        by (intro exI [of _ "r # new"]) (simp add: rates_in_mono [of l' h'])
    qed
    show ?thesis
      using True meas step [OF Suc.IH [OF ok(1) Suc.prems(2) ok(3), of "Fin ?m" r s1] ok(2) order_refl]
        step [OF Suc.IH [OF Suc.prems(1) ok(1,2), of best bestRun s1] order_refl ok(3)]
      by (auto simp: m Let_def)
  next
    case False
    then show ?thesis
      using meas rec by (auto simp: m Let_def)
  qed
qed simp

end

section \<open>How many measurements the search takes\<close>

text \<open>
  A bracket of width \<open>w\<close> is at most this wide after \<open>k\<close> halvings; \<open>2 ^ -45\<close> bounds the
  rounding error of one midpoint.
\<close>

definition halved :: "nat \<Rightarrow> rat \<Rightarrow> rat" where
  "halved k w = w / 2 ^ k + 2 * pow2 (- 45) * (1 - 1 / 2 ^ k)"

lemma halved_0 [simp]: "halved 0 w = w"
  by (simp add: halved_def)

lemma halved_Suc: "halved k (w / 2 + pow2 (- 45)) = halved (Suc k) w"
  by (simp add: halved_def field_simps)

lemma halved_mono: "v \<le> w \<Longrightarrow> halved k v \<le> halved k w"
  by (simp add: halved_def divide_right_mono)

lemma half_arith:
  "m - (l + h) / 2 \<le> e \<Longrightarrow> - (m - (l + h) / 2) \<le> e \<Longrightarrow>
   h - m \<le> (h - l) / 2 + e \<and> m - l \<le> (h - l) / 2 + e" for m :: rat
  by (intro conjI) (simp_all add: add_divide_distrib diff_divide_distrib)

lemma mid_halves:
  assumes "pct_ok l" "pct_ok h"
  shows "h - mid l h \<le> (h - l) / 2 + pow2 (- 45)" "mid l h - l \<le> (h - l) / 2 + pow2 (- 45)"
proof -
  have "mid l h - (l + h) / 2 \<le> pow2 (- 45)" "- (mid l h - (l + h) / 2) \<le> pow2 (- 45)"
    using mid_error [OF assms] by (rule abs_le_D1, rule abs_le_D2)
  then show "h - mid l h \<le> (h - l) / 2 + pow2 (- 45)" "mid l h - l \<le> (h - l) / 2 + pow2 (- 45)"
    using half_arith by blast+
qed

lemma halved_step:
  assumes "pct_ok l" "pct_ok h" "halved (Suc k) (h - l) \<le> q"
  shows "halved k (h - mid l h) \<le> q" "halved k (mid l h - l) \<le> q"
  using halved_mono [OF mid_halves(1) [OF assms(1,2)], of k] halved_mono [OF mid_halves(2) [OF assms(1,2)], of k]
    assms(3) unfolding halved_Suc by linarith+

text \<open>Once the bracket must be narrow enough, further iterations change nothing.\<close>

lemma loop_saturates:
  assumes "pct_ok l" "pct_ok h" "l \<le> h" "rnd64 q = q" "halved k (h - l) \<le> q"
  shows "search_loop (k + m) (Fin l) (Fin h) best bestRun (Fin q) meas s =
    search_loop k (Fin l) (Fin h) best bestRun (Fin q) meas s"
  using assms
proof (induction k arbitrary: l h best bestRun s)
  case 0
  have "rnd64 (h - l) \<le> q"
    using 0 rnd64_mono [of "h - l" q] by simp
  then have "\<not> f_lt (Fin q) (f_sub (Fin h) (Fin l))"
    using width_Fin(1) [OF 0(1,2)] by simp
  then show ?case
    by (cases m) simp_all
next
  case (Suc k)
  let ?m = "mid l h"
  have m: "midpoint (Fin l) (Fin h) = Fin ?m"
    by (rule midpoint_Fin [OF Suc.prems(1,2)])
  note ok = mid_ok [OF Suc.prems(1-3)]
  note step = halved_step [OF Suc.prems(1,2,5)]
  obtain r b s1 where meas: "meas (Fin ?m) s = ((r, b), s1)" by (metis prod.collapse)
  have "search_loop (k + m) (Fin ?m) (Fin h) (Fin ?m) r (Fin q) meas s1 =
      search_loop k (Fin ?m) (Fin h) (Fin ?m) r (Fin q) meas s1"
    by (rule Suc.IH [OF ok(1) Suc.prems(2) ok(3) Suc.prems(4) step(1)])
  moreover have "search_loop (k + m) (Fin l) (Fin ?m) best bestRun (Fin q) meas s1 =
      search_loop k (Fin l) (Fin ?m) best bestRun (Fin q) meas s1"
    by (rule Suc.IH [OF Suc.prems(1) ok(1,2) Suc.prems(4) step(2)])
  ultimately show ?case
    using meas by (simp add: m Let_def)
qed

section \<open>Where the search ends\<close>

text \<open>
  A device that passes exactly the rates up to \<open>t\<close>, whatever happened before.
\<close>

definition threshold :: "(f64 \<Rightarrow> 's \<Rightarrow> (run_result \<times> bool) \<times> 's) \<Rightarrow> rat \<Rightarrow> bool" where
  "threshold meas t \<longleftrightarrow> (\<forall>x s. 0 \<le> x \<longrightarrow> x \<le> 100 \<longrightarrow>
     (\<exists>run s'. meas (Fin x) s = ((run, True), s') \<and> (rr_pass run \<longleftrightarrow> x \<le> t)))"

lemma loop_converges:
  assumes "threshold meas t" "pct_ok l" "pct_ok h" "l \<le> t" "t < h"
  shows "\<exists>b run s'. search_loop n (Fin l) (Fin h) (Fin l) bestRun (Fin q) meas s = ((Fin b, run), s') \<and>
    l \<le> b \<and> b \<le> t \<and> (t - b \<le> q + pow2 (- 46) \<or> t - b < halved n (h - l))"
  using assms
proof (induction n arbitrary: l h bestRun s)
  case 0
  then show ?case by auto
next
  case (Suc n)
  let ?m = "mid l h"
  have lh: "l \<le> h"
    using Suc.prems by simp
  note ok = mid_ok [OF Suc.prems(2,3) lh]
  show ?case
  proof (cases "f_lt (Fin q) (f_sub (Fin h) (Fin l))")
    case False
    then have "rnd64 (h - l) \<le> q"
      using width_Fin(1) [OF Suc.prems(2,3)] by simp
    moreover have "- (rnd64 (h - l) - (h - l)) \<le> pow2 (- 46)"
      using width_Fin(2) [OF Suc.prems(2,3)] by (rule abs_le_D2)
    ultimately have "h - l \<le> q + pow2 (- 46)"
      by linarith
    with False Suc.prems show ?thesis
      by (intro exI [of _ l]) auto
  next
    case True
    have "0 \<le> ?m" "?m \<le> 100"
      using ok(1) by (simp_all add: pct_ok_def)
    then obtain run s1 where meas: "meas (Fin ?m) s = ((run, True), s1)" and pass: "rr_pass run \<longleftrightarrow> ?m \<le> t"
      using Suc.prems(1) unfolding threshold_def by blast
    note m = midpoint_Fin [OF Suc.prems(2,3)]
    have le: "halved n (h - ?m) \<le> halved (Suc n) (h - l)" "halved n (?m - l) \<le> halved (Suc n) (h - l)"
      using halved_step [OF Suc.prems(2,3) order_refl] by simp_all
    show ?thesis
    proof (cases "?m \<le> t")
      case tr: True
      have "search_loop (Suc n) (Fin l) (Fin h) (Fin l) bestRun (Fin q) meas s =
          search_loop n (Fin ?m) (Fin h) (Fin ?m) run (Fin q) meas s1"
        using True meas pass tr by (simp add: m Let_def)
      then show ?thesis
        using Suc.IH [OF Suc.prems(1) ok(1) Suc.prems(3) tr Suc.prems(5), of run s1] le(1) ok(2) by fastforce
    next
      case fl: False
      have "search_loop (Suc n) (Fin l) (Fin h) (Fin l) bestRun (Fin q) meas s =
          search_loop n (Fin l) (Fin ?m) (Fin l) bestRun (Fin q) meas s1"
        using True meas pass fl by (simp add: m Let_def)
      then show ?thesis
        using Suc.IH [OF Suc.prems(1,2) ok(1) Suc.prems(4), of bestRun s1] le(2) fl by fastforce
    qed
  qed
qed

lemma pct_ok_ints: "0 \<le> n \<Longrightarrow> n \<le> 100 \<Longrightarrow> pct_ok (of_int n)"
proof -
  assume n: "0 \<le> n" "n \<le> 100"
  then have "rnd64 (of_int n) = of_int n"
    by (intro rnd64_of_int) simp
  with n show ?thesis
    by (simp add: pct_ok_def)
qed

lemma pct_ok_0_100 [simp]: "pct_ok 0" "pct_ok 100"
  using pct_ok_ints [of 0] pct_ok_ints [of 100] by simp_all

section \<open>Properties\<close>

text \<open>C9: on a device that passes exactly the rates up to some threshold below line rate, the
  search over the whole range finds it: the rate returned passes, and is below the threshold
  by at most the convergence window, or by less than the bracket can still be wide when the
  iteration cap ends the search, rounding errors included.\<close>

theorem search_converges:
  assumes "threshold meas t" "0 \<le> t" "t < 100"
  shows "\<exists>b run s'. search (Fin 0) (Fin 100) (Fin 0) seed (Fin q) maxIter meas s = ((Fin b, run), s') \<and>
    0 \<le> b \<and> b \<le> t \<and> (t - b \<le> q + pow2 (- 46) \<or> t - b < 100 / 2 ^ nat maxIter + pow2 (- 44))"
proof -
  obtain b run s' where b: "search_loop (nat maxIter) (Fin 0) (Fin 100) (Fin 0) seed (Fin q) meas s = ((Fin b, run), s')"
    "0 \<le> b" "b \<le> t" "t - b \<le> q + pow2 (- 46) \<or> t - b < halved (nat maxIter) 100"
    using loop_converges [OF assms(1), of 0 100 "nat maxIter" seed q s] assms(2,3) by auto
  have "2 * pow2 (- 45) * (1 - 1 / 2 ^ nat maxIter) \<le> 2 * pow2 (- 45)"
    by (simp add: field_simps)
  also have "\<dots> = pow2 (- 44)"
    using pow2_add [of "- 45" 1] by simp
  finally have "halved (nat maxIter) 100 \<le> 100 / 2 ^ nat maxIter + pow2 (- 44)"
    by (simp add: halved_def)
  with b show ?thesis
    unfolding search_def by (intro exI [of _ b] exI [of _ run] exI [of _ s'] conjI) auto
qed

text \<open>A device that drops packets above 37.5 percent; the state counts the runs.\<close>

definition sample_meas :: "f64 \<Rightarrow> nat \<Rightarrow> (run_result \<times> bool) \<times> nat" where
  "sample_meas x n = ((zero_run\<lparr>rr_percentage := x, rr_pass := f_le x (Fin (75 / 2))\<rparr>, True), Suc n)"

lemma sample_threshold: "threshold sample_meas (75 / 2)"
  by (simp add: threshold_def sample_meas_def)

theorem search_converges_witness:
  "\<exists>b run s'. search (Fin 0) (Fin 100) (Fin 0) zero_run (Fin 1) 20 sample_meas 0 = ((Fin b, run), s') \<and>
    b \<le> 75 / 2 \<and> 36 < b"
proof -
  have "(100::rat) / 2 ^ nat 20 + pow2 (- 44) < 3 / 2" "(1::rat) + pow2 (- 46) < 3 / 2"
    by simp_all
  with search_converges [OF sample_threshold, of zero_run 1 20 0] show ?thesis
    by force
qed

text \<open>The search takes no more measurements than it needs: once the bracket must have become
  narrower than the window after \<open>k\<close> halvings, a larger iteration cap changes nothing, neither
  the result nor the measurements made; the default window of one percent takes at most seven.\<close>

theorem search_saturates:
  assumes "rnd64 q = q" "100 / 2 ^ k + pow2 (- 44) \<le> q" "k \<le> nat maxIter"
  shows "search (Fin 0) (Fin 100) best seed (Fin q) maxIter meas s =
    search (Fin 0) (Fin 100) best seed (Fin q) (int k) meas s"
proof -
  have "2 * pow2 (- 45) * (1 - 1 / 2 ^ k) \<le> 2 * pow2 (- 45)"
    by (simp add: field_simps)
  also have "\<dots> = pow2 (- 44)"
    using pow2_add [of "- 45" 1] by simp
  finally have "100 / 2 ^ k + 2 * pow2 (- 45) * (1 - 1 / 2 ^ k) \<le> q"
    using assms(2) by linarith
  then have "halved k (100 - 0) \<le> q"
    unfolding halved_def diff_0_right .
  from loop_saturates [OF _ _ _ assms(1) this, of "nat maxIter - k"] assms(3) show ?thesis
    by (simp add: search_def)
qed

theorem search_saturates_witness:
  "search (Fin 0) (Fin 100) (Fin 0) zero_run (Fin 1) 20 sample_meas 0 =
   search (Fin 0) (Fin 100) (Fin 0) zero_run (Fin 1) 7 sample_meas 0"
proof -
  have "rnd64 1 = 1"
    using rnd64_of_int [of 1] by simp
  moreover have "(100::rat) / 2 ^ 7 + pow2 (- 44) \<le> 1"
    by simp
  ultimately show ?thesis
    using search_saturates [of 1 7 20] by simp
qed

end
