(* ===== verification/Go_Fmt.thy ===== *)
theory Go_Fmt
  imports Go_Strings
begin

text \<open>
  The verbs of Go's \<open>fmt\<close> package that the commands and the dashboard print with, and the
  number of runes of a string.
\<close>

text \<open>\<open>%.Nf\<close>: the exact value rounded to \<open>k\<close> digits after the point, ties to even.\<close>

definition fixed_digits :: "nat \<Rightarrow> nat \<Rightarrow> string" where
  "fixed_digits k n = (let s = nat_digits n; t = replicate (Suc k - length s) CHR ''0'' @ s in
     if k = 0 then t else take (length t - k) t @ CHR ''.'' # drop (length t - k) t)"

definition fmt_fixed :: "nat \<Rightarrow> f64 \<Rightarrow> string" where
  "fmt_fixed k v = (case v of
      NaN \<Rightarrow> ''NaN'' | PInf \<Rightarrow> ''+Inf'' | NInf \<Rightarrow> ''-Inf''
    | Fin r \<Rightarrow> (if r < 0 then ''-'' else []) @ fixed_digits k (nat (rne (\<bar>r\<bar> * 10 ^ k))))"

text \<open>
  The runes of a string: how many bytes the first one takes. A byte that starts no valid UTF-8
  sequence is a rune of its own.
\<close>

definition cont_byte :: "nat \<Rightarrow> nat \<Rightarrow> char \<Rightarrow> bool" where
  "cont_byte lo hi c \<longleftrightarrow> lo \<le> ch_code c \<and> ch_code c \<le> hi"

fun rune_size :: "string \<Rightarrow> nat" where
  "rune_size (b # c # rest) = (let n = ch_code b; tail = cont_byte 0x80 0xBF in
     if 0xC2 \<le> n \<and> n \<le> 0xDF \<and> tail c then 2
     else if 0xE0 \<le> n \<and> n \<le> 0xEF \<and>
       cont_byte (if n = 0xE0 then 0xA0 else 0x80) (if n = 0xED then 0x9F else 0xBF) c \<and>
       rest \<noteq> [] \<and> tail (hd rest) then 3
     else if 0xF0 \<le> n \<and> n \<le> 0xF4 \<and>
       cont_byte (if n = 0xF0 then 0x90 else 0x80) (if n = 0xF4 then 0x8F else 0xBF) c \<and>
       2 \<le> length rest \<and> tail (hd rest) \<and> tail (rest ! 1) then 4
     else 1)"
| "rune_size _ = 1"

lemma rune_size_pos: "0 < rune_size s"
  by (cases s rule: rune_size.cases) (simp_all add: Let_def)

function rune_count :: "string \<Rightarrow> nat" where
  "rune_count s = (if s = [] then 0 else Suc (rune_count (drop (rune_size s) s)))"
  by pat_completeness auto
termination
  by (relation "measure length") (simp_all add: rune_size_pos)

declare rune_count.simps [simp del]

text \<open>\<open>%-*s\<close>: a negative width is taken as positive.\<close>

definition pad_right :: "int \<Rightarrow> string \<Rightarrow> string" where
  "pad_right w s = s @ replicate (nat \<bar>w\<bar> - rune_count s) CHR '' ''"

text \<open>\<open>%Ns\<close> and the width of a number: padding on the left.\<close>

definition pad_left :: "nat \<Rightarrow> string \<Rightarrow> string" where
  "pad_left w s = replicate (w - rune_count s) CHR '' '' @ s"

text \<open>
  \<open>%g\<close>: the shortest digits that are read back as the same number, taken from the exact value
  rounded down or up (to the nearer one when both will do); the number is \<open>0.digits * 10 ^ dp\<close>. Seventeen digits
  are always enough.
\<close>

definition dec_point :: "rat \<Rightarrow> int" where
  "dec_point r = (if 1 \<le> r then int (length (nat_digits (nat \<lfloor>r\<rfloor>)))
     else 1 - int (length (nat_digits (nat (\<lceil>1 / r\<rceil> - 1)))))"

definition scale10 :: "int \<Rightarrow> rat" where
  "scale10 e = (if 0 \<le> e then 10 ^ nat e else 1 / 10 ^ nat (- e))"

definition digits_at :: "rat \<Rightarrow> nat \<Rightarrow> nat option" where
  "digits_at r k = (let u = scale10 (int k - dec_point r); d = \<lfloor>r * u\<rfloor>;
       down = (rnd64 (of_int d / u) = r); up = (rnd64 (of_int (d + 1) / u) = r) in
     if down \<and> up then Some (nat (rne (r * u)))
     else if down then Some (nat d)
     else if up then Some (nat (d + 1))
     else None)"

definition shortest_digits :: "rat \<Rightarrow> string \<times> int" where
  "shortest_digits r =
     (case List.find (\<lambda>k. digits_at r k \<noteq> None) [1..<18] of
        None \<Rightarrow> ([], 0)
      | Some k \<Rightarrow> (let s = nat_digits (the (digits_at r k)) in
          (rev (dropWhile (\<lambda>c. c = CHR ''0'') (rev s)), dec_point r + (int (length s) - int k))))"

definition fmt_g_pos :: "rat \<Rightarrow> string" where
  "fmt_g_pos r = (case shortest_digits r of (ds, dp) \<Rightarrow>
     let n = int (length ds); e = dp - 1; ex = nat_digits (nat \<bar>e\<bar>) in
     if e < - 4 \<or> 6 \<le> e
     then [hd ds] @ (if 1 < n then CHR ''.'' # tl ds else []) @ (if e < 0 then ''e-'' else ''e+'') @
       (if length ex < 2 then CHR ''0'' # ex else ex)
     else if dp \<le> 0 then ''0.'' @ replicate (nat (- dp)) CHR ''0'' @ ds
     else if n \<le> dp then ds @ replicate (nat (dp - n)) CHR ''0''
     else take (nat dp) ds @ CHR ''.'' # drop (nat dp) ds)"

definition fmt_g :: "f64 \<Rightarrow> string" where
  "fmt_g v = (case v of NaN \<Rightarrow> ''NaN'' | PInf \<Rightarrow> ''+Inf'' | NInf \<Rightarrow> ''-Inf''
     | Fin r \<Rightarrow> if r = 0 then ''0'' else if r < 0 then CHR ''-'' # fmt_g_pos (- r) else fmt_g_pos r)"

text \<open>\<open>%v\<close> of a slice of integers.\<close>

definition fmt_ints :: "int list \<Rightarrow> string" where
  "fmt_ints xs = ''['' @ join_with CHR '' '' (map itoa xs) @ '']''"

lemma length_fixed_digits: "length (fixed_digits k n) = max (Suc k) (length (nat_digits n)) + (if k = 0 then 0 else 1)"
  by (auto simp: fixed_digits_def Let_def min_def)

lemma rune_count_ascii: "\<forall>c \<in> set s. ch_code c < 0x80 \<Longrightarrow> rune_count s = length s"
proof (induction s)
  case (Cons b s)
  then have "rune_size (b # s) = 1"
    by (cases s) (auto simp: Let_def)
  with Cons show ?case
    by (subst rune_count.simps) simp
qed (simp add: rune_count.simps)

lemma has_prefix_pad_right: "has_prefix (pad_right w s) s"
  by (simp add: pad_right_def has_prefix_def)

end
