(* ===== verification/Ndr_Engine.thy ===== *)
theory Ndr_Engine
  imports Ndr_Search Session_Port Go_Fmt
begin

text \<open>
  The engine that measures and searches the no-drop rate: \<open>pkg/ndr/config.go\<close>, the methods of
  \<open>Engine\<close> in \<open>pkg/ndr/engine.go\<close> and the record of \<open>pkg/ndr/results.go\<close>. The state is the
  connection, the statistics store and what was written to the engine's output, which the other
  goroutines change only while the engine sleeps: a sleep is a parameter that acts on the state
  and tells whether it was completed (\<open>False\<close>: the context was cancelled).
\<close>

section \<open>Configuration and results\<close>

record ndr_config =
  nc_pdr :: f64
  nc_pdrError :: f64
  nc_iterationDuration :: f64
  nc_firstRunDuration :: f64
  nc_qfullResolution :: f64
  nc_maxIterations :: int
  nc_rxDelayMs :: int
  nc_rampUpTime :: f64
  nc_optBinSearch :: bool
  nc_optBinSearchPercent :: f64
  nc_verbose :: bool
  nc_title :: string
  nc_ports :: "int list"

definition DefaultConfig :: ndr_config where
  "DefaultConfig = \<lparr>nc_pdr = Fin 0, nc_pdrError = Fin 1, nc_iterationDuration = Fin 20,
     nc_firstRunDuration = Fin 20, nc_qfullResolution = Fin 2, nc_maxIterations = 20,
     nc_rxDelayMs = 500, nc_rampUpTime = Fin 1, nc_optBinSearch = False,
     nc_optBinSearchPercent = Fin 5, nc_verbose = False, nc_title = '''', nc_ports = []\<rparr>"

record ndr_results =
  nr_title :: string
  nr_config :: ndr_config
  nr_first :: run_result
  nr_iterations :: "run_result list"
  nr_percent :: f64
  nr_run :: run_result

record engine =
  eg_ports :: "port list"
  eg_cfg :: ndr_config
  eg_pgids :: "int list"

definition NewEngine :: "port list \<Rightarrow> ndr_config \<Rightarrow> engine" where
  "NewEngine ports cfg = \<lparr>eg_ports = ports, eg_cfg = cfg, eg_pgids = []\<rparr>"

text \<open>The state the engine runs on, with one text per write to its output, and what is outside of it.\<close>

record 'w run_state =
  rn_conn :: "'w conn"
  rn_stats :: store
  rn_out :: "string list"

record 'w outside =
  ou_env :: "'w env"
  ou_orders :: orders
  ou_sleep :: "int \<Rightarrow> 'w run_state \<Rightarrow> bool \<times> 'w run_state"

datatype ndr_error =
    NdrActive pgid_error
  | NdrNoPgids
  | NdrStats pgid_error
  | NdrPort port_error
  | NdrCancelled

definition queueFullKey :: string where "queueFullKey = ''m_total_queue_full''"

section \<open>The log\<close>

definition put_run :: "string \<Rightarrow> 'w run_state \<Rightarrow> 'w run_state" where
  "put_run t s = s\<lparr>rn_out := rn_out s @ [t]\<rparr>"

text \<open>Four spaces, a middle dot in UTF-8 and a space.\<close>

definition verbose_mark :: string where
  "verbose_mark = ''    '' @ [CHR 0xC2, CHR 0xB7, CHR '' '']"

definition verbose :: "engine \<Rightarrow> string \<Rightarrow> 'w run_state \<Rightarrow> 'w run_state" where
  "verbose e line s = (if \<not> nc_verbose (eg_cfg e) then s else put_run (verbose_mark @ line @ [CHR 0x0A]) s)"

text \<open>The line of a measured run.\<close>

definition run_report :: "run_result \<Rightarrow> string" where
  "run_report r = ''  '' @ pad_left 6 (fmt_fixed 2 (rr_percentage r)) @ ''%  tx='' @ nat_digits (unat (rr_tx r)) @
     '' rx='' @ nat_digits (unat (rr_rx r)) @ '' drop='' @ nat_digits (unat (rr_drop r)) @
     '' ('' @ fmt_fixed 4 (rr_dropPct r) @ ''%) qfull='' @ fmt_fixed 4 (rr_qfullPct r) @ ''% rx_err='' @ nat_digits (unat (rr_rxErr r)) @
     ''  '' @ (if rr_pass r then ''pass'' else ''FAIL'') @ [CHR 0x0A]"

definition report :: "run_result \<Rightarrow> 'w run_state \<Rightarrow> 'w run_state" where
  "report run s = put_run (run_report run) s"

text \<open>The lines of the actions.\<close>

definition ramp_line :: "engine \<Rightarrow> f64 \<Rightarrow> int \<Rightarrow> string" where
  "ramp_line e pct steps = ''ramp-up: to '' @ fmt_fixed 2 pct @ ''% over '' @
     fmt_fixed 1 (nc_rampUpTime (eg_cfg e)) @ ''s in '' @ itoa steps @ '' steps''"

definition start_line :: "f64 \<Rightarrow> string" where
  "start_line v = ''start_traffic '' @ fmt_fixed 2 v @ ''%''"

definition update_line :: "f64 \<Rightarrow> string" where
  "update_line v = ''ramp-up: update_traffic '' @ fmt_fixed 2 v @ ''%''"

definition portIDs :: "engine \<Rightarrow> int list" where
  "portIDs e = map pt_id (eg_ports e)"

definition run_line :: "engine \<Rightarrow> f64 \<Rightarrow> f64 \<Rightarrow> string" where
  "run_line e pct duration = ''run '' @ fmt_fixed 2 pct @ ''% for '' @ fmt_fixed 0 duration @ ''s (ramp '' @
     fmt_fixed 1 (nc_rampUpTime (eg_cfg e)) @ ''s) on ports '' @ fmt_ints (portIDs e)"

definition baseline_line :: "engine \<Rightarrow> string" where
  "baseline_line e = ''get_pgid_stats: baseline for pgids '' @ fmt_ints (eg_pgids e)"

definition hold_line :: "f64 \<Rightarrow> f64 \<Rightarrow> string" where
  "hold_line pct duration = ''hold '' @ fmt_fixed 2 pct @ ''% for '' @ fmt_fixed 0 duration @ ''s''"

definition stop_line :: string where
  "stop_line = ''stop_traffic''"

definition drain_line :: "engine \<Rightarrow> string" where
  "drain_line e = ''draining rx for '' @ itoa (nc_rxDelayMs (eg_cfg e)) @ ''ms''"

definition final_line :: "engine \<Rightarrow> string" where
  "final_line e = ''get_pgid_stats: final for pgids '' @ fmt_ints (eg_pgids e)"

lemma verbose_off [simp]: "\<not> nc_verbose (eg_cfg e) \<Longrightarrow> verbose e line s = s"
  by (simp add: verbose_def)

lemma log_simps [simp]:
  "rn_conn (put_run t s) = rn_conn s" "rn_stats (put_run t s) = rn_stats s" "rn_out (put_run t s) = rn_out s @ [t]"
  "rn_conn (verbose e line s) = rn_conn s" "rn_stats (verbose e line s) = rn_stats s"
  "rn_conn (report run s) = rn_conn s" "rn_stats (report run s) = rn_stats s"
  by (simp_all add: put_run_def verbose_def report_def)

section \<open>One measurement\<close>

definition second :: f64 where "second = Fin 1000000000"

definition rampStep :: int where "rampStep = 100000000"

definition sleepCtx :: "'w outside \<Rightarrow> int \<Rightarrow> 'w run_state \<Rightarrow> (ndr_error + unit) \<times> 'w run_state" where
  "sleepCtx ou d s = (case ou_sleep ou d s of (completed, s') \<Rightarrow>
     (if completed then Inr () else Inl NdrCancelled, s'))"

text \<open>\<open>stopAll\<close> ignores the errors of the ports and never fails.\<close>

definition stopAll :: "'w env \<Rightarrow> port list \<Rightarrow> 'w run_state \<Rightarrow> 'w run_state" where
  "stopAll en ports s = s\<lparr>rn_conn := fold (\<lambda>p c. snd (Stop en p c)) ports (rn_conn s)\<rparr>"

definition percent_mult :: "f64 \<Rightarrow> mult" where
  "percent_mult v = \<lparr>mu_type = MultPercentage, mu_value = v, mu_op = ''''\<rparr>"

text \<open>The two loops of \<open>rampTo\<close> over the ports.\<close>

fun start_ports :: "'w env \<Rightarrow> f64 \<Rightarrow> port list \<Rightarrow> 'w conn \<Rightarrow> (port_error + unit) \<times> 'w conn" where
  "start_ports en v [] c = (Inr (), c)"
| "start_ports en v (p # ps) c = (case Start en p (percent_mult v) (Fin 0) True (Fin 0) c of
      (Inl e, c') \<Rightarrow> (Inl e, c')
    | (Inr _, c') \<Rightarrow> start_ports en v ps c')"

fun update_ports :: "'w env \<Rightarrow> f64 \<Rightarrow> port list \<Rightarrow> 'w conn \<Rightarrow> (port_error + unit) \<times> 'w conn" where
  "update_ports en v [] c = (Inr (), c)"
| "update_ports en v (p # ps) c = (case Update en p (percent_mult v) True c of
      (Inl e, c') \<Rightarrow> (Inl e, c')
    | (Inr _, c') \<Rightarrow> update_ports en v ps c')"

text \<open>The loop that raises the rate: \<open>n\<close> steps are left, \<open>i\<close> is the next one.\<close>

fun ramp_loop :: "engine \<Rightarrow> 'w outside \<Rightarrow> f64 \<Rightarrow> int \<Rightarrow> int \<Rightarrow> nat \<Rightarrow> int \<Rightarrow> 'w run_state \<Rightarrow>
    (ndr_error + unit) \<times> 'w run_state" where
  "ramp_loop e ou pct steps interval 0 i s = (Inr (), s)"
| "ramp_loop e ou pct steps interval (Suc n) i s =
     (case sleepCtx ou interval s of
        (Inl err, s1) \<Rightarrow> (Inl err, s1)
      | (Inr _, s1) \<Rightarrow>
          (let v = f_div (f_mul pct (f_of_int i)) (f_of_int steps);
               s2 = verbose e (update_line v) s1 in
           case update_ports (ou_env ou) v (eg_ports e) (rn_conn s2) of
             (Inl err, c) \<Rightarrow> (Inl (NdrPort err), s2\<lparr>rn_conn := c\<rparr>)
           | (Inr _, c) \<Rightarrow> ramp_loop e ou pct steps interval n (i + 1) (s2\<lparr>rn_conn := c\<rparr>)))"

definition ramp_steps :: "ndr_config \<Rightarrow> int" where
  "ramp_steps cfg = (if f_lt (Fin 0) (nc_rampUpTime cfg)
     then wrap64 (f_to_i64 (f_div (f_mul (nc_rampUpTime cfg) second) (f_of_int rampStep)) + 1)
     else 1)"

definition ramp_interval :: "ndr_config \<Rightarrow> int" where
  "ramp_interval cfg = (if f_lt (Fin 0) (nc_rampUpTime cfg)
     then f_to_i64 (f_div (f_mul (nc_rampUpTime cfg) second) (f_of_int (ramp_steps cfg)))
     else rampStep)"

definition rampTo :: "engine \<Rightarrow> 'w outside \<Rightarrow> f64 \<Rightarrow> 'w run_state \<Rightarrow> (ndr_error + unit) \<times> 'w run_state" where
  "rampTo e ou pct s =
     (let steps = ramp_steps (eg_cfg e); interval = ramp_interval (eg_cfg e);
          s1 = (if f_lt (Fin 0) (nc_rampUpTime (eg_cfg e)) then verbose e (ramp_line e pct steps) s else s);
          initial = f_div pct (f_of_int steps);
          s2 = verbose e (start_line initial) s1 in
      case start_ports (ou_env ou) initial (eg_ports e) (rn_conn s2) of
        (Inl err, c) \<Rightarrow> (Inl (NdrPort err), s2\<lparr>rn_conn := c\<rparr>)
      | (Inr _, c) \<Rightarrow> ramp_loop e ou pct steps interval (nat (steps - 1)) 2 (s2\<lparr>rn_conn := c\<rparr>))"

definition evaluate :: "engine \<Rightarrow> orders \<Rightarrow> f64 \<Rightarrow> pgid_snapshot \<Rightarrow> pgid_snapshot \<Rightarrow> u64 \<Rightarrow> u64 \<Rightarrow> run_result" where
  "evaluate e it pct base final baseQF finalQF =
     (let tx = SumTx it final - SumTx it base;
          rx = SumRx it final - SumRx it base;
          drop = (if rx < tx then tx - rx else 0);
          rxErr = ps_rxErr final - ps_rxErr base;
          qf = finalQF - baseQF;
          dropPct = (if 0 < tx then f_mul (f_div (f_of_u64 drop) (f_of_u64 tx)) (Fin 100) else Fin 0);
          qfullPct = (if 0 < tx then f_mul (f_div (f_of_u64 qf) (f_of_u64 tx)) (Fin 100) else Fin 0) in
      \<lparr>rr_percentage = pct, rr_tx = tx, rr_rx = rx, rr_drop = drop, rr_dropPct = dropPct,
       rr_queueFull = qf, rr_qfullPct = qfullPct, rr_rxErr = rxErr,
       rr_pass = f_le dropPct (nc_pdr (eg_cfg e)) \<and> f_le qfullPct (nc_qfullResolution (eg_cfg e)) \<and> rxErr = 0\<rparr>)"

definition get_stats :: "engine \<Rightarrow> 'w outside \<Rightarrow> 'w run_state \<Rightarrow> (pgid_error + pgid_snapshot) \<times> 'w run_state" where
  "get_stats e ou s = (case GetPgidStats (ou_env ou) (ou_orders ou) (eg_pgids e) (rn_conn s) of
      (r, c) \<Rightarrow> (r, s\<lparr>rn_conn := c\<rparr>))"

definition queue_full :: "'w run_state \<Rightarrow> u64" where
  "queue_full s = f_to_u64 (or_zero (GlobalCounter (rn_stats s) queueFullKey))"

text \<open>\<open>perfRun\<close> from the point where its deferred stop is armed.\<close>

definition perfRun_armed :: "engine \<Rightarrow> 'w outside \<Rightarrow> f64 \<Rightarrow> f64 \<Rightarrow> pgid_snapshot \<Rightarrow> u64 \<Rightarrow> 'w run_state \<Rightarrow>
    (ndr_error + run_result) \<times> 'w run_state" where
  "perfRun_armed e ou pct duration base baseQF s =
     (case rampTo e ou pct s of
        (Inl err, s1) \<Rightarrow> (Inl err, s1)
      | (Inr _, s1) \<Rightarrow>
          (let h1 = verbose e (hold_line pct duration) s1 in
     (case sleepCtx ou (f_to_i64 (f_mul duration second)) h1 of
        (Inl err, s2) \<Rightarrow> (Inl err, s2)
      | (Inr _, s2) \<Rightarrow>
          (let s3 = stopAll (ou_env ou) (eg_ports e) (verbose e stop_line s2);
               h3 = verbose e (drain_line e) s3 in
     (case sleepCtx ou (wrap64 (nc_rxDelayMs (eg_cfg e) * 1000000)) h3 of
        (Inl err, s4) \<Rightarrow> (Inl err, s4)
      | (Inr _, s4) \<Rightarrow>
          (let h4 = verbose e (final_line e) s4 in
     (case get_stats e ou h4 of
        (Inl err, s5) \<Rightarrow> (Inl (NdrStats err), s5)
      | (Inr final, s5) \<Rightarrow>
          (Inr (evaluate e (ou_orders ou) pct base final baseQF (queue_full s5)), s5))))))))"

definition perfRun :: "engine \<Rightarrow> 'w outside \<Rightarrow> f64 \<Rightarrow> f64 \<Rightarrow> 'w run_state \<Rightarrow>
    (ndr_error + run_result) \<times> 'w run_state" where
  "perfRun e ou pct duration s =
     (if f_le pct (Fin 0) then (Inr (zero_run\<lparr>rr_percentage := pct, rr_pass := True\<rparr>), s)
      else let h = verbose e (run_line e pct duration) s;
               s1 = verbose e (baseline_line e) (stopAll (ou_env ou) (eg_ports e) h) in
        (case get_stats e ou s1 of
           (Inl err, s2) \<Rightarrow> (Inl (NdrStats err), s2)
         | (Inr base, s2) \<Rightarrow>
             (case perfRun_armed e ou pct duration base (queue_full s2) s2 of
                (res, s3) \<Rightarrow> (res, stopAll (ou_env ou) (eg_ports e) s3))))"

section \<open>The search\<close>

text \<open>The runs recorded in the results so far go with the state.\<close>

definition measure_run :: "engine \<Rightarrow> 'w outside \<Rightarrow> f64 \<Rightarrow> 'w run_state \<times> run_result list \<Rightarrow>
    (ndr_error + run_result) \<times> 'w run_state \<times> run_result list" where
  "measure_run e ou pct = (\<lambda>(s, iters).
     case perfRun e ou pct (nc_iterationDuration (eg_cfg e)) s of
        (Inl err, s') \<Rightarrow> (Inl err, s', iters)
      | (Inr run, s') \<Rightarrow> (Inr run, report run s', iters @ [run]))"

text \<open>The closure that \<open>binarySearch\<close> gives to \<open>search\<close>: it keeps the last error.\<close>

definition search_measure :: "engine \<Rightarrow> 'w outside \<Rightarrow> f64 \<Rightarrow> ('w run_state \<times> run_result list) \<times> ndr_error option \<Rightarrow>
    (run_result \<times> bool) \<times> ('w run_state \<times> run_result list) \<times> ndr_error option" where
  "search_measure e ou pct = (\<lambda>(st, runErr).
     case measure_run e ou pct st of
        (Inl err, st') \<Rightarrow> ((zero_run, False), st', Some err)
      | (Inr run, st') \<Rightarrow> ((run, True), st', runErr))"

definition binarySearch :: "engine \<Rightarrow> 'w outside \<Rightarrow> f64 \<Rightarrow> f64 \<Rightarrow> f64 \<Rightarrow> run_result \<Rightarrow> 'w run_state \<times> run_result list \<Rightarrow>
    (ndr_error + f64 \<times> run_result) \<times> 'w run_state \<times> run_result list" where
  "binarySearch e ou low high bestSeed runSeed st =
     (case search low high bestSeed runSeed (nc_pdrError (eg_cfg e)) (nc_maxIterations (eg_cfg e))
             (search_measure e ou) (st, None) of
        (best, st', runErr) \<Rightarrow> (case runErr of None \<Rightarrow> Inr best | Some err \<Rightarrow> Inl err, st'))"

definition optBinarySearch :: "engine \<Rightarrow> 'w outside \<Rightarrow> run_result \<Rightarrow> 'w run_state \<times> run_result list \<Rightarrow>
    (ndr_error + f64 \<times> run_result) \<times> 'w run_state \<times> run_result list" where
  "optBinarySearch e ou first st =
     (let p = nc_optBinSearchPercent (eg_cfg e);
          assumed = f_sub (Fin 100) (rr_dropPct first);
          lo = clampPct (f_sub assumed p);
          hi = clampPct (f_add assumed p) in
      case measure_run e ou lo st of
        (Inl err, st1) \<Rightarrow> (Inl err, st1)
      | (Inr loRun, st1) \<Rightarrow>
          (if \<not> rr_pass loRun then binarySearch e ou (Fin 0) lo (Fin 0) zero_run st1
           else (case measure_run e ou hi st1 of
              (Inl err, st2) \<Rightarrow> (Inl err, st2)
            | (Inr hiRun, st2) \<Rightarrow>
                (if rr_pass hiRun then binarySearch e ou hi (Fin 100) hi hiRun st2
                 else binarySearch e ou lo hi lo loRun st2))))"

definition find_search :: "engine \<Rightarrow> 'w outside \<Rightarrow> run_result \<Rightarrow> 'w run_state \<Rightarrow>
    (ndr_error + f64 \<times> run_result) \<times> 'w run_state \<times> run_result list" where
  "find_search e ou first s =
     (if nc_optBinSearch (eg_cfg e) then optBinarySearch e ou first (s, [])
      else binarySearch e ou (Fin 0) (Fin 100) (Fin 0) zero_run (s, []))"

definition Find :: "engine \<Rightarrow> 'w outside \<Rightarrow> 'w run_state \<Rightarrow> (ndr_error + ndr_results) \<times> 'w run_state" where
  "Find e0 ou s =
     (case GetActivePGIDs (ou_env ou) (rn_conn s) of
        (Inl err, c) \<Rightarrow> (Inl (NdrActive err), s\<lparr>rn_conn := c\<rparr>)
      | (Inr (lat, fs), c) \<Rightarrow>
          (let s1 = s\<lparr>rn_conn := c\<rparr>; e = e0\<lparr>eg_pgids := fs @ lat\<rparr> in
           if eg_pgids e = [] then (Inl NdrNoPgids, s1)
           else (case perfRun e ou (Fin 100) (nc_firstRunDuration (eg_cfg e)) s1 of
              (Inl err, s2) \<Rightarrow> (Inl err, s2)
            | (Inr first, s2) \<Rightarrow>
                (let h2 = report first s2;
                     results = \<lparr>nr_title = nc_title (eg_cfg e), nr_config = eg_cfg e, nr_first = first,
                       nr_iterations = [], nr_percent = Fin 0, nr_run = zero_run\<rparr> in
                 if rr_pass first then (Inr (results\<lparr>nr_percent := Fin 100, nr_run := first\<rparr>), h2)
                 else (case find_search e ou first h2 of
                    (Inl err, s3, its) \<Rightarrow> (Inl err, s3)
                  | (Inr (ndr, run), s3, its) \<Rightarrow>
                      (Inr (results\<lparr>nr_iterations := its, nr_percent := ndr, nr_run := run\<rparr>), s3))))))"

section \<open>Rates\<close>

text \<open>The percentage that one count is of another, as \<open>evaluate\<close> computes it.\<close>

definition pct_of :: "u64 \<Rightarrow> u64 \<Rightarrow> f64" where
  "pct_of n tx = (if 0 < tx then f_mul (f_div (f_of_u64 n) (f_of_u64 tx)) (Fin 100) else Fin 0)"

lemma pow2_bounds: "- (2 ^ 1024) < pow2 k"
  by (rule less_le_trans [of _ 0]) simp_all

lemma f_of_u64_pos: "0 < w \<Longrightarrow> \<exists>x. f_of_u64 w = Fin x \<and> 1 \<le> x \<and> x \<le> pow2 64"
proof -
  assume "0 < w"
  then have "1 \<le> uint w" "uint w \<le> 2 ^ 64"
    using uint_lt2p [of w] by (simp_all add: word_less_def)
  then have "(of_int 1 :: rat) \<le> of_int (uint w)" "of_int (uint w) \<le> (of_int (2 ^ 64) :: rat)"
    by (simp_all only: of_int_le_iff)
  then have "pow2 0 \<le> of_int (uint w)" "of_int (uint w) \<le> pow2 64"
    by simp_all
  then show ?thesis
    unfolding f_of_u64_def f_of_int_def
    using fl_between [OF rnd64_pow2 rnd64_pow2 _ _ pow2_bounds pow2_less_1024, of 0 64] by simp
qed

lemma ratio_pos:
  assumes "0 < n" "0 < tx"
  shows "\<exists>x. f_div (f_of_u64 n) (f_of_u64 tx) = Fin x \<and> pow2 (- 64) \<le> x \<and> x \<le> pow2 64"
proof -
  obtain a b where a: "f_of_u64 n = Fin a" "1 \<le> a" "a \<le> pow2 64" and b: "f_of_u64 tx = Fin b" "1 \<le> b" "b \<le> pow2 64"
    using f_of_u64_pos assms by blast
  have "1 / pow2 64 \<le> a / b" "a / b \<le> pow2 64 / 1"
    using a b by (intro frac_le; simp)+
  then have "pow2 (- 64) \<le> a / b" "a / b \<le> pow2 64"
    by (simp_all add: power_int_minus_divide)
  from fl_between [OF rnd64_pow2 rnd64_pow2 this pow2_bounds pow2_less_1024] a b show ?thesis
    by auto
qed

lemma pct_of_pos:
  assumes "0 < n" "0 < tx"
  shows "\<exists>x. pct_of n tx = Fin x \<and> 0 < x"
proof -
  obtain x where x: "f_div (f_of_u64 n) (f_of_u64 tx) = Fin x" "pow2 (- 64) \<le> x" "x \<le> pow2 64"
    using ratio_pos [OF assms] by blast
  have "pow2 (- 64) \<le> x * 100" "x * 100 \<le> pow2 64 * pow2 7"
    using x by (auto intro!: mult_mono)
  then have "pow2 (- 64) \<le> x * 100" "x * 100 \<le> pow2 71"
    by (simp_all flip: pow2_add)
  from fl_between [OF rnd64_pow2 rnd64_pow2 this pow2_bounds pow2_less_1024] show ?thesis
    using x(1) assms pow2_pos [of "- 64"] by (auto simp: pct_of_def intro: less_le_trans)
qed

lemma pct_of_0 [simp]: "pct_of 0 tx = Fin 0"
proof (cases "0 < tx")
  case True
  then obtain b where "f_of_u64 tx = Fin b" "1 \<le> b"
    using f_of_u64_pos by blast
  then show ?thesis
    by (simp add: pct_of_def f_of_u64_def f_of_int_def)
qed (simp add: pct_of_def)

lemma f_of_u64_mono:
  assumes "0 < n" "n \<le> tx"
  shows "\<exists>a b. f_of_u64 n = Fin a \<and> f_of_u64 tx = Fin b \<and> 0 < a \<and> a \<le> b"
proof -
  have "0 < tx"
    using assms by (rule less_le_trans)
  then obtain a b where a: "f_of_u64 n = Fin a" "1 \<le> a" and b: "f_of_u64 tx = Fin b" "1 \<le> b"
    using f_of_u64_pos assms(1) by blast
  have "rnd64 (of_int (uint n)) \<le> rnd64 (of_int (uint tx))"
    using assms(2) by (intro rnd64_mono) (simp only: of_int_le_iff word_le_def)
  with a b show ?thesis
    by (auto simp: f_of_u64_def f_of_int_def fl_def Let_def split: if_splits)
qed

text \<open>A drop rate never exceeds 100 percent.\<close>

lemma pct_of_le_100:
  assumes "n \<le> tx"
  shows "\<exists>x. pct_of n tx = Fin x \<and> 0 \<le> x \<and> x \<le> 100"
proof (cases "0 < n")
  case True
  then obtain a b where ab: "f_of_u64 n = Fin a" "f_of_u64 tx = Fin b" "0 < a" "a \<le> b"
    using f_of_u64_mono [OF _ assms] by blast
  have one: "rnd64 0 = 0" "rnd64 1 = 1" "rnd64 100 = 100"
    using rnd64_of_int [of 1] rnd64_of_int [of 100] by simp_all
  have "0 \<le> a / b" "a / b \<le> 1"
    using ab by simp_all
  from fl_between [OF one(1,2) this] obtain x where x: "fl (a / b) = Fin x" "0 \<le> x" "x \<le> 1"
    by auto
  then have "0 \<le> x * 100" "x * 100 \<le> 100"
    by simp_all
  from fl_between [OF one(1,3) this] obtain y where "fl (x * 100) = Fin y" "0 \<le> y" "y \<le> 100"
    by auto
  with x ab True assms show ?thesis
    by (auto simp: pct_of_def)
next
  case False
  then have "n = 0"
    by (simp add: word_gt_0)
  then show ?thesis
    by simp
qed

lemma evaluate_fields:
  "rr_dropPct (evaluate e it pct base final bq fq) =
     pct_of (rr_drop (evaluate e it pct base final bq fq)) (rr_tx (evaluate e it pct base final bq fq))"
  "rr_qfullPct (evaluate e it pct base final bq fq) =
     pct_of (fq - bq) (rr_tx (evaluate e it pct base final bq fq))"
  "rr_drop (evaluate e it pct base final bq fq) \<le> rr_tx (evaluate e it pct base final bq fq)"
  by (simp_all add: evaluate_def Let_def pct_of_def word_sub_le less_imp_le)

section \<open>What the server sees\<close>

text \<open>
  The ports that transmit after the requests of a log, as the server knows it: the last
  \<open>start_traffic\<close> or \<open>stop_traffic\<close> of a port decides.
\<close>

definition traffic_effect :: "json \<Rightarrow> int set \<Rightarrow> int set" where
  "traffic_effect r A = (case req_param ''port_id'' r of
      Some (JInt i) \<Rightarrow>
        (if req_method r = ''start_traffic'' then insert i A
         else if req_method r = ''stop_traffic'' then A - {i} else A)
    | _ \<Rightarrow> A)"

definition transmitting :: "'s link conn \<Rightarrow> int set" where
  "transmitting c = fold traffic_effect (lk_log (cn_world c)) {}"

definition conn_ready :: "'s link run_state \<Rightarrow> bool" where
  "conn_ready s \<longleftrightarrow> lk_reply (cn_world (rn_conn s)) = None"

lemma conn_ready_log [simp]:
  "conn_ready (verbose e line s) = conn_ready s" "conn_ready (report run s) = conn_ready s"
  "conn_ready (s\<lparr>rn_conn := c\<rparr>) \<longleftrightarrow> lk_reply (cn_world c) = None"
  by (simp_all add: conn_ready_def)

text \<open>
  The other goroutines take turns on the connection as well: a sleep leaves no reply behind.
\<close>

definition sleep_ok :: "'s link outside \<Rightarrow> bool" where
  "sleep_ok ou \<longleftrightarrow> (\<forall>d s. conn_ready s \<longrightarrow> conn_ready (snd (ou_sleep ou d s)))"

text \<open>The engine talks over a channel in lock step to a server.\<close>

definition link_outside :: "'s link outside \<Rightarrow> (json \<Rightarrow> 's \<Rightarrow> json \<times> 's) \<Rightarrow> bool" where
  "link_outside ou srv \<longleftrightarrow> sleep_ok ou \<and> (\<exists>zl wr rd big. zlib_round_trip zl \<and> json_codec wr rd \<and>
     ou_env ou = link_env zl wr rd srv big)"

lemma link_Call:
  assumes "link_outside ou srv" "lk_reply (cn_world c) = None"
  shows "Call (ou_env ou) m p c = abstract_call srv m p c"
  using assms callLocked_abstract unfolding link_outside_def Call_def by metis

lemma link_Call_ready:
  "link_outside ou srv \<Longrightarrow> lk_reply (cn_world c) = None \<Longrightarrow> lk_reply (cn_world (snd (Call (ou_env ou) m p c))) = None"
  by (simp add: link_Call peer.call_ready)

lemma abstract_call_effect:
  assumes "m \<noteq> ''start_traffic''" "m \<noteq> ''stop_traffic''"
  shows "transmitting (snd (abstract_call srv m p c)) = transmitting c"
  using assms by (auto simp: abstract_call_def transmitting_def traffic_effect_def Let_def req_method_def
      member_def request_json_def split: option.splits prod.splits json.splits)

lemma Stop_effect:
  assumes "link_outside ou srv" "lk_reply (cn_world c) = None"
  shows "lk_reply (cn_world (snd (Stop (ou_env ou) p c))) = None \<and>
    transmitting (snd (Stop (ou_env ou) p c)) = transmitting c - {pt_id p}"
proof -
  obtain zl wr rd big where en: "zlib_round_trip zl" "json_codec wr rd" "ou_env ou = link_env zl wr rd srv big"
    using assms(1) unfolding link_outside_def by blast
  obtain p' c' where step: "port_step (link_env zl wr rd srv big) \<lparr>cl_username = [], cl_sessionID = 0\<rparr> OpStop (p, c) = (p', c')"
    by (metis surj_pair)
  then have c': "c' = snd (Stop (ou_env ou) p c)"
    by (auto simp: en)
  have "op_finite OpStop" by simp
  from port_step_exchange [OF en(1,2) assms(2) this step] show ?thesis
    unfolding c' by (auto simp: transmitting_def traffic_effect_def)
qed

lemma stopAll_effect:
  assumes "link_outside ou srv" "conn_ready s"
  shows "conn_ready (stopAll (ou_env ou) ports s) \<and>
    transmitting (rn_conn (stopAll (ou_env ou) ports s)) = transmitting (rn_conn s) - set (map pt_id ports)"
proof -
  have "lk_reply (cn_world (fold (\<lambda>p c. snd (Stop (ou_env ou) p c)) ports c)) = None \<and>
      transmitting (fold (\<lambda>p c. snd (Stop (ou_env ou) p c)) ports c) = transmitting c - set (map pt_id ports)"
    if "lk_reply (cn_world c) = None" for c
    using that
  proof (induction ports arbitrary: c)
    case (Cons p ps)
    then show ?case
      using Stop_effect [OF assms(1) Cons.prems, of p] by auto
  qed simp
  with assms(2) show ?thesis
    by (simp add: stopAll_def conn_ready_def)
qed

lemma get_stats_effect:
  assumes "link_outside ou srv" "conn_ready s"
  shows "conn_ready (snd (get_stats e ou s)) \<and> transmitting (rn_conn (snd (get_stats e ou s))) = transmitting (rn_conn s)"
proof -
  have "snd (GetPgidStats (ou_env ou) (ou_orders ou) (eg_pgids e) (rn_conn s)) =
      snd (Call (ou_env ou) ''get_pgid_stats'' (Some [(''pgids'', Some (JArr (map JInt (eg_pgids e))))]) (rn_conn s))"
    by (simp add: GetPgidStats_def case_prod_beta split: sum.split)
  then show ?thesis
    using assms by (simp add: get_stats_def conn_ready_def link_Call peer.call_ready abstract_call_effect case_prod_beta)
qed

lemma GetActive_effect:
  assumes "link_outside ou srv" "lk_reply (cn_world c) = None"
  shows "lk_reply (cn_world (snd (GetActivePGIDs (ou_env ou) c))) = None \<and>
    transmitting (snd (GetActivePGIDs (ou_env ou) c)) = transmitting c"
proof -
  have "snd (GetActivePGIDs (ou_env ou) c) = snd (Call (ou_env ou) ''get_active_pgids'' (Some []) c)"
    by (simp add: GetActivePGIDs_def case_prod_beta split: sum.split option.split)
  then show ?thesis
    using assms by (simp add: link_Call peer.call_ready abstract_call_effect)
qed

lemma start_ports_ready:
  assumes "link_outside ou srv"
  shows "lk_reply (cn_world c) = None \<Longrightarrow> lk_reply (cn_world (snd (start_ports (ou_env ou) v ports c))) = None"
proof (induction ports arbitrary: c)
  case (Cons p ps)
  have "lk_reply (cn_world (snd (Start (ou_env ou) p (percent_mult v) (Fin 0) True (Fin 0) c))) = None"
    using link_Call_ready [OF assms Cons.prems] by (simp add: Start_def case_prod_beta split: sum.split)
  then show ?case
    using Cons.IH by (simp add: case_prod_beta split: sum.split)
qed simp

lemma update_ports_ready:
  assumes "link_outside ou srv"
  shows "lk_reply (cn_world c) = None \<Longrightarrow> lk_reply (cn_world (snd (update_ports (ou_env ou) v ports c))) = None"
proof (induction ports arbitrary: c)
  case (Cons p ps)
  have "lk_reply (cn_world (snd (Update (ou_env ou) p (percent_mult v) True c))) = None"
    using link_Call_ready [OF assms Cons.prems] by (simp add: Update_def case_prod_beta split: sum.split)
  then show ?case
    using Cons.IH by (simp add: case_prod_beta split: sum.split)
qed simp

text \<open>No port of the engine transmits, and the channel is ready.\<close>

definition quiet :: "port list \<Rightarrow> 's link run_state \<Rightarrow> bool" where
  "quiet ports s \<longleftrightarrow> conn_ready s \<and> transmitting (rn_conn s) \<inter> set (map pt_id ports) = {}"

lemma quiet_log [simp]:
  "quiet ports (verbose e line s) = quiet ports s" "quiet ports (report run s) = quiet ports s"
  by (simp_all add: quiet_def)

lemma stopAll_quiet: "link_outside ou srv \<Longrightarrow> conn_ready s \<Longrightarrow> quiet ports (stopAll (ou_env ou) ports s)"
  using stopAll_effect [of ou srv s ports] by (auto simp: quiet_def)

lemma get_stats_quiet: "link_outside ou srv \<Longrightarrow> quiet ports s \<Longrightarrow> quiet ports (snd (get_stats e ou s))"
  using get_stats_effect [of ou srv s e] by (simp add: quiet_def)

lemma sleepCtx_ready:
  assumes "link_outside ou srv" "conn_ready s"
  shows "conn_ready (snd (sleepCtx ou d s))"
  using assms by (auto simp: sleepCtx_def link_outside_def sleep_ok_def case_prod_beta)

lemma ramp_loop_ready:
  assumes "link_outside ou srv"
  shows "conn_ready s \<Longrightarrow> conn_ready (snd (ramp_loop e ou pct steps interval n i s))"
proof (induction n arbitrary: i s)
  case (Suc n)
  let ?v = "f_div (f_mul pct (f_of_int i)) (f_of_int steps)"
  let ?s = "verbose e (update_line ?v) (snd (sleepCtx ou interval s))"
  have "conn_ready ?s"
    using sleepCtx_ready [OF assms Suc.prems] by simp
  moreover from this have "conn_ready (?s\<lparr>rn_conn := snd (update_ports (ou_env ou) ?v (eg_ports e) (rn_conn ?s))\<rparr>)"
    using update_ports_ready [OF assms] by (simp add: conn_ready_def)
  ultimately show ?case
    using Suc.IH by (simp add: Let_def case_prod_beta split: sum.split)
qed simp

lemma rampTo_ready:
  assumes "link_outside ou srv" "conn_ready s"
  shows "conn_ready (snd (rampTo e ou pct s))"
proof -
  have "lk_reply (cn_world (snd (start_ports (ou_env ou) v ports (rn_conn s)))) = None" for v ports
    using start_ports_ready [OF assms(1)] assms(2) by (simp add: conn_ready_def)
  then show ?thesis
    using ramp_loop_ready [OF assms(1)] by (simp add: rampTo_def Let_def case_prod_beta split: sum.split)
qed

lemma perfRun_armed_ready:
  assumes "link_outside ou srv" "conn_ready s"
  shows "conn_ready (snd (perfRun_armed e ou pct duration base qf s))"
proof -
  note sleep = sleepCtx_ready [OF assms(1)]
  have "conn_ready (stopAll (ou_env ou) ports s)" if "conn_ready s" for ports and s :: "'a link run_state"
    using stopAll_quiet [OF assms(1) that] by (simp add: quiet_def)
  moreover have "conn_ready (snd (get_stats e ou s))" if "conn_ready s" for s :: "'a link run_state"
    using get_stats_effect [OF assms(1) that] by simp
  ultimately show ?thesis
    using rampTo_ready [OF assms, of e pct] sleep
    by (simp add: perfRun_armed_def Let_def case_prod_beta split: sum.split)
qed

lemma perfRun_quiet:
  assumes "link_outside ou srv" "conn_ready s" "f_le pct (Fin 0) \<Longrightarrow> quiet (eg_ports e) s"
  shows "quiet (eg_ports e) (snd (perfRun e ou pct duration s))"
proof -
  let ?s1 = "verbose e (baseline_line e) (stopAll (ou_env ou) (eg_ports e) (verbose e (run_line e pct duration) s))"
  have 1: "quiet (eg_ports e) ?s1"
    using stopAll_quiet [OF assms(1)] assms(2) by simp
  have 2: "quiet (eg_ports e) (snd (get_stats e ou ?s1))"
    by (rule get_stats_quiet [OF assms(1) 1])
  have 3: "quiet (eg_ports e) (stopAll (ou_env ou) (eg_ports e)
      (snd (perfRun_armed e ou pct duration base qf (snd (get_stats e ou ?s1)))))" for base qf
    using 2 by (intro stopAll_quiet [OF assms(1)] perfRun_armed_ready [OF assms(1)]) (simp add: quiet_def)
  show ?thesis
    using 2 3 assms(3) by (simp add: perfRun_def Let_def case_prod_beta split: sum.split)
qed

section \<open>The engine as a measurement\<close>

lemma perfRun_percentage: "perfRun e ou pct duration s = (Inr run, s') \<Longrightarrow> rr_percentage run = pct"
  by (auto simp: perfRun_def perfRun_armed_def evaluate_def Let_def split: if_splits prod.splits sum.splits)

lemma measure_run_Inr:
  "measure_run e ou pct (s, its) = (Inr run, s', its') \<Longrightarrow> rr_percentage run = pct \<and> its' = its @ [run]"
  by (auto simp: measure_run_def perfRun_percentage split: prod.splits sum.splits)

lemma measure_run_Inl: "measure_run e ou pct (s, its) = (Inl err, s', its') \<Longrightarrow> its' = its"
  by (auto simp: measure_run_def split: prod.splits sum.splits)

interpretation engine: recorded_measurement "search_measure e ou" "\<lambda>st. snd (fst st)"
  for e :: engine and ou :: "'w outside"
proof unfold_locales
  fix x run s' ok and s :: "('w run_state \<times> run_result list) \<times> ndr_error option"
  obtain st its err where s: "s = ((st, its), err)" by (metis prod.collapse)
  show "rr_percentage run = x" if "search_measure e ou x s = ((run, True), s')"
    using that unfolding s by (auto simp: search_measure_def dest: measure_run_Inr split: prod.splits sum.splits)
  show "snd (fst s') = snd (fst s) @ (if ok then [run] else [])" if "search_measure e ou x s = ((run, ok), s')"
    using that unfolding s
    by (auto simp: search_measure_def dest: measure_run_Inr measure_run_Inl split: prod.splits sum.splits)
qed

lemma measure_run_quiet:
  assumes "link_outside ou srv" "quiet (eg_ports e) (fst st)"
  shows "quiet (eg_ports e) (fst (snd (measure_run e ou pct st)))"
proof -
  have "quiet (eg_ports e) (snd (perfRun e ou pct (nc_iterationDuration (eg_cfg e)) (fst st)))"
    using assms by (intro perfRun_quiet [OF assms(1)]) (simp_all add: quiet_def)
  then show ?thesis
    by (simp add: measure_run_def case_prod_beta split: sum.split)
qed

interpretation engine_quiet: keeping_measurement "search_measure e ou"
  "\<lambda>st. link_outside ou srv \<longrightarrow> quiet (eg_ports e) (fst (fst st))"
  for e :: engine and ou :: "'s link outside" and srv
proof unfold_locales
  fix x and s :: "('s link run_state \<times> run_result list) \<times> ndr_error option"
  assume "link_outside ou srv \<longrightarrow> quiet (eg_ports e) (fst (fst s))"
  then show "link_outside ou srv \<longrightarrow> quiet (eg_ports e) (fst (fst (snd (search_measure e ou x s))))"
    using measure_run_quiet [of ou srv e "fst s" x]
    by (simp add: search_measure_def case_prod_beta split: sum.split)
qed

lemma binarySearch_quiet:
  assumes "link_outside ou srv" "quiet (eg_ports e) (fst st)"
  shows "quiet (eg_ports e) (fst (snd (binarySearch e ou low high best run st)))"
  using engine_quiet.loop_keeps [of ou srv e "(st, None)"] assms
  by (simp add: binarySearch_def search_def case_prod_beta split: option.split)

lemma find_search_quiet:
  assumes "link_outside ou srv" "quiet (eg_ports e) s"
  shows "quiet (eg_ports e) (fst (snd (find_search e ou first s)))"
proof -
  note keeps = measure_run_quiet [OF assms(1)] binarySearch_quiet [OF assms(1)]
  show ?thesis
    using assms(2)
    by (simp add: find_search_def optBinarySearch_def Let_def case_prod_beta keeps split: sum.split)
qed

section \<open>What the search records\<close>

text \<open>The result \<open>b, run\<close> of a search: a run that passed at \<open>b\<close>, among \<open>runs\<close>.\<close>

definition passed_in :: "run_result list \<Rightarrow> f64 \<times> run_result \<Rightarrow> bool" where
  "passed_in runs best \<longleftrightarrow> (case best of (b, run) \<Rightarrow> rr_pass run \<and> rr_percentage run = b \<and> run \<in> set runs)"

lemma binarySearch_records:
  assumes "binarySearch e ou low high best seed (s, its) = (res, s', its')"
  shows "\<exists>new. its' = its @ new \<and> length new \<le> nat (nc_maxIterations (eg_cfg e)) \<and>
    (\<forall>r. res = Inr r \<longrightarrow> r = (best, seed) \<or> passed_in new r)"
proof -
  obtain b run st' err where loop: "search_loop (nat (nc_maxIterations (eg_cfg e))) low high best seed (nc_pdrError (eg_cfg e))
      (search_measure e ou) ((s, its), None) = ((b, run), st', err)"
    by (metis prod.collapse)
  then have res: "res = (case err of None \<Rightarrow> Inr (b, run) | Some err \<Rightarrow> Inl err)" "st' = (s', its')"
    using assms by (simp_all add: binarySearch_def search_def split: option.splits)
  obtain new where new: "its' = its @ new" "length new \<le> nat (nc_maxIterations (eg_cfg e))"
    "(b, run) = (best, seed) \<or> run \<in> set new"
    using engine.loop_records [OF loop] res(2) by auto
  have "(b, run) = (best, seed) \<or> passed_in new (b, run)"
    using engine.loop_result [OF loop] new(3) by (auto simp: passed_in_def)
  with new(1,2) res(1) show ?thesis
    by (intro exI [of _ new]) (auto split: option.splits)
qed

lemma passed_in_mono: "passed_in runs r \<Longrightarrow> set runs \<subseteq> set runs' \<Longrightarrow> passed_in runs' r"
  by (auto simp: passed_in_def)

lemma binarySearch_records_Inr:
  assumes "binarySearch e ou low high best seed (s, its) = (Inr r, s', its')"
    and "(best, seed) = (Fin 0, zero_run) \<or> passed_in its (best, seed)"
  shows "length its' \<le> length its + nat (nc_maxIterations (eg_cfg e)) \<and> (r = (Fin 0, zero_run) \<or> passed_in its' r)"
proof -
  obtain new where new: "its' = its @ new" "length new \<le> nat (nc_maxIterations (eg_cfg e))"
    "r = (best, seed) \<or> passed_in new r"
    using binarySearch_records [OF assms(1)] by auto
  then show ?thesis
    using assms(2) passed_in_mono [of its r its'] passed_in_mono [of new r its'] by auto
qed

lemma find_search_records:
  assumes "find_search e ou first s = (Inr r, s', its)"
  shows "length its \<le> nat (nc_maxIterations (eg_cfg e)) + (if nc_optBinSearch (eg_cfg e) then 2 else 0) \<and>
    (r = (Fin 0, zero_run) \<or> passed_in its r)"
proof (cases "nc_optBinSearch (eg_cfg e)")
  case False
  then have "binarySearch e ou (Fin 0) (Fin 100) (Fin 0) zero_run (s, []) = (Inr r, s', its)"
    using assms by (simp add: find_search_def)
  from binarySearch_records_Inr [OF this] False show ?thesis by simp
next
  case True
  let ?p = "nc_optBinSearchPercent (eg_cfg e)" and ?a = "f_sub (Fin 100) (rr_dropPct first)"
  let ?lo = "clampPct (f_sub ?a ?p)" and ?hi = "clampPct (f_add ?a ?p)"
  have opt: "optBinarySearch e ou first (s, []) = (Inr r, s', its)"
    using assms True by (simp add: find_search_def)
  then obtain lo s1 its1 where lo: "measure_run e ou ?lo (s, []) = (Inr lo, s1, its1)"
    by (cases "fst (measure_run e ou ?lo (s, []))") (auto simp: optBinarySearch_def Let_def split: prod.splits)
  note its1 = measure_run_Inr [OF lo]
  show ?thesis
  proof (cases "rr_pass lo")
    case False
    then have "binarySearch e ou (Fin 0) ?lo (Fin 0) zero_run (s1, its1) = (Inr r, s', its)"
      using opt lo by (simp add: optBinarySearch_def Let_def)
    from binarySearch_records_Inr [OF this] True its1 show ?thesis by simp
  next
    case pass: True
    with opt lo obtain hi s2 its2 where hi: "measure_run e ou ?hi (s1, its1) = (Inr hi, s2, its2)"
      by (cases "fst (measure_run e ou ?hi (s1, its1))") (auto simp: optBinarySearch_def Let_def split: prod.splits)
    note its2 = measure_run_Inr [OF hi]
    show ?thesis
    proof (cases "rr_pass hi")
      case p: True
      then have "binarySearch e ou ?hi (Fin 100) ?hi hi (s2, its2) = (Inr r, s', its)"
        using opt lo hi pass by (simp add: optBinarySearch_def Let_def)
      from binarySearch_records_Inr [OF this] True its1 its2 p show ?thesis
        by (simp add: passed_in_def)
    next
      case False
      then have "binarySearch e ou ?lo ?hi ?lo lo (s2, its2) = (Inr r, s', its)"
        using opt lo hi pass by (simp add: optBinarySearch_def Let_def)
      from binarySearch_records_Inr [OF this] True its1 its2 pass show ?thesis
        by (simp add: passed_in_def)
    qed
  qed
qed

section \<open>The rates the search measures\<close>

lemma fl_not_NaN [simp]: "fl x \<noteq> NaN"
  by (simp add: fl_def Let_def)

lemma fl_mono: "x \<le> y \<Longrightarrow> f_le (fl x) (fl y)"
  using rnd64_mono [of x y] by (auto simp: fl_def Let_def f_le_def f_eq_def)

lemma clampPct_Fin:
  assumes "f64_ok v" "v \<noteq> NaN"
  shows "\<exists>x. clampPct v = Fin x \<and> pct_ok x"
proof (cases v)
  case (Fin x)
  with assms show ?thesis
    by (cases "x < 0"; cases "100 < x") (auto simp: clampPct_def pct_ok_def [of x] f64_ok_def)
qed (use assms in \<open>auto simp: clampPct_def\<close>)

lemma clampPct_mono:
  assumes "f_le v w" "clampPct v = Fin x" "clampPct w = Fin y"
  shows "x \<le> y"
  using assms by (cases v; cases w) (auto simp: clampPct_def f_le_def f_eq_def split: if_splits)

text \<open>The window around the assumed rate lies in the range of percentages.\<close>

lemma opt_window:
  assumes "f_le (Fin 0) p"
  shows "\<exists>x y. clampPct (f_sub (Fin a) p) = Fin x \<and> clampPct (f_add (Fin a) p) = Fin y \<and>
    pct_ok x \<and> pct_ok y \<and> x \<le> y"
proof (cases p)
  case (Fin q)
  then have q: "a - q \<le> a + q"
    using assms by simp
  obtain x where x: "clampPct (fl (a - q)) = Fin x" "pct_ok x"
    using clampPct_Fin [of "fl (a - q)"] by auto
  obtain y where y: "clampPct (fl (a + q)) = Fin y" "pct_ok y"
    using clampPct_Fin [of "fl (a + q)"] by auto
  have "x \<le> y"
    by (rule clampPct_mono [OF fl_mono [OF q] x(1) y(1)])
  with x y Fin show ?thesis by simp
qed (use assms in \<open>auto simp: clampPct_def f_sub_def f_le_def f_eq_def\<close>)

lemma evaluate_drop_range: "\<exists>x. rr_dropPct (evaluate e it pct base final bq fq) = Fin x \<and> 0 \<le> x \<and> x \<le> 100"
  unfolding evaluate_fields(1) by (rule pct_of_le_100 [OF evaluate_fields(3)])

lemma perfRun_drop_range:
  "perfRun e ou pct duration s = (Inr run, s') \<Longrightarrow> \<exists>x. rr_dropPct run = Fin x \<and> 0 \<le> x \<and> x \<le> 100"
  using evaluate_drop_range
  by (auto simp: perfRun_def perfRun_armed_def zero_run_def Let_def split: if_splits prod.splits sum.splits)

lemma assumed_rate:
  assumes "0 \<le> d" "d \<le> 100"
  shows "\<exists>a. f_sub (Fin 100) (Fin d) = Fin a"
proof -
  have one: "rnd64 0 = 0" "rnd64 100 = 100"
    using rnd64_of_int [of 100] by simp_all
  have "0 \<le> 100 - d" "100 - d \<le> 100"
    using assms by simp_all
  from fl_between [OF one this] show ?thesis by auto
qed

lemma binarySearch_rates:
  assumes "binarySearch e ou (Fin l) (Fin h) best seed (s, its) = (res, s', its')"
    and "pct_ok l" "pct_ok h" "l \<le> h" "rates_in 0 100 its"
  shows "rates_in 0 100 its'"
proof -
  obtain new where "its' = its @ new" "rates_in l h new"
    using engine.loop_rates [OF assms(2-4), of "nat (nc_maxIterations (eg_cfg e))" best seed "nc_pdrError (eg_cfg e)"
        e ou "((s, its), None)"] assms(1)
    by (auto simp: binarySearch_def search_def case_prod_beta)
  then show ?thesis
    using assms(2-5) by (simp add: rates_in_mono [of l h] pct_ok_def)
qed

lemma measure_run_rates:
  assumes "measure_run e ou (Fin x) (s, its) = (res, s', its')" "pct_ok x" "rates_in 0 100 its"
  shows "rates_in 0 100 its'"
  using assms measure_run_Inl [of e ou "Fin x" s its] measure_run_Inr [of e ou "Fin x" s its]
  by (cases res) (auto simp: pct_ok_def)

lemma find_search_rates:
  assumes "find_search e ou first s = (res, s', its)" "f_le (Fin 0) (nc_optBinSearchPercent (eg_cfg e))"
    and "rr_dropPct first = Fin d" "0 \<le> d" "d \<le> 100"
  shows "rates_in 0 100 its"
proof (cases "nc_optBinSearch (eg_cfg e)")
  case False
  then have "binarySearch e ou (Fin 0) (Fin 100) (Fin 0) zero_run (s, []) = (res, s', its)"
    using assms(1) by (simp add: find_search_def)
  from binarySearch_rates [OF this] show ?thesis by simp
next
  case True
  let ?p = "nc_optBinSearchPercent (eg_cfg e)"
  obtain a where a: "f_sub (Fin 100) (Fin d) = Fin a"
    using assumed_rate assms(4,5) by blast
  obtain x y where xy: "clampPct (f_sub (Fin a) ?p) = Fin x" "clampPct (f_add (Fin a) ?p) = Fin y"
    "pct_ok x" "pct_ok y" "x \<le> y"
    using opt_window [OF assms(2), of a] by blast
  have bounds: "0 \<le> x" "y \<le> 100"
    using xy by (simp_all add: pct_ok_def)
  have opt: "optBinarySearch e ou first (s, []) = (res, s', its)"
    using assms(1) True by (simp add: find_search_def)
  obtain r1 s1 its1 where m1: "measure_run e ou (Fin x) (s, []) = (r1, s1, its1)" by (metis prod_cases3)
  obtain r2 s2 its2 where m2: "measure_run e ou (Fin y) (s1, its1) = (r2, s2, its2)" by (metis prod_cases3)
  note r1 = measure_run_rates [OF m1 xy(3)]
  note r2 = measure_run_rates [OF m2 xy(4)]
  show ?thesis
    using opt m1 m2 xy bounds assms(3) a r1 r2
      binarySearch_rates [of e ou 0 x "Fin 0" zero_run s1 its1 res s' its]
      binarySearch_rates [of e ou y 100 "Fin y" "projr r2" s2 its2 res s' its]
      binarySearch_rates [of e ou x y "Fin x" "projr r1" s2 its2 res s' its]
    by (auto simp: optBinarySearch_def Let_def simp del: f_sub_Fin split: sum.splits if_splits)
qed

section \<open>The requests of a measurement\<close>

definition methods :: "'s link run_state \<Rightarrow> string list" where
  "methods s = map req_method (lk_log (cn_world (rn_conn s)))"

lemma methods_log [simp]:
  "methods (verbose e line s) = methods s" "methods (report run s) = methods s"
  by (simp_all add: methods_def)

text \<open>Sleeps during which no other goroutine uses the connection.\<close>

definition silent_sleep :: "'s link outside \<Rightarrow> bool" where
  "silent_sleep ou \<longleftrightarrow> (\<forall>d s. rn_conn (snd (ou_sleep ou d s)) = rn_conn s)"

lemma abstract_call_method:
  "fst (abstract_call srv m p c) = Inr v \<Longrightarrow>
     map req_method (lk_log (cn_world (snd (abstract_call srv m p c)))) = map req_method (lk_log (cn_world c)) @ [m]"
  by (auto simp: abstract_call_def Let_def req_method_def member_def request_json_def
      split: option.splits prod.splits)

lemma abstract_call_method_ok:
  "params_ok p \<Longrightarrow>
     map req_method (lk_log (cn_world (snd (abstract_call srv m p c)))) = map req_method (lk_log (cn_world c)) @ [m]"
  using abstract_call_sends [of p c m srv] by (auto simp: sends_def)

lemma stopAll_methods:
  assumes "link_outside ou srv" "conn_ready s"
  shows "methods (stopAll (ou_env ou) ports s) = methods s @ replicate (length ports) ''stop_traffic''"
proof -
  have "map req_method (lk_log (cn_world (fold (\<lambda>p c. snd (Stop (ou_env ou) p c)) ports c))) =
      map req_method (lk_log (cn_world c)) @ replicate (length ports) ''stop_traffic''"
    if "lk_reply (cn_world c) = None" for c
    using that
  proof (induction ports arbitrary: c)
    case (Cons p ps)
    have "snd (Stop (ou_env ou) p c) = snd (abstract_call srv ''stop_traffic'' (Some (profile_params p)) c)"
      by (simp add: Stop_def link_Call [OF assms(1) Cons.prems] case_prod_beta split: sum.split)
    moreover have "params_ok (Some (profile_params p))"
      using op_params_ok [of OpStop _ p] by simp
    ultimately show ?case
      using Cons.IH Stop_effect [OF assms(1) Cons.prems, of p] by (simp add: abstract_call_method_ok)
  qed simp
  with assms(2) show ?thesis
    by (simp add: methods_def stopAll_def conn_ready_def)
qed

lemma get_stats_methods:
  assumes "link_outside ou srv" "conn_ready s"
  shows "methods (snd (get_stats e ou s)) = methods s @ [''get_pgid_stats'']"
proof -
  have "params_ok (Some [(''pgids'', Some (JArr (map JInt (eg_pgids e))))])"
    by (simp add: params_ok_def entries_def)
  then show ?thesis
    using assms by (simp add: get_stats_def GetPgidStats_def methods_def conn_ready_def link_Call
        abstract_call_method_ok case_prod_beta split: sum.split)
qed

lemma start_ports_methods:
  assumes "link_outside ou srv"
  shows "lk_reply (cn_world c) = None \<Longrightarrow> start_ports (ou_env ou) v ports c = (Inr u, c') \<Longrightarrow>
    map req_method (lk_log (cn_world c')) =
      map req_method (lk_log (cn_world c)) @ replicate (length ports) ''start_traffic''"
proof (induction ports arbitrary: c)
  case (Cons p ps)
  obtain u1 c1 where st: "Start (ou_env ou) p (percent_mult v) (Fin 0) True (Fin 0) c = (Inr u1, c1)"
    and rest: "start_ports (ou_env ou) v ps c1 = (Inr u, c')"
    using Cons.prems by (auto split: prod.splits sum.splits)
  obtain ps' w where call: "abstract_call srv ''start_traffic'' ps' c = (Inr w, c1)"
    using st by (auto simp: Start_def link_Call [OF assms Cons.prems(1)] split: prod.splits sum.splits)
  have "lk_reply (cn_world c1) = None"
    using peer.call_ready [OF Cons.prems(1), of srv "''start_traffic''" ps'] call by simp
  then show ?case
    using Cons.IH [OF _ rest] abstract_call_method [of srv "''start_traffic''" ps' c w] call by simp
qed simp

lemma update_ports_methods:
  assumes "link_outside ou srv"
  shows "lk_reply (cn_world c) = None \<Longrightarrow> update_ports (ou_env ou) v ports c = (Inr u, c') \<Longrightarrow>
    map req_method (lk_log (cn_world c')) =
      map req_method (lk_log (cn_world c)) @ replicate (length ports) ''update_traffic''"
proof (induction ports arbitrary: c)
  case (Cons p ps)
  obtain u1 c1 where st: "Update (ou_env ou) p (percent_mult v) True c = (Inr u1, c1)"
    and rest: "update_ports (ou_env ou) v ps c1 = (Inr u, c')"
    using Cons.prems by (auto split: prod.splits sum.splits)
  obtain ps' w where call: "abstract_call srv ''update_traffic'' ps' c = (Inr w, c1)"
    using st by (auto simp: Update_def link_Call [OF assms Cons.prems(1)] split: prod.splits sum.splits)
  have "lk_reply (cn_world c1) = None"
    using peer.call_ready [OF Cons.prems(1), of srv "''update_traffic''" ps'] call by simp
  then show ?case
    using Cons.IH [OF _ rest] abstract_call_method [of srv "''update_traffic''" ps' c w] call by simp
qed simp

lemma sleepCtx_conn: "silent_sleep ou \<Longrightarrow> rn_conn (snd (sleepCtx ou d s)) = rn_conn s"
  by (simp add: sleepCtx_def silent_sleep_def case_prod_beta)

lemma ramp_loop_methods:
  assumes "link_outside ou srv" "silent_sleep ou"
  shows "conn_ready s \<Longrightarrow> ramp_loop e ou pct steps interval n i s = (Inr u, s') \<Longrightarrow>
    methods s' = methods s @ replicate (n * length (eg_ports e)) ''update_traffic''"
proof (induction n arbitrary: i s)
  case (Suc n)
  let ?v = "f_div (f_mul pct (f_of_int i)) (f_of_int steps)"
  obtain u1 s1 where sl: "sleepCtx ou interval s = (Inr u1, s1)"
    using Suc.prems(2) by (auto split: prod.splits sum.splits)
  then obtain u2 c where up: "update_ports (ou_env ou) ?v (eg_ports e) (rn_conn s1) = (Inr u2, c)"
    and rest: "ramp_loop e ou pct steps interval n (i + 1) (verbose e (update_line ?v) s1\<lparr>rn_conn := c\<rparr>) = (Inr u, s')"
    using Suc.prems(2) by (auto simp: Let_def split: prod.splits sum.splits)
  have s1: "rn_conn s1 = rn_conn s"
    using sleepCtx_conn [OF assms(2), of interval s] sl by simp
  have r1: "lk_reply (cn_world (rn_conn s1)) = None"
    using Suc.prems(1) s1 by (simp add: conn_ready_def)
  have "conn_ready (verbose e (update_line ?v) s1\<lparr>rn_conn := c\<rparr>)"
    using update_ports_ready [OF assms(1) r1, of ?v "eg_ports e"] up by (simp add: conn_ready_def)
  from Suc.IH [OF this rest] show ?case
    using update_ports_methods [OF assms(1) r1 up] s1 by (simp add: methods_def replicate_add)
qed simp

lemma rampTo_methods:
  assumes "link_outside ou srv" "silent_sleep ou" "conn_ready s" "rampTo e ou pct s = (Inr u, s')"
  shows "methods s' = methods s @ replicate (length (eg_ports e)) ''start_traffic'' @
    replicate (nat (ramp_steps (eg_cfg e) - 1) * length (eg_ports e)) ''update_traffic''"
proof -
  obtain u1 c s2 where st: "start_ports (ou_env ou) (f_div pct (f_of_int (ramp_steps (eg_cfg e)))) (eg_ports e) (rn_conn s) = (Inr u1, c)"
    and rest: "ramp_loop e ou pct (ramp_steps (eg_cfg e)) (ramp_interval (eg_cfg e))
      (nat (ramp_steps (eg_cfg e) - 1)) 2 (s2\<lparr>rn_conn := c\<rparr>) = (Inr u, s')"
    using assms(4) by (auto simp: rampTo_def Let_def split: prod.splits sum.splits if_splits)
  have r: "lk_reply (cn_world (rn_conn s)) = None"
    using assms(3) by (simp add: conn_ready_def)
  have "conn_ready (s2\<lparr>rn_conn := c\<rparr>)"
    using start_ports_ready [OF assms(1) r, of "f_div pct (f_of_int (ramp_steps (eg_cfg e)))" "eg_ports e"] st by simp
  from ramp_loop_methods [OF assms(1,2) this rest] show ?thesis
    using start_ports_methods [OF assms(1) r st] by (simp add: methods_def)
qed

text \<open>The requests of a run with \<open>n\<close> ports and \<open>k\<close> steps after the first.\<close>

definition run_requests :: "nat \<Rightarrow> nat \<Rightarrow> string list" where
  "run_requests n k = replicate n ''stop_traffic'' @ [''get_pgid_stats''] @ replicate n ''start_traffic'' @
     replicate (k * n) ''update_traffic'' @ replicate n ''stop_traffic'' @ [''get_pgid_stats''] @
     replicate n ''stop_traffic''"

lemma perfRun_armed_methods:
  assumes "link_outside ou srv" "silent_sleep ou" "conn_ready s"
    and "perfRun_armed e ou pct duration base bq s = (Inr run, s')"
  shows "methods s' = methods s @ replicate (length (eg_ports e)) ''start_traffic'' @
    replicate (nat (ramp_steps (eg_cfg e) - 1) * length (eg_ports e)) ''update_traffic'' @
    replicate (length (eg_ports e)) ''stop_traffic'' @ [''get_pgid_stats'']"
proof -
  obtain u1 s1 u2 s2 u4 s4 final where r: "rampTo e ou pct s = (Inr u1, s1)"
    and w1: "sleepCtx ou (f_to_i64 (f_mul duration second)) (verbose e (hold_line pct duration) s1) = (Inr u2, s2)"
    and w2: "sleepCtx ou (wrap64 (nc_rxDelayMs (eg_cfg e) * 1000000))
      (verbose e (drain_line e) (stopAll (ou_env ou) (eg_ports e) (verbose e stop_line s2))) = (Inr u4, s4)"
    and g: "get_stats e ou (verbose e (final_line e) s4) = (Inr final, s')"
    using assms(4) by (auto simp: perfRun_armed_def Let_def split: prod.splits sum.splits)
  have conn: "rn_conn s2 = rn_conn s1" "rn_conn s4 = rn_conn (stopAll (ou_env ou) (eg_ports e) (verbose e stop_line s2))"
    using sleepCtx_conn [OF assms(2), of "f_to_i64 (f_mul duration second)" "verbose e (hold_line pct duration) s1"]
      sleepCtx_conn [OF assms(2), of "wrap64 (nc_rxDelayMs (eg_cfg e) * 1000000)"
        "verbose e (drain_line e) (stopAll (ou_env ou) (eg_ports e) (verbose e stop_line s2))"] w1 w2
    by simp_all
  have "conn_ready s1"
    using rampTo_ready [OF assms(1,3), of e pct] r by simp
  then have r2: "conn_ready s2"
    by (simp add: conn_ready_def conn)
  then have r4: "conn_ready s4"
    using stopAll_quiet [OF assms(1), of "verbose e stop_line s2" "eg_ports e"] by (simp add: conn_ready_def quiet_def conn)
  have "methods s' = methods s4 @ [''get_pgid_stats'']"
    using get_stats_methods [OF assms(1), of "verbose e (final_line e) s4" e] r4 g by simp
  also have "methods s4 = methods s1 @ replicate (length (eg_ports e)) ''stop_traffic''"
    using stopAll_methods [OF assms(1), of "verbose e stop_line s2" "eg_ports e"] r2 by (simp add: methods_def conn)
  also note rampTo_methods [OF assms(1-3) r]
  finally show ?thesis by simp
qed

lemma perfRun_methods:
  assumes "link_outside ou srv" "silent_sleep ou" "conn_ready s" "\<not> f_le pct (Fin 0)"
    and "perfRun e ou pct duration s = (Inr run, s')"
  shows "methods s' = methods s @ run_requests (length (eg_ports e)) (nat (ramp_steps (eg_cfg e) - 1))"
proof -
  let ?s1 = "verbose e (baseline_line e) (stopAll (ou_env ou) (eg_ports e) (verbose e (run_line e pct duration) s))"
  obtain base s2 s3 where g: "get_stats e ou ?s1 = (Inr base, s2)"
    and a: "perfRun_armed e ou pct duration base (queue_full s2) s2 = (Inr run, s3)"
    and s': "s' = stopAll (ou_env ou) (eg_ports e) s3"
    using assms(4,5) by (auto simp: perfRun_def Let_def split: prod.splits sum.splits)
  have r1: "conn_ready ?s1"
    using stopAll_quiet [OF assms(1), of "verbose e (run_line e pct duration) s"] assms(3) by (simp add: quiet_def)
  then have r2: "conn_ready s2"
    using get_stats_effect [OF assms(1) r1, of e] g by simp
  then have r3: "conn_ready s3"
    using perfRun_armed_ready [OF assms(1) r2] a by (metis snd_conv)
  have "methods s2 = methods ?s1 @ [''get_pgid_stats'']"
    using get_stats_methods [OF assms(1) r1, of e] g by simp
  then show ?thesis
    using stopAll_methods [OF assms(1), of "verbose e (run_line e pct duration) s"] assms(3) stopAll_methods [OF assms(1) r3]
      perfRun_armed_methods [OF assms(1,2) r2 a]
    by (simp add: s' run_requests_def)
qed

text \<open>Where a search can end: before the first run, after it, or after the search proper.\<close>

lemma Find_cases:
  fixes s :: "'w run_state" and e :: engine and ou :: "'w outside"
  defines "s1 \<equiv> s\<lparr>rn_conn := snd (GetActivePGIDs (ou_env ou) (rn_conn s))\<rparr>"
  assumes "Find e ou s = (res, s')"
  shows "(s' = s1 \<and> (res = Inl NdrNoPgids \<or> (\<exists>err. res = Inl (NdrActive err)))) \<or>
    (\<exists>ids d. s' = snd (perfRun (e\<lparr>eg_pgids := ids\<rparr>) ou (Fin 100) d s1)) \<or>
    (\<exists>ids d first. s' = report first (snd (perfRun (e\<lparr>eg_pgids := ids\<rparr>) ou (Fin 100) d s1))) \<or>
    (\<exists>ids d first. s' = fst (snd (find_search (e\<lparr>eg_pgids := ids\<rparr>) ou first
       (report first (snd (perfRun (e\<lparr>eg_pgids := ids\<rparr>) ou (Fin 100) d s1))))))"
proof (cases "GetActivePGIDs (ou_env ou) (rn_conn s)")
  case (Pair r c)
  show ?thesis
  proof (cases r)
    case (Inl err)
    then show ?thesis
      using assms(2) Pair by (intro disjI1) (auto simp: Find_def s1_def)
  next
    case (Inr ids)
    let ?e = "e\<lparr>eg_pgids := snd ids @ fst ids\<rparr>" and ?d = "nc_firstRunDuration (eg_cfg e)"
    obtain pr s2 where pr: "perfRun ?e ou (Fin 100) ?d s1 = (pr, s2)" by fastforce
    have "(s' = s1 \<and> res = Inl NdrNoPgids) \<or> s' = s2 \<or>
        (\<exists>first. s' = report first s2 \<or> s' = fst (snd (find_search ?e ou first (report first s2))))"
      using assms(2) Pair Inr pr
      by (cases pr) (auto simp: Find_def Let_def s1_def case_prod_beta split: if_splits sum.splits)
    moreover have "s2 = snd (perfRun ?e ou (Fin 100) ?d s1)"
      by (simp add: pr)
    ultimately show ?thesis
      by blast
  qed
qed

section \<open>Properties\<close>

text \<open>C22: with no tolerated loss (the default) the verdict of a run is exact, in spite of the
  floating point percentages and of the wrapping counters: it passes exactly if the flow groups
  received all they sent during the run, no receive error was counted and the queue-full rate
  is within its bound; the loss it reports is a percentage between 0 and 100.\<close>

theorem evaluate_verdict:
  assumes "orders_ok it" "nc_pdr (eg_cfg e) = Fin 0"
  shows "let r = evaluate e it pct base final bq fq;
      tx = (\<Sum>(_, c) \<leftarrow> ps_flow final. pc_tx c) - (\<Sum>(_, c) \<leftarrow> ps_flow base. pc_tx c);
      rx = (\<Sum>(_, c) \<leftarrow> ps_flow final. pc_rx c) - (\<Sum>(_, c) \<leftarrow> ps_flow base. pc_rx c) in
    (rr_pass r \<longleftrightarrow> tx \<le> rx \<and> ps_rxErr final = ps_rxErr base \<and>
       f_le (pct_of (fq - bq) tx) (nc_qfullResolution (eg_cfg e))) \<and>
    unat (rr_drop r) = unat tx - unat rx \<and>
    (\<exists>x. rr_dropPct r = Fin x \<and> 0 \<le> x \<and> x \<le> 100)"
proof -
  let ?r = "evaluate e it pct base final bq fq"
  let ?tx = "SumTx it final - SumTx it base" and ?rx = "SumRx it final - SumRx it base"
  have drop: "rr_drop ?r = (if ?rx < ?tx then ?tx - ?rx else 0)" "rr_tx ?r = ?tx"
    by (simp_all add: evaluate_def Let_def)
  have "unat (rr_drop ?r) = unat ?tx - unat ?rx"
    by (auto simp: drop unat_sub less_imp_le word_less_nat_alt word_le_nat_alt)
  moreover have "f_le (rr_dropPct ?r) (Fin 0) \<longleftrightarrow> ?tx \<le> ?rx"
  proof (cases "?rx < ?tx")
    case True
    then have "0 < rr_drop ?r" "0 < ?tx"
      by (auto simp: drop word_gt_0)
    from pct_of_pos [OF this] show ?thesis
      using True by (auto simp: evaluate_fields(1) drop(2))
  next
    case False
    then show ?thesis
      by (simp add: evaluate_fields(1) drop)
  qed
  moreover have "rr_pass ?r \<longleftrightarrow> f_le (rr_dropPct ?r) (Fin 0) \<and>
      f_le (pct_of (fq - bq) ?tx) (nc_qfullResolution (eg_cfg e)) \<and> ps_rxErr final = ps_rxErr base"
    by (simp add: evaluate_def Let_def pct_of_def assms(2))
  ultimately show ?thesis
    using evaluate_drop_range
    unfolding Let_def SumTx_eq [OF assms(1)] SumRx_eq [OF assms(1)] by blast
qed

definition flow_snap :: "u64 \<Rightarrow> u64 \<Rightarrow> pgid_snapshot" where
  "flow_snap tx rx = \<lparr>ps_flow = [(7, \<lparr>pc_tx = tx, pc_rx = rx, pc_txb = 0, pc_rxb = 0\<rparr>)], ps_rxErr = 0\<rparr>"

theorem evaluate_verdict_witness:
  "\<not> rr_pass (evaluate (NewEngine [] DefaultConfig) sample_orders (Fin 50) (flow_snap 1000 1000) (flow_snap 3000 2999) 0 0)"
proof -
  have "nc_pdr (eg_cfg (NewEngine [] DefaultConfig)) = Fin 0"
    by (simp add: NewEngine_def DefaultConfig_def)
  from evaluate_verdict [OF sample_orders_ok this, of "Fin 50" "flow_snap 1000 1000" "flow_snap 3000 2999" 0 0]
  show ?thesis
    by (simp add: flow_snap_def Let_def)
qed

text \<open>however a search ends - a result, a server error, a refused request or the user's
  interrupt in any sleep - no port of the engine is left transmitting, provided that at least
  the first run was reached; a search that gives up before it has not touched the traffic.\<close>

theorem Find_leaves_quiet:
  assumes "link_outside ou srv" "conn_ready s" "Find e ou s = (res, s')"
  shows "conn_ready s' \<and>
    (transmitting (rn_conn s') \<inter> set (map pt_id (eg_ports e)) = {} \<or>
     (res = Inl NdrNoPgids \<or> (\<exists>err. res = Inl (NdrActive err))) \<and> transmitting (rn_conn s') = transmitting (rn_conn s))"
proof -
  let ?c = "snd (GetActivePGIDs (ou_env ou) (rn_conn s))" and ?s1 = "s\<lparr>rn_conn := snd (GetActivePGIDs (ou_env ou) (rn_conn s))\<rparr>"
  have c: "lk_reply (cn_world ?c) = None" "transmitting ?c = transmitting (rn_conn s)"
    using GetActive_effect [OF assms(1), of "rn_conn s"] assms(2) by (simp_all add: conn_ready_def)
  then have s1: "conn_ready ?s1" "transmitting (rn_conn ?s1) = transmitting (rn_conn s)"
    by (simp_all add: conn_ready_def)
  have run: "quiet (eg_ports e) (snd (perfRun (e\<lparr>eg_pgids := ids\<rparr>) ou (Fin 100) d ?s1))" for ids d
    using perfRun_quiet [OF assms(1) s1(1), of "Fin 100" "e\<lparr>eg_pgids := ids\<rparr>"] by simp
  then have search: "quiet (eg_ports e) (fst (snd (find_search (e\<lparr>eg_pgids := ids\<rparr>) ou first
      (report first (snd (perfRun (e\<lparr>eg_pgids := ids\<rparr>) ou (Fin 100) d ?s1))))))" for ids d first
    using find_search_quiet [OF assms(1), of "e\<lparr>eg_pgids := ids\<rparr>"] by simp
  from Find_cases [OF assms(3)] show ?thesis
  proof (elim disjE exE)
    assume "s' = ?s1 \<and> (res = Inl NdrNoPgids \<or> (\<exists>err. res = Inl (NdrActive err)))"
    with s1 show ?thesis by blast
  next
    fix ids d assume "s' = snd (perfRun (e\<lparr>eg_pgids := ids\<rparr>) ou (Fin 100) d ?s1)"
    with run [of ids d] show ?thesis by (simp add: quiet_def)
  next
    fix ids d first assume "s' = report first (snd (perfRun (e\<lparr>eg_pgids := ids\<rparr>) ou (Fin 100) d ?s1))"
    with run [of ids d] show ?thesis by (simp add: quiet_def)
  next
    fix ids d first assume "s' = fst (snd (find_search (e\<lparr>eg_pgids := ids\<rparr>) ou first
      (report first (snd (perfRun (e\<lparr>eg_pgids := ids\<rparr>) ou (Fin 100) d ?s1)))))"
    with search [of ids first d] show ?thesis by (simp add: quiet_def)
  qed
qed

text \<open>C21: a run that is measured sends exactly these requests, in this order: every port is
  stopped, the counters are read, every port is started at the first step of the ramp and
  raised in each further step, every port is stopped, the counters are read again, and every
  port is stopped once more. So the baseline is taken before any packet and the final counters
  after the last.\<close>

theorem perfRun_order:
  assumes "link_outside ou srv" "silent_sleep ou" "conn_ready s" "\<not> f_le pct (Fin 0)"
    and "perfRun e ou pct duration s = (Inr run, s')"
  shows "methods s' = methods s @ run_requests (length (eg_ports e)) (nat (ramp_steps (eg_cfg e) - 1)) \<and>
    rr_percentage run = pct"
  using perfRun_methods [OF assms] perfRun_percentage [OF assms(5)] by simp

text \<open>C8: a search that returns makes at most \<open>MaxIterations\<close> runs besides the first, two more
  when it is seeded by the first; all of them at rates between 0 and 100 percent of line rate.
  The rate it reports is that of a run which passed, one of those listed, or 0 with an empty
  run when none passed; a first run that passes ends the search at 100 percent.\<close>

theorem Find_result:
  assumes "Find e ou s = (Inr res, s')" "f_le (Fin 0) (nc_optBinSearchPercent (eg_cfg e))"
  shows "length (nr_iterations res) \<le> nat (nc_maxIterations (eg_cfg e)) + (if nc_optBinSearch (eg_cfg e) then 2 else 0) \<and>
    rates_in 0 100 (nr_iterations res) \<and>
    ((nr_percent res, nr_run res) = (Fin 0, zero_run) \<or>
     passed_in (nr_first res # nr_iterations res) (nr_percent res, nr_run res)) \<and>
    (rr_pass (nr_first res) \<longrightarrow> nr_percent res = Fin 100 \<and> nr_iterations res = [])"
proof -
  obtain lat fs c where ids: "GetActivePGIDs (ou_env ou) (rn_conn s) = (Inr (lat, fs), c)"
    using assms(1) by (auto simp: Find_def split: prod.splits sum.splits)
  let ?e = "e\<lparr>eg_pgids := fs @ lat\<rparr>"
  obtain first s2 where first: "perfRun ?e ou (Fin 100) (nc_firstRunDuration (eg_cfg e)) (s\<lparr>rn_conn := c\<rparr>) = (Inr first, s2)"
    using assms(1) ids by (auto simp: Find_def Let_def split: prod.splits sum.splits if_splits)
  note pct = perfRun_percentage [OF first]
  obtain d where d: "rr_dropPct first = Fin d" "0 \<le> d" "d \<le> 100"
    using perfRun_drop_range [OF first] by blast
  show ?thesis
  proof (cases "rr_pass first")
    case True
    then have "nr_percent res = Fin 100" "nr_run res = first" "nr_first res = first" "nr_iterations res = []"
      using assms(1) ids first by (auto simp: Find_def Let_def split: if_splits)
    with True pct show ?thesis by (simp add: passed_in_def)
  next
    case False
    obtain b run its where sr: "find_search ?e ou first (report first s2) = (Inr (b, run), s', its)"
      and res: "nr_percent res = b" "nr_run res = run" "nr_first res = first" "nr_iterations res = its"
      using assms(1) ids first False by (auto simp: Find_def Let_def split: if_splits prod.splits sum.splits)
    have "rates_in 0 100 its"
      using find_search_rates [OF sr _ d] assms(2) by simp
    moreover have "passed_in its (b, run) \<Longrightarrow> passed_in (first # its) (b, run)"
      by (rule passed_in_mono) auto
    ultimately show ?thesis
      using find_search_records [OF sr] res False by auto
  qed
qed

section \<open>Examples\<close>

text \<open>
  A server that gives every request the same reply, with one flow group and no counters, and
  accepts every batch.
\<close>

definition ndr_result :: json where
  "ndr_result = JObj [(''ids'', JObj [(''flow_stats'', JArr [JInt 7])]), (''flow_stats'', JObj [])]"

definition ndr_server :: "json \<Rightarrow> nat \<Rightarrow> json \<times> nat" where
  "ndr_server j n = (case j of
      JArr qs \<Rightarrow> JArr (map (\<lambda>_. JObj [(''result'', JStr ''ok'')]) qs)
    | _ \<Rightarrow> JObj [(''result'', ndr_result)], n + 1)"

definition sample_outside :: "nat link outside" where
  "sample_outside = \<lparr>ou_env = link_env stored_zlib unary_write unary_read ndr_server (\<lambda>_. True),
     ou_orders = sample_orders, ou_sleep = \<lambda>d s. (True, s)\<rparr>"

definition sample_state :: "nat link run_state" where
  "sample_state = \<lparr>rn_conn = sample_conn, rn_stats = NewStore, rn_out = []\<rparr>"

definition sample_engine :: engine where
  "sample_engine = NewEngine [\<lparr>pt_id = 2, pt_handler = None\<rparr>] (DefaultConfig\<lparr>nc_rampUpTime := Fin 0\<rparr>)"

lemma sample_link: "link_outside sample_outside ndr_server" "silent_sleep sample_outside"
  using stored_zlib_round_trip unary_codec
  by (auto simp: link_outside_def sleep_ok_def silent_sleep_def sample_outside_def)

lemma sample_state_ready: "conn_ready sample_state" "transmitting (rn_conn sample_state) = {}" "methods sample_state = []"
  by (simp_all add: conn_ready_def sample_state_def sample_conn_def transmitting_def methods_def)

lemma ndr_server_reply: "req_method r \<noteq> [] \<Longrightarrow> read_reply (fst (ndr_server r n)) = Inr (Some ndr_result)"
  by (cases r) (simp_all add: ndr_server_def req_method_def member_def read_reply_def dec_response_def as_obj_def
      jget_def dec_str_def fold_key_def)

lemma sample_call:
  assumes "lk_reply (cn_world c) = None" "params_ok p" "m \<noteq> []"
  shows "\<exists>c'. Call (ou_env sample_outside) m p c = (Inr (Some ndr_result), c') \<and> lk_reply (cn_world c') = None"
proof -
  obtain r where "sends (cn_apiH c) (cn_idCounter c) m p r" and r: "abstract_call ndr_server m p c =
      (read_reply (fst (ndr_server r (lk_server (cn_world c)))), c\<lparr>cn_idCounter := cn_idCounter c + 1, cn_world :=
         \<lparr>lk_server = snd (ndr_server r (lk_server (cn_world c))), lk_reply = None, lk_log = lk_log (cn_world c) @ [r]\<rparr>\<rparr>)"
    using abstract_call_sends [OF assms(2), of c m ndr_server] by blast
  then have "req_method r \<noteq> []"
    using assms(3) by (simp add: sends_def)
  then show ?thesis
    unfolding link_Call [OF sample_link(1) assms(1)] r by (simp add: ndr_server_reply)
qed

lemma sample_get_stats:
  assumes "conn_ready s"
  shows "\<exists>s'. get_stats e sample_outside s = (Inr \<lparr>ps_flow = [], ps_rxErr = 0\<rparr>, s') \<and> conn_ready s'"
proof -
  have "parsePgidStats sample_orders (Some ndr_result) = Inr \<lparr>ps_flow = [], ps_rxErr = 0\<rparr>"
    by (simp add: parsePgidStats_def ndr_result_def as_obj_def jget_def fold_key_def dec_map_def sample_orders_def)
  moreover have "params_ok (Some [(''pgids'', Some (JArr (map JInt (eg_pgids e))))])"
    by (simp add: params_ok_def entries_def)
  moreover have "ou_orders sample_outside = sample_orders"
    by (simp add: sample_outside_def)
  ultimately show ?thesis
    using sample_call [of "rn_conn s" _ "''get_pgid_stats''"] assms
    by (fastforce simp: get_stats_def GetPgidStats_def conn_ready_def)
qed

lemma sample_engine_simps [simp]:
  "eg_ports sample_engine = [\<lparr>pt_id = 2, pt_handler = None\<rparr>]" "ramp_steps (eg_cfg sample_engine) = 1"
  "nc_pdr (eg_cfg sample_engine) = Fin 0" "nc_qfullResolution (eg_cfg sample_engine) = Fin 2"
  "\<not> nc_verbose (eg_cfg sample_engine)"
  by (simp_all add: sample_engine_def NewEngine_def DefaultConfig_def ramp_steps_def)

lemma sample_sleep [simp]: "sleepCtx sample_outside d s = (Inr (), s)"
  by (simp add: sleepCtx_def sample_outside_def)

lemma sample_start_ports:
  "lk_reply (cn_world c) = None \<Longrightarrow> \<exists>c'. start_ports (ou_env sample_outside) (Fin 100) ports c = (Inr (), c')"
proof (induction ports arbitrary: c)
  case (Cons p ps)
  let ?op = "OpStart (percent_mult (Fin 100)) (Fin 0) True (Fin 0)"
  have "params_ok (Some (op_params cl p ?op))" for cl
    by (rule op_params_ok) (simp add: percent_mult_def f_finite_def)
  with Cons.prems obtain c1 where "Call (ou_env sample_outside) ''start_traffic''
      (Some (op_params \<lparr>cl_username = [], cl_sessionID = 0\<rparr> p ?op)) c = (Inr (Some ndr_result), c1)"
      "lk_reply (cn_world c1) = None"
    using sample_call by blast
  then have "Start (ou_env sample_outside) p (percent_mult (Fin 100)) (Fin 0) True (Fin 0) c = (Inr (), c1)"
    by (simp add: Start_def)
  with Cons.IH [of c1] \<open>lk_reply (cn_world c1) = None\<close> show ?case
    by simp
qed simp

text \<open>An engine that does not ramp up and tolerates no loss.\<close>

definition plain_engine :: "engine \<Rightarrow> bool" where
  "plain_engine e \<longleftrightarrow> ramp_steps (eg_cfg e) = 1 \<and> \<not> nc_verbose (eg_cfg e) \<and> nc_pdr (eg_cfg e) = Fin 0 \<and>
     nc_qfullResolution (eg_cfg e) = Fin 2"

lemma sample_engine_plain: "plain_engine sample_engine"
  by (simp add: plain_engine_def)

lemma sample_ramp:
  assumes "conn_ready s" "plain_engine e"
  shows "\<exists>s'. rampTo e sample_outside (Fin 100) s = (Inr (), s')"
proof -
  have v: "f_div (Fin 100) (f_of_int 1) = Fin 100"
    using f_of_int_exact [of 1] fl_numeral by simp
  have "lk_reply (cn_world (rn_conn s)) = None"
    using assms(1) by (simp add: conn_ready_def)
  then obtain c' where "start_ports (ou_env sample_outside) (Fin 100) (eg_ports e) (rn_conn s) = (Inr (), c')"
    using sample_start_ports by blast
  with assms(2) show ?thesis
    by (simp add: rampTo_def v Let_def plain_engine_def)
qed

lemma sample_perfRun:
  assumes "conn_ready s" "plain_engine e"
  shows "\<exists>run s'. perfRun e sample_outside (Fin 100) d s = (Inr run, s') \<and> rr_pass run"
proof -
  let ?snap = "\<lparr>ps_flow = [], ps_rxErr = 0\<rparr>" and ?stop = "stopAll (ou_env sample_outside) (eg_ports e)"
  have r1: "conn_ready (?stop s)"
    using stopAll_quiet [OF sample_link(1) assms(1)] by (simp add: quiet_def)
  then obtain s2 where s2: "get_stats e sample_outside (?stop s) = (Inr ?snap, s2)" "conn_ready s2"
    using sample_get_stats by blast
  obtain s3 where s3: "rampTo e sample_outside (Fin 100) s2 = (Inr (), s3)"
    using sample_ramp [OF s2(2) assms(2)] by blast
  then have "conn_ready s3"
    using rampTo_ready [OF sample_link(1) s2(2)] by (metis snd_conv)
  then have "conn_ready (?stop s3)"
    using stopAll_quiet [OF sample_link(1)] by (simp add: quiet_def)
  then obtain s5 where s5: "get_stats e sample_outside (?stop s3) = (Inr ?snap, s5)"
    using sample_get_stats by blast
  let ?run = "evaluate e sample_orders (Fin 100) ?snap ?snap (queue_full s2) (queue_full s5)"
  have "ou_orders sample_outside = sample_orders"
    by (simp add: sample_outside_def)
  then have "perfRun e sample_outside (Fin 100) d s = (Inr ?run, ?stop s5)"
    using s2(1) s3 s5 assms(2) by (simp add: perfRun_def perfRun_armed_def Let_def plain_engine_def)
  moreover have "rr_pass ?run"
    using assms(2) by (simp add: evaluate_def SumTx_def SumRx_def sample_orders_def Let_def plain_engine_def)
  ultimately show ?thesis by blast
qed

lemma sample_Find:
  assumes "conn_ready s" "plain_engine e"
  obtains res s' where "Find e sample_outside s = (Inr res, s')" "rr_pass (nr_first res)"
proof -
  let ?c = "rn_conn s"
  have "params_ok (Some [])"
    by (simp add: params_ok_def entries_def)
  with sample_call [of ?c] assms(1) obtain c where
    "Call (ou_env sample_outside) ''get_active_pgids'' (Some []) ?c = (Inr (Some ndr_result), c)"
    "lk_reply (cn_world c) = None"
    unfolding conn_ready_def by blast
  moreover have "dec_active (Some ndr_result) = Some ([], [7])"
    by (simp add: dec_active_def ndr_result_def as_obj_def jget_def fold_key_def dec_list_def dec_int_def int64_range_def)
  ultimately have ids: "GetActivePGIDs (ou_env sample_outside) ?c = (Inr ([], [7]), c)"
    and r: "conn_ready (s\<lparr>rn_conn := c\<rparr>)"
    by (simp_all add: GetActivePGIDs_def conn_ready_def)
  have "plain_engine (e\<lparr>eg_pgids := [7]\<rparr>)"
    using assms(2) by (simp add: plain_engine_def)
  then obtain run s2 where run: "perfRun (e\<lparr>eg_pgids := [7]\<rparr>) sample_outside (Fin 100)
      (nc_firstRunDuration (eg_cfg e)) (s\<lparr>rn_conn := c\<rparr>) = (Inr run, s2)" "rr_pass run"
    using sample_perfRun [OF r] by blast
  then obtain res where "Find e sample_outside s = (Inr res, report run s2)" "nr_first res = run"
    using ids by (simp add: Find_def Let_def)
  with run(2) that show thesis by blast
qed

theorem Find_leaves_quiet_witness:
  "2 \<notin> transmitting (rn_conn (snd (Find sample_engine sample_outside sample_state)))"
proof -
  obtain res s' where f: "Find sample_engine sample_outside sample_state = (res, s')" by fastforce
  from Find_leaves_quiet [OF sample_link(1) sample_state_ready(1) f] show ?thesis
    unfolding f by (auto simp: sample_state_ready)
qed

theorem perfRun_order_witness:
  "methods (snd (perfRun sample_engine sample_outside (Fin 100) (Fin 20) sample_state)) =
     [''stop_traffic'', ''get_pgid_stats'', ''start_traffic'', ''stop_traffic'', ''get_pgid_stats'', ''stop_traffic'']"
proof -
  have "\<exists>run s'. perfRun sample_engine sample_outside (Fin 100) (Fin 20) sample_state = (Inr run, s')"
    using sample_perfRun [OF sample_state_ready(1) sample_engine_plain] by blast
  then obtain run s' where r: "perfRun sample_engine sample_outside (Fin 100) (Fin 20) sample_state = (Inr run, s')"
    by blast
  have "\<not> f_le (Fin 100) (Fin 0)" by simp
  from perfRun_order [OF sample_link sample_state_ready(1) this r] show ?thesis
    unfolding r by (simp add: sample_state_ready run_requests_def)
qed

theorem Find_result_witness:
  "\<exists>res s'. Find sample_engine sample_outside sample_state = (Inr res, s') \<and> nr_percent res = Fin 100 \<and> nr_iterations res = []"
proof -
  obtain res s' where f: "Find sample_engine sample_outside sample_state = (Inr res, s')" "rr_pass (nr_first res)"
    by (rule sample_Find [OF sample_state_ready(1) sample_engine_plain])
  have "f_le (Fin 0) (nc_optBinSearchPercent (eg_cfg sample_engine))"
    by (simp add: sample_engine_def NewEngine_def DefaultConfig_def)
  from Find_result [OF f(1) this] f show ?thesis by blast
qed

end
