(* ===== verification/Go_Net.thy ===== *)
theory Go_Net
  imports Go_Strconv
begin

text \<open>
  What the profile language uses of Go's package \<open>net\<close>: the parsing of IP and MAC addresses.
  An IP address is the list of its 16 bytes, IPv4 addresses in their IPv6-mapped form.
\<close>

section \<open>IPv4\<close>

text \<open>
  The scan of a dotted quad: the value and the number of digits of the current octet, the
  octets before it, and whether the scan is at the start or right after a dot.
\<close>

fun ipv4_scan :: "string \<Rightarrow> nat \<Rightarrow> nat \<Rightarrow> u8 list \<Rightarrow> bool \<Rightarrow> u8 list option" where
  "ipv4_scan [] v d fs fresh = (if length fs < 3 then None else Some (fs @ [of_nat v]))"
| "ipv4_scan (c # cs) v d fs fresh =
     (if is_digit c then
        (let v' = v * 10 + digit_val c in
         if (d = 1 \<and> v = 0) \<or> 255 < v' then None else ipv4_scan cs v' (Suc d) fs False)
      else if c = CHR ''.'' then
        (if fresh \<or> cs = [] \<or> length fs = 3 then None else ipv4_scan cs 0 0 (fs @ [of_nat v]) True)
      else None)"

definition ipv4_fields :: "string \<Rightarrow> u8 list option" where
  "ipv4_fields s = ipv4_scan s 0 0 [] True"

definition v4_prefix :: "u8 list" where
  "v4_prefix = replicate 10 0 @ [0xFF, 0xFF]"

section \<open>IPv6\<close>

text \<open>A group of hexadecimal digits: their number, the value and the rest.\<close>

fun hex_group :: "string \<Rightarrow> nat \<Rightarrow> nat \<Rightarrow> (nat \<times> nat \<times> string) option" where
  "hex_group [] off acc = Some (off, acc, [])"
| "hex_group (c # cs) off acc =
     (if is_digit c \<or> is_hex_letter c then
        (let acc' = acc * 16 + hex_digit_val c in
         if 3 < off \<or> 65535 < acc' then None else hex_group cs (Suc off) acc')
      else Some (off, acc, c # cs))"

lemma hex_group_length: "hex_group s off acc = Some (n, v, r) \<Longrightarrow> n + length r = off + length s \<and> off \<le> n"
  by (induction s off acc rule: hex_group.induct) (auto simp: Let_def split: if_splits)

text \<open>The groups after an optional leading ellipsis: bytes, position of the ellipsis, rest.\<close>

function ipv6_groups :: "string \<Rightarrow> u8 list \<Rightarrow> nat option \<Rightarrow> (u8 list \<times> nat option \<times> string) option" where
  "ipv6_groups s ip el =
     (if 16 \<le> length ip then Some (ip, el, s)
      else (case hex_group s 0 0 of
          None \<Rightarrow> None
        | Some (off, acc, r) \<Rightarrow>
            (let ip' = ip @ [of_nat (acc div 256), of_nat (acc mod 256)] in
             if off = 0 then None
             else (case r of
                 [] \<Rightarrow> Some (ip', el, [])
               | c # cs \<Rightarrow>
                   (if c = CHR ''.'' then
                      (if (el = None \<and> length ip \<noteq> 12) \<or> 16 < length ip + 4 then None
                       else (case ipv4_fields s of None \<Rightarrow> None | Some f \<Rightarrow> Some (ip @ f, el, [])))
                    else if c \<noteq> CHR '':'' then None
                    else (case cs of
                        [] \<Rightarrow> None
                      | c2 # cs2 \<Rightarrow>
                          (if c2 = CHR '':'' then
                             (if el \<noteq> None then None
                              else if cs2 = [] then Some (ip', Some (length ip'), [])
                              else ipv6_groups cs2 ip' (Some (length ip')))
                           else ipv6_groups cs ip' el)))))))"
  by pat_completeness auto
termination
  by (relation "measure (\<lambda>(s, ip, el). length s)") (auto dest!: hex_group_length)

declare ipv6_groups.simps [simp del]

definition ipv6_fields :: "string \<Rightarrow> u8 list option" where
  "ipv6_fields s0 = (let (s, el) = (if has_prefix s0 ''::'' then (drop 2 s0, Some 0) else (s0, None)) in
     if el \<noteq> None \<and> s = [] then Some (replicate 16 0)
     else (case ipv6_groups s [] el of
         None \<Rightarrow> None
       | Some (ip, el', rest) \<Rightarrow>
           (if rest \<noteq> [] then None
            else if length ip < 16 then
              (case el' of None \<Rightarrow> None | Some e \<Rightarrow> Some (take e ip @ replicate (16 - length ip) 0 @ drop e ip))
            else if el' \<noteq> None then None else Some ip)))"

section \<open>Addresses\<close>

text \<open>Addresses with a zone are refused.\<close>

definition ParseIP :: "string \<Rightarrow> u8 list option" where
  "ParseIP s = (if CHR ''%'' \<in> set s then None
     else (case filter (\<lambda>c. c = CHR ''.'' \<or> c = CHR '':'') s of
         [] \<Rightarrow> None
       | c # _ \<Rightarrow> (if c = CHR ''.'' then map_option (\<lambda>f. v4_prefix @ f) (ipv4_fields s) else ipv6_fields s)))"

definition To4 :: "u8 list \<Rightarrow> u8 list option" where
  "To4 ip = (if length ip = 4 then Some ip
     else if length ip = 16 \<and> take 12 ip = v4_prefix then Some (drop 12 ip) else None)"

definition To16 :: "u8 list \<Rightarrow> u8 list option" where
  "To16 ip = (if length ip = 4 then Some (v4_prefix @ ip) else if length ip = 16 then Some ip else None)"

text \<open>The hexadecimal digits of one byte of a MAC address.\<close>

definition hex_byte :: "char \<Rightarrow> char \<Rightarrow> u8 option" where
  "hex_byte a b = (if (is_digit a \<or> is_hex_letter a) \<and> (is_digit b \<or> is_hex_letter b)
     then Some (of_nat (hex_digit_val a * 16 + hex_digit_val b)) else None)"

section \<open>Dotted quads\<close>

definition dotted :: "u8 \<Rightarrow> u8 \<Rightarrow> u8 \<Rightarrow> u8 \<Rightarrow> string" where
  "dotted a b c d = nat_digits (unat a) @ ''.'' @ nat_digits (unat b) @ ''.'' @ nat_digits (unat c) @ ''.'' @
     nat_digits (unat d)"

lemma nat_digits_byte:
  assumes "n < 256"
  shows "n < 10 \<and> nat_digits n = [digit_char n] \<or>
    10 \<le> n \<and> n < 100 \<and> nat_digits n = [digit_char (n div 10), digit_char (n mod 10)] \<or>
    100 \<le> n \<and> nat_digits n = [digit_char (n div 100), digit_char (n div 10 mod 10), digit_char (n mod 10)]"
proof -
  have one: "m < 10 \<Longrightarrow> nat_digits m = [digit_char m]" for m
    by (subst nat_digits.simps) simp
  have two: "10 \<le> m \<Longrightarrow> m < 100 \<Longrightarrow> nat_digits m = [digit_char (m div 10), digit_char (m mod 10)]" for m
    by (subst nat_digits.simps) (simp add: one)
  have three: "100 \<le> m \<Longrightarrow> m < 256 \<Longrightarrow>
      nat_digits m = [digit_char (m div 100), digit_char (m div 10 mod 10), digit_char (m mod 10)]" for m
    by (subst nat_digits.simps) (simp add: two div_mult2_eq [symmetric])
  consider "n < 10" | "10 \<le> n" "n < 100" | "100 \<le> n" by linarith
  then show ?thesis
    using assms one two three by cases auto
qed

lemma ipv4_scan_octet:
  assumes "n < 256"
  shows "ipv4_scan (nat_digits n @ r) 0 0 fs fresh = ipv4_scan r n (length (nat_digits n)) fs False"
proof -
  have "n div 100 = n div 10 div 10"
    by (simp flip: div_mult2_eq)
  then have eq: "n div 100 * 10 + n div 10 mod 10 = n div 10" "n div 10 * 10 + n mod 10 = n"
    by simp_all
  have pos: "10 \<le> n \<Longrightarrow> n div 10 \<noteq> 0" "100 \<le> n \<Longrightarrow> n div 100 \<noteq> 0" "n div 10 \<le> 255" "n div 100 \<le> 9" "n div 10 < 10 \<or> 100 \<le> n"
    using assms by linarith+
  from nat_digits_byte [OF assms] show ?thesis
  proof (elim disjE conjE)
    assume n: "10 \<le> n" "n < 100" "nat_digits n = [digit_char (n div 10), digit_char (n mod 10)]"
    then have "n div 10 < 10"
      using pos by linarith
    with n eq(2) pos show ?thesis by (simp add: Let_def)
  next
    assume n: "100 \<le> n" "nat_digits n = [digit_char (n div 100), digit_char (n div 10 mod 10), digit_char (n mod 10)]"
    then show ?thesis
      using eq pos assms by (simp add: Let_def)
  qed (simp add: Let_def)
qed

lemma ipv4_scan_dot:
  assumes "length fs < 3"
  shows "ipv4_scan (CHR ''.'' # nat_digits n @ r) v k fs False = ipv4_scan (nat_digits n @ r) 0 0 (fs @ [of_nat v]) True"
  using assms by (simp add: is_digit_def ch_code_def)

lemma ipv4_fields_dotted: "ipv4_fields (dotted a b c d) = Some [a, b, c, d]"
proof -
  have last: "ipv4_scan (nat_digits (unat d)) 0 0 fs True = ipv4_scan [] (unat d) (length (nat_digits (unat d))) fs False" for fs
    using ipv4_scan_octet [OF unat_byte_less, of d "[]" fs True] by simp
  show ?thesis
    unfolding ipv4_fields_def dotted_def
    using ipv4_scan_dot [of "[a, b]" "unat d" "[]" "unat c"]
    by (simp add: ipv4_scan_octet [OF unat_byte_less] ipv4_scan_dot last del: ipv4_scan.simps(2))
qed

lemma nat_digits_chars: "c \<in> set (nat_digits n) \<Longrightarrow> is_digit c"
  using nat_digits_digits [of n] by (simp add: list_all_iff)

lemma filter_digits: "filter (\<lambda>c. c = CHR ''.'' \<or> c = CHR '':'') (nat_digits n) = []"
proof -
  have "c \<noteq> CHR ''.'' \<and> c \<noteq> CHR '':''" if "c \<in> set (nat_digits n)" for c
    using nat_digits_chars [OF that] by (auto simp: is_digit_def ch_code_def)
  then show ?thesis
    by (simp add: filter_empty_conv)
qed

lemma ParseIP_dotted: "ParseIP (dotted a b c d) = Some (v4_prefix @ [a, b, c, d])"
proof -
  have "CHR ''%'' \<notin> set (dotted a b c d)"
    using nat_digits_chars [of "CHR ''%''"] by (auto simp: dotted_def is_digit_def ch_code_def)
  moreover have "filter (\<lambda>c. c = CHR ''.'' \<or> c = CHR '':'') (dotted a b c d) = ''...''"
    by (simp add: dotted_def filter_digits)
  ultimately show ?thesis
    by (simp add: ParseIP_def ipv4_fields_dotted)
qed

lemma To4_mapped [simp]: "To4 (v4_prefix @ [a, b, c, d]) = Some [a, b, c, d]"
  by (simp add: To4_def v4_prefix_def)

lemma ipv4_scan_length: "ipv4_scan s v k fs fresh = Some f \<Longrightarrow> length fs \<le> 3 \<Longrightarrow> length f = 4"
  by (induction s v k fs fresh rule: ipv4_scan.induct) (auto simp: Let_def split: if_splits)

lemma ipv4_fields_length: "ipv4_fields s = Some f \<Longrightarrow> length f = 4"
  by (simp add: ipv4_fields_def ipv4_scan_length)

text \<open>A parsed address has 16 bytes.\<close>

definition v6_partial :: "u8 list \<Rightarrow> nat option \<Rightarrow> bool" where
  "v6_partial ip el \<longleftrightarrow> length ip \<le> 16 \<and> (case el of Some e \<Rightarrow> e \<le> length ip | None \<Rightarrow> True)"

lemma ipv6_groups_ok:
  "ipv6_groups s ip el = Some (ip', el', r) \<Longrightarrow> v6_partial ip el \<Longrightarrow> even (length ip) \<Longrightarrow> v6_partial ip' el'"
proof (induction s ip el rule: ipv6_groups.induct)
  case (1 s ip el)
  show ?case
  proof (cases "16 \<le> length ip")
    case True
    then show ?thesis
      using 1(3,4) by (subst (asm) ipv6_groups.simps) auto
  next
    case False
    with 1(5) have len: "length ip + 2 \<le> 16"
      by presburger
    obtain off acc t where h: "hex_group s 0 0 = Some (off, acc, t)"
      using 1(3) False by (subst (asm) ipv6_groups.simps) (auto split: option.splits)
    let ?ip = "ip @ [of_nat (acc div 256), of_nat (acc mod 256)]"
    have step: "v6_partial ?ip el" "v6_partial ?ip (Some (length ?ip))" "even (length ?ip)"
      using 1(4,5) len by (auto simp: v6_partial_def split: option.splits)
    show ?thesis
      using 1(3) False h 1(1) [OF False h] 1(2) [OF False h] step 1(4)
      by (subst (asm) ipv6_groups.simps)
        (auto simp: Let_def v6_partial_def dest: ipv4_fields_length split: if_splits list.splits option.splits)
  qed
qed

lemma ipv6_fields_length: "ipv6_fields s = Some ip \<Longrightarrow> length ip = 16"
proof -
  have part: "v6_partial x e" if "ipv6_groups t [] e0 = Some (x, e, r)" "e0 = None \<or> e0 = Some 0" for t e0 x e r
    by (rule ipv6_groups_ok [OF that(1)]) (use that(2) in \<open>auto simp: v6_partial_def\<close>)
  assume "ipv6_fields s = Some ip"
  then show ?thesis
    by (auto simp: ipv6_fields_def v6_partial_def Let_def split: if_splits option.splits dest!: part)
qed

lemma ParseIP_length: "ParseIP s = Some ip \<Longrightarrow> length ip = 16"
  by (auto simp: ParseIP_def v4_prefix_def dest: ipv4_fields_length ipv6_fields_length
      split: if_splits list.splits)

lemma To16_ParseIP: "ParseIP s = Some ip \<Longrightarrow> To16 ip = Some ip"
  by (simp add: To16_def ParseIP_length)

section \<open>Hardware addresses\<close>

text \<open>
  \<open>net.ParseMAC\<close>: two hex digits per octet separated by colons or hyphens, or four per pair of
  octets separated by dots; 6, 8 or 20 octets.
\<close>

fun mac_octets :: "char \<Rightarrow> string \<Rightarrow> u8 list option" where
  "mac_octets sep (a # b # rest) = (case hex_byte a b of
      None \<Rightarrow> None
    | Some x \<Rightarrow>
        (case rest of
           [] \<Rightarrow> Some [x]
         | c # rest' \<Rightarrow> if c = sep then map_option (\<lambda>xs. x # xs) (mac_octets sep rest') else None))"
| "mac_octets sep _ = None"

fun mac_pairs :: "string \<Rightarrow> u8 list option" where
  "mac_pairs (a # b # c # d # rest) = (case hex_byte a b of
      None \<Rightarrow> None
    | Some x \<Rightarrow>
        (case hex_byte c d of
           None \<Rightarrow> None
         | Some y \<Rightarrow>
             (case rest of
                [] \<Rightarrow> Some [x, y]
              | e # rest' \<Rightarrow> if e = CHR ''.'' then map_option (\<lambda>xs. x # y # xs) (mac_pairs rest') else None)))"
| "mac_pairs _ = None"

definition ParseMAC :: "string \<Rightarrow> u8 list option" where
  "ParseMAC s =
     (if length s < 14 then None
      else if s ! 2 = CHR '':'' \<or> s ! 2 = CHR ''-'' then
        (if (length s + 1) mod 3 \<noteq> 0 \<or> (length s + 1) div 3 \<notin> {6, 8, 20} then None
         else mac_octets (s ! 2) s)
      else if s ! 4 = CHR ''.'' then
        (if (length s + 1) mod 5 \<noteq> 0 \<or> 2 * (length s + 1) div 5 \<notin> {6, 8, 20} then None
         else mac_pairs s)
      else None)"

lemma mac_octets_length: "mac_octets sep s = Some xs \<Longrightarrow> length s + 1 = 3 * length xs"
  by (induction sep s arbitrary: xs rule: mac_octets.induct) (auto split: option.splits list.splits if_splits)

lemma mac_pairs_length: "mac_pairs s = Some xs \<Longrightarrow> 2 * (length s + 1) = 5 * length xs"
  by (induction s arbitrary: xs rule: mac_pairs.induct) (auto split: option.splits list.splits if_splits)

lemma ParseMAC_length: "ParseMAC s = Some mac \<Longrightarrow> length mac \<in> {6, 8, 20}"
  by (auto simp: ParseMAC_def split: if_splits dest!: mac_octets_length mac_pairs_length)

end
