(* ===== verification/Dsl_Convert.thy ===== *)
theory Dsl_Convert
  imports Go_Net Go_Binary
begin

text \<open>
  Values of the profile language: \<open>pkg/stl/dsl/convert.go\<close>. \<open>yval\<close> is what the YAML decoder
  stores in an \<open>any\<close>; integers above the range of \<open>int\<close> arrive as \<open>uint64\<close>, and everything
  the coercions do not look at (mappings, time stamps) is \<open>YOther\<close>.
\<close>

datatype yval =
    YNil
  | YBool bool
  | YInt int
  | YInt64 int
  | YUint64 u64
  | YFloat f64
  | YStr string
  | YList "yval list"
  | YOther

text \<open>The fields of a layer or an instruction; a missing key reads as nil.\<close>

type_synonym yfields = "string \<rightharpoonup> yval"

definition yget :: "yfields \<Rightarrow> string \<Rightarrow> yval" where
  "yget f k = (case f k of None \<Rightarrow> YNil | Some v \<Rightarrow> v)"

section \<open>Coercions\<close>

fun toI64 :: "yval \<Rightarrow> int" where
  "toI64 YNil = 0"
| "toI64 (YInt n) = n"
| "toI64 (YInt64 n) = n"
| "toI64 (YFloat x) = f_to_i64 x"
| "toI64 (YStr s) = int0_value s"
| "toI64 _ = 0"

fun toStr :: "yval \<Rightarrow> string" where
  "toStr YNil = []"
| "toStr (YStr s) = s"
| "toStr v = itoa (toI64 v)"

text \<open>\<open>int\<close> and \<open>int64\<close> are the same integers.\<close>

definition toInt :: "yval \<Rightarrow> int" where
  "toInt v = toI64 v"

fun toU64 :: "yval \<Rightarrow> u64" where
  "toU64 (YStr s) = uint0_value s"
| "toU64 v = word_of_int (toI64 v)"

definition toU64Value :: "yval \<Rightarrow> u64" where
  "toU64Value v = (case v of
      YStr s \<Rightarrow>
        (if CHR ''.'' \<in> set s then
           (case Option.bind (ParseIP s) To4 of
              Some ip \<Rightarrow> ucast (get_u32 ip)
            | None \<Rightarrow> toU64 v)
         else toU64 v)
    | _ \<Rightarrow> toU64 v)"

text \<open>\<open>None\<close> is the nil slice.\<close>

definition toU64List :: "yval \<Rightarrow> u64 list option" where
  "toU64List v = (case v of YList items \<Rightarrow> Some (map toU64Value items) | _ \<Rightarrow> None)"

definition boolFrom :: "yfields \<Rightarrow> string \<Rightarrow> bool \<Rightarrow> bool" where
  "boolFrom f key dflt = (case f key of
      None \<Rightarrow> dflt
    | Some v \<Rightarrow> (case v of YBool b \<Rightarrow> b | _ \<Rightarrow> dflt))"

section \<open>Lemmas\<close>

definition yval_ok :: "yval \<Rightarrow> bool" where
  "yval_ok v \<longleftrightarrow> (case v of YInt n \<Rightarrow> int64_range n | YInt64 n \<Rightarrow> int64_range n | _ \<Rightarrow> True)"

lemma toI64_range: "yval_ok v \<Longrightarrow> int64_range (toI64 v)"
  by (cases v) (auto simp: yval_ok_def int0_value_range int64_range_def [of 0])

lemma toStr_toI64: "yval_ok v \<Longrightarrow> v = YNil \<or> (\<exists>s. v = YStr s) \<or> int0_value (toStr v) = toI64 v"
  using toI64_range [of v] by (cases v) (auto simp: int0_value_itoa)

section \<open>Properties\<close>

text \<open>an address written as a dotted quad is read as its 32-bit number, most significant
  octet first, and a decimal number of 64 bits as itself; for both, a list of such values is
  read element by element.\<close>

theorem toU64Value_reads:
  "unat (toU64Value (YStr (dotted a b c d))) = ((unat a * 256 + unat b) * 256 + unat c) * 256 + unat d \<and>
   toU64Value (YStr (nat_digits (unat w))) = w \<and>
   toU64List (YList (map (\<lambda>w. YStr (nat_digits (unat w))) ws)) = Some ws"
proof -
  have "CHR ''.'' \<in> set (dotted a b c d)"
    by (simp add: dotted_def)
  then have quad: "toU64Value (YStr (dotted a b c d)) = ucast (get_u32 [a, b, c, d])"
    by (simp add: toU64Value_def ParseIP_dotted)
  have num: "toU64Value (YStr (nat_digits (unat w))) = w" for w :: u64
  proof -
    have "CHR ''.'' \<notin> set (nat_digits (unat w))"
      using nat_digits_chars [of "CHR ''.''"] by (auto simp: is_digit_def ch_code_def)
    then show ?thesis
      using unsigned_less [of w, where ?'a = nat] by (simp add: toU64Value_def uint0_value_nat_digits)
  qed
  have "unat (ucast (x :: u32) :: u64) = unat x" for x
    by (simp add: unsigned_ucast_eq take_bit_nat_eq_self_iff order_less_trans [OF unsigned_less])
  with quad num show ?thesis
    by (simp add: unat_get_u32 toU64List_def comp_def)
qed

end
