(* ===== verification/Dsl_Srh.thy ===== *)
theory Dsl_Srh
  imports Dsl_Convert
begin

text \<open>
  The segment routing header of SRv6: \<open>pkg/stl/dsl/srh.go\<close>, and the canonical layer names of
  \<open>pkg/stl/dsl/layers.go\<close> that it needs. Segments are lists of bytes, 16 of them for an address
  that was parsed.
\<close>

section \<open>Layer names and protocol numbers\<close>

definition normLayer :: "string \<Rightarrow> string" where
  "normLayer k =
     (if k \<in> {''eth'', ''ether'', ''Ether'', ''Eth''} then ''eth''
      else if k \<in> {''dot1q'', ''Dot1Q'', ''vlan'', ''VLAN''} then ''dot1q''
      else if k \<in> {''ip'', ''IP'', ''ipv4'', ''IPv4''} then ''ip''
      else if k \<in> {''ipv6'', ''IPv6''} then ''ipv6''
      else if k \<in> {''udp'', ''UDP''} then ''udp''
      else if k \<in> {''tcp'', ''TCP''} then ''tcp''
      else if k \<in> {''vxlan'', ''VXLAN''} then ''vxlan''
      else if k \<in> {''srh'', ''SRH'', ''srv6'', ''SRv6''} then ''srh''
      else k)"

text \<open>The numbers behind gopacket's names of the IP protocols.\<close>

definition IPProtocolIPv4 :: u8 where "IPProtocolIPv4 = 4"
definition IPProtocolTCP :: u8 where "IPProtocolTCP = 6"
definition IPProtocolUDP :: u8 where "IPProtocolUDP = 17"
definition IPProtocolIPv6 :: u8 where "IPProtocolIPv6 = 41"
definition IPProtocolIPv6Routing :: u8 where "IPProtocolIPv6Routing = 43"
definition IPProtocolNoNextHeader :: u8 where "IPProtocolNoNextHeader = 59"

section \<open>The header\<close>

record srh =
  sr_next :: u8
  sr_left :: u8
  sr_last :: u8
  sr_flags :: u8
  sr_tag :: u16
  sr_segments :: "u8 list list"

text \<open>
  \<open>prepend\<close> is \<open>PrependBytes\<close>: it fails or gives \<open>n\<close> bytes to fill. A segment that is not an
  address leaves its bytes as they are.
\<close>

fun put_segments :: "u8 list list \<Rightarrow> u8 list \<Rightarrow> u8 list" where
  "put_segments [] old = []"
| "put_segments (seg # segs) old =
     (case To16 seg of Some b \<Rightarrow> b | None \<Rightarrow> take 16 old) @ put_segments segs (drop 16 old)"

definition SerializeTo :: "srh \<Rightarrow> (nat \<Rightarrow> string + u8 list) \<Rightarrow> string + u8 list" where
  "SerializeTo s prepend = (let n = 8 + length (sr_segments s) * 16 in
     case prepend n of
       Inl e \<Rightarrow> Inl e
     | Inr old \<Rightarrow> Inr (
         [sr_next s, of_nat ((n - 8) div 8), 4, sr_left s, sr_last s, sr_flags s] @ put_u16 (sr_tag s)
         @ put_segments (sr_segments s) (drop 8 old)))"

datatype srh_error = SrhShort | SrhTruncated

text \<open>The loop that slices the segments: \<open>off + 16 <= total\<close>.\<close>

function get_segments :: "u8 list \<Rightarrow> nat \<Rightarrow> nat \<Rightarrow> u8 list list" where
  "get_segments data off hdrLen =
     (if off + 16 \<le> hdrLen then take 16 (drop off data) # get_segments data (off + 16) hdrLen else [])"
  by pat_completeness auto
termination
  by (relation "measure (\<lambda>(data, off, hdrLen). hdrLen - off)") auto

declare get_segments.simps [simp del]

text \<open>The header, its bytes and the payload that the next decoder gets.\<close>

definition decodeSRH :: "u8 list \<Rightarrow> srh_error + srh \<times> u8 list \<times> u8 list" where
  "decodeSRH data =
     (if length data < 8 then Inl SrhShort
      else let hdrLen = (unat (data ! 1) + 1) * 8 in
        if length data < hdrLen then Inl SrhTruncated
        else Inr (\<lparr>sr_next = data ! 0, sr_left = data ! 3, sr_last = data ! 4, sr_flags = data ! 5,
                   sr_tag = get_u16 (take 2 (drop 6 data)), sr_segments = get_segments data 8 hdrLen\<rparr>,
                  take hdrLen data, drop hdrLen data))"

section \<open>Building the header\<close>

datatype srh_build_error = SrhMissing | SrhNotList | SrhInvalid string

fun parse_segments :: "yval list \<Rightarrow> srh_build_error + u8 list list" where
  "parse_segments [] = Inr []"
| "parse_segments (item # items) = (case ParseIP (toStr item) of
      None \<Rightarrow> Inl (SrhInvalid (toStr item))
    | Some ip \<Rightarrow> bind_res (parse_segments items) (\<lambda>segs. Inr (ip # segs)))"

definition next_header :: "string \<Rightarrow> u8" where
  "next_header nxt = (let k = normLayer nxt in
     if k = ''udp'' then IPProtocolUDP
     else if k = ''tcp'' then IPProtocolTCP
     else if k = ''ip'' then IPProtocolIPv4
     else if k = ''ipv6'' then IPProtocolIPv6
     else IPProtocolNoNextHeader)"

definition buildSRH :: "yfields \<Rightarrow> string \<Rightarrow> srh_build_error + srh" where
  "buildSRH f nxt = (case f ''segments'' of
      None \<Rightarrow> Inl SrhMissing
    | Some raw \<Rightarrow>
        (case raw of
           YList items \<Rightarrow>
             (if items = [] then Inl SrhNotList
              else bind_res (parse_segments items) (\<lambda>segs.
                let last = word_of_int (int (length segs) - 1) in
                Inr \<lparr>sr_next = next_header nxt,
                  sr_left = (case f ''segleft'' of Some v \<Rightarrow> word_of_int (toInt v) | None \<Rightarrow> last),
                  sr_last = last,
                  sr_flags = (case f ''flags'' of Some v \<Rightarrow> word_of_int (toInt v) | None \<Rightarrow> 0),
                  sr_tag = (case f ''tag'' of Some v \<Rightarrow> word_of_int (toInt v) | None \<Rightarrow> 0),
                  sr_segments = segs\<rparr>))
         | _ \<Rightarrow> Inl SrhNotList))"

section \<open>Lemmas\<close>

definition segments_ok :: "u8 list list \<Rightarrow> bool" where
  "segments_ok segs \<longleftrightarrow> list_all (\<lambda>b. length b = 16) segs"

lemma put_segments_ok: "segments_ok segs \<Longrightarrow> put_segments segs old = concat segs"
  by (induction segs arbitrary: old) (auto simp: segments_ok_def To16_def)

lemma length_concat_segments: "segments_ok segs \<Longrightarrow> length (concat segs) = 16 * length segs"
  by (induction segs) (auto simp: segments_ok_def)

lemma get_segments_concat:
  assumes "segments_ok segs" "length pre = off" "k \<le> length segs"
  shows "get_segments (pre @ concat segs @ post) off (off + 16 * k) = take k segs"
  using assms
proof (induction segs arbitrary: pre off k)
  case Nil
  then show ?case by (simp add: get_segments.simps)
next
  case (Cons seg segs)
  show ?case
  proof (cases k)
    case 0
    then show ?thesis by (simp add: get_segments.simps)
  next
    case (Suc j)
    have seg: "length seg = 16" "segments_ok segs"
      using Cons.prems(1) by (simp_all add: segments_ok_def)
    have "get_segments ((pre @ seg) @ concat segs @ post) (off + 16) (off + 16 + 16 * j) = take j segs"
      using Cons.prems seg Suc by (intro Cons.IH) auto
    moreover have "take 16 (drop off (pre @ concat (seg # segs) @ post)) = seg"
      using Cons.prems(2) seg(1) by simp
    ultimately show ?thesis
      using Suc by (subst get_segments.simps) (simp add: ac_simps)
  qed
qed

text \<open>The byte for the length of a header keeps the number of segments modulo 128.\<close>

lemma decode_serialized:
  assumes "segments_ok (sr_segments s)" "SerializeTo s prepend = Inr bytes"
  defines "k \<equiv> length (sr_segments s) mod 128"
  shows "length bytes = 8 + 16 * length (sr_segments s) \<and>
    decodeSRH (bytes @ payload) =
      Inr (s\<lparr>sr_segments := take k (sr_segments s)\<rparr>, take (8 + 16 * k) bytes, drop (8 + 16 * k) bytes @ payload)"
proof -
  let ?n = "length (sr_segments s)"
  let ?hd = "[sr_next s, of_nat (2 * ?n), 4, sr_left s, sr_last s, sr_flags s] @ put_u16 (sr_tag s)"
  have bytes: "bytes = ?hd @ concat (sr_segments s)"
    using assms(2) put_segments_ok [OF assms(1)] by (auto simp: SerializeTo_def Let_def split: sum.splits)
  have hd: "length ?hd = 8" by simp
  have len: "length bytes = 8 + 16 * ?n"
    by (simp add: bytes length_concat_segments [OF assms(1)])
  have k: "k \<le> ?n"
    by (simp add: k_def)
  have "unat (of_nat (2 * ?n) :: u8) = 2 * k"
    unfolding k_def by (subst unat_of_nat) (simp add: mult_mod_right)
  then have hdrLen: "(unat ((bytes @ payload) ! 1) + 1) * 8 = 8 + 16 * k"
    by (simp add: bytes)
  have segs: "get_segments (bytes @ payload) 8 (8 + 16 * k) = take k (sr_segments s)"
    unfolding bytes append_assoc using get_segments_concat [OF assms(1) hd k] by simp
  have tag: "take 2 (drop 6 (bytes @ payload)) = put_u16 (sr_tag s)"
    by (simp add: bytes put_u16_def numeral_eq_Suc)
  have nth: "(bytes @ payload) ! 0 = sr_next s" "(bytes @ payload) ! 3 = sr_left s" "(bytes @ payload) ! 4 = sr_last s"
    "(bytes @ payload) ! 5 = sr_flags s"
    by (simp_all add: bytes)
  show ?thesis
    unfolding decodeSRH_def Let_def hdrLen segs tag nth using len k by simp
qed

lemma parse_segments_ok: "parse_segments items = Inr segs \<Longrightarrow> segments_ok segs \<and> length segs = length items"
  by (induction items arbitrary: segs)
    (auto simp: segments_ok_def bind_res_eq_Inr dest: ParseIP_length split: option.splits)

lemma buildSRH_Inr:
  assumes "buildSRH f nxt = Inr s"
  shows "\<exists>items. f ''segments'' = Some (YList items) \<and> items \<noteq> [] \<and> parse_segments items = Inr (sr_segments s) \<and>
    sr_last s = word_of_int (int (length (sr_segments s)) - 1) \<and> (f ''segleft'' = None \<longrightarrow> sr_left s = sr_last s) \<and>
    sr_next s = next_header nxt"
proof (cases "f ''segments''")
  case None
  with assms show ?thesis by (simp add: buildSRH_def)
next
  case (Some raw)
  then obtain items where items: "raw = YList items" "items \<noteq> []"
    using assms by (cases raw) (auto simp: buildSRH_def split: if_splits)
  with Some assms obtain segs where "parse_segments items = Inr segs"
    by (cases "parse_segments items") (auto simp: buildSRH_def)
  with items Some assms show ?thesis
    by (auto simp: buildSRH_def Let_def)
qed

section \<open>Properties\<close>

text \<open>C32: a header built from a list of fewer than 128 segments has the length it announces, and
  the decoder that finds the layers after it reads back the same header and hands exactly the
  bytes after it to the next decoder; unless set otherwise, the first segment is the active one.
  From 128 segments on the length wraps: the decoder drops a multiple of 128 of them and takes
  the rest of the list for the payload.\<close>

theorem srh_round_trip:
  assumes "buildSRH f nxt = Inr s" "SerializeTo s prepend = Inr bytes"
  shows "length bytes = 8 + 16 * length (sr_segments s) \<and>
    (length (sr_segments s) < 128 \<longrightarrow> decodeSRH (bytes @ payload) = Inr (s, bytes, payload) \<and>
       unat (sr_last s) + 1 = length (sr_segments s) \<and> (f ''segleft'' = None \<longrightarrow> sr_left s = sr_last s)) \<and>
    (length (sr_segments s) = 128 \<longrightarrow>
       decodeSRH (bytes @ payload) = Inr (s\<lparr>sr_segments := []\<rparr>, take 8 bytes, drop 8 bytes @ payload))"
proof -
  obtain items where b: "items \<noteq> []" "parse_segments items = Inr (sr_segments s)"
    "sr_last s = word_of_int (int (length (sr_segments s)) - 1)" "f ''segleft'' = None \<longrightarrow> sr_left s = sr_last s"
    using buildSRH_Inr [OF assms(1)] by (elim exE conjE) simp
  have segs: "segments_ok (sr_segments s)" "length (sr_segments s) = length items"
    using parse_segments_ok [OF b(2)] by simp_all
  note dec = decode_serialized [OF segs(1) assms(2), of payload]
  have "unat (sr_last s) + 1 = length items" if "length items < 128"
  proof -
    obtain m where m: "length items = Suc m"
      using b(1) by (cases items) auto
    then have "sr_last s = of_nat m"
      by (simp add: b(3) segs(2))
    with m that show ?thesis
      by (simp add: unat_of_nat)
  qed
  with dec segs(2) b(4) show ?thesis by auto
qed

definition sample_srh :: yfields where
  "sample_srh = [''segments'' \<mapsto> YList [YStr (dotted 1 2 3 4), YStr (dotted 5 6 7 8)]]"

lemma sample_srh_build: "\<exists>s. buildSRH sample_srh ''UDP'' = Inr s \<and> length (sr_segments s) = 2"
  by (simp add: buildSRH_def sample_srh_def ParseIP_dotted Let_def)

theorem srh_round_trip_witness:
  "\<exists>s bytes. buildSRH sample_srh ''UDP'' = Inr s \<and> length bytes = 40 \<and> decodeSRH (bytes @ [1, 2, 3]) = Inr (s, bytes, [1, 2, 3])"
proof -
  obtain s where s: "buildSRH sample_srh ''UDP'' = Inr s" "length (sr_segments s) = 2"
    using sample_srh_build by blast
  obtain bytes where b: "SerializeTo s (\<lambda>n. Inr (replicate n 0)) = Inr bytes"
    by (simp add: SerializeTo_def Let_def)
  from srh_round_trip [OF s(1) b, of "[1, 2, 3]"] s show ?thesis by auto
qed

end
