(* ===== verification/Dsl_Vm.thy ===== *)
theory Dsl_Vm
  imports Dsl_Convert Stl_Vm Stl_Packet
begin

text \<open>
  Field engine programs of the profile language: \<open>pkg/stl/dsl/vm.go\<close>. An entry is a mapping
  from an instruction type to its fields, listed with distinct keys; a program is built against
  a packet, whose field offsets it may name.
\<close>

type_synonym vm_entry = "(string \<times> yfields) list"

datatype vm_error =
    VmKeys nat
  | VmAt nat string vm_error
  | VmMissingOffset
  | VmBadOffset yval
  | VmPacket packet_error
  | VmChecksumRange int
  | VmChecksumSmall u64
  | VmUnknown string
  | VmPanic

section \<open>Offsets and small coercions\<close>

definition resolveOffset :: "packet \<Rightarrow> yval \<Rightarrow> vm_error + int" where
  "resolveOffset pkt v = (case v of
      YNil \<Rightarrow> Inl VmMissingOffset
    | YInt x \<Rightarrow> Inr x
    | YInt64 x \<Rightarrow> Inr x
    | YFloat x \<Rightarrow> Inr (f_to_i64 x)
    | YStr ref \<Rightarrow> map_err VmPacket (ResolveOffset pkt ref)
    | _ \<Rightarrow> Inl (VmBadOffset v))"

definition l4Type :: "yval \<Rightarrow> int" where
  "l4Type v = (let s = toStr v in
     if s \<in> {''udp'', ''UDP''} then L4TypeUDP
     else if s \<in> {''tcp'', ''TCP''} then L4TypeTCP
     else if s \<in> {''ip'', ''IP''} then L4TypeIP
     else toInt v)"

definition sizeOr :: "yfields \<Rightarrow> int \<Rightarrow> int" where
  "sizeOr f dflt = (case f ''size'' of Some v \<Rightarrow> toInt v | None \<Rightarrow> dflt)"

section \<open>Instructions\<close>

definition buildFlowVar :: "yfields \<Rightarrow> flow_var" where
  "buildFlowVar f = (let
      name = toStr (yget f ''name'');
      sz = sizeOr f 4;
      op0 = toStr (yget f ''op'');
      op = (if op0 = [] then OpInc else op0);
      step0 = toInt (yget f ''step'');
      step = (if step0 = 0 then 1 else step0);
      split = boolFrom f ''split_to_cores'' False in
    case f ''value_list'' of
      Some vl \<Rightarrow> NewFlowVarList name sz op (case toU64List vl of Some vs \<Rightarrow> vs | None \<Rightarrow> []) step split
    | None \<Rightarrow>
        (let mn = toU64Value (yget f ''min''); mx = toU64Value (yget f ''max'');
             init = (case f ''init'' of Some v \<Rightarrow> toU64Value v | None \<Rightarrow> mn) in
         NewFlowVar name sz op init mn mx step split))"

definition buildInstruction :: "string \<Rightarrow> yfields \<Rightarrow> packet \<Rightarrow> vm_error + vm_instruction" where
  "buildInstruction kind f pkt =
     (if kind = ''flow_var'' then Inr (IFlowVar (buildFlowVar f))
      else if kind = ''write_flow_var'' then
        bind_res (resolveOffset pkt (yget f ''offset'')) (\<lambda>off.
          Inr (IWriteFlowVar (NewWriteFlowVar (toStr (yget f ''name'')) off (toI64 (yget f ''add_value''))
                (boolFrom f ''big_endian'' True))))
      else if kind = ''write_mask_flow_var'' then
        bind_res (resolveOffset pkt (yget f ''offset'')) (\<lambda>off.
          Inr (IWriteMaskFlowVar \<lparr>wm_type = ''write_mask_flow_var'', wm_name = toStr (yget f ''name''),
                 wm_pkt_offset = off, wm_cast_size = toInt (yget f ''cast_size''), wm_mask = toU64 (yget f ''mask''),
                 wm_shift = toInt (yget f ''shift''), wm_add_value = toI64 (yget f ''add_value''),
                 wm_big_endian = boolFrom f ''big_endian'' True\<rparr>))
      else if kind = ''fix_checksum_ipv4'' then
        bind_res (resolveOffset pkt (yget f ''offset'')) (\<lambda>off. Inr (IFixChecksumIPv4 (NewFixChecksumIPv4 off)))
      else if kind = ''fix_checksum_hw'' then
        Inr (IFixChecksumHw (NewFixChecksumHw (toInt (yget f ''l2_len'')) (toInt (yget f ''l3_len''))
              (l4Type (yget f ''l4_type''))))
      else if kind = ''fix_checksum_icmpv6'' then
        Inr (IFixChecksumICMPv6 \<lparr>f6_type = ''fix_checksum_icmpv6'', f6_l2_len = toInt (yget f ''l2_len''),
              f6_l3_len = toInt (yget f ''l3_len'')\<rparr>)
      else if kind = ''trim_pkt_size'' then Inr (ITrimPktSize (NewTrimPktSize (toStr (yget f ''name''))))
      else if kind = ''tuple_flow_var'' then
        Inr (ITupleGen \<lparr>tg_type = ''tuple_flow_var'', tg_name = toStr (yget f ''name''),
              tg_ip_min = toU64Value (yget f ''ip_min''), tg_ip_max = toU64Value (yget f ''ip_max''),
              tg_port_min = toInt (yget f ''port_min''), tg_port_max = toInt (yget f ''port_max''),
              tg_limit_flows = toInt (yget f ''limit_flows''), tg_flags = toInt (yget f ''flags'')\<rparr>)
      else if kind = ''flow_var_rand_limit'' then
        Inr (IFlowVarRand (NewFlowVarRandLimit (toStr (yget f ''name'')) (sizeOr f 4) (toInt (yget f ''limit''))
              (toInt (yget f ''seed'')) (toU64Value (yget f ''min'')) (toU64Value (yget f ''max''))
              (boolFrom f ''split_to_cores'' False)))
      else Inl (VmUnknown kind))"

text \<open>
  The slice \<open>pkt.Binary[csum : csum+2]\<close> panics on a negative offset, also when \<open>csum + 2\<close>
  overflows.
\<close>

definition buildChecksumSweep :: "yfields \<Rightarrow> packet \<Rightarrow> vm_error + vm_instruction list" where
  "buildChecksumSweep f pkt =
     bind_res (resolveOffset pkt (yget f ''offset'')) (\<lambda>off.
     bind_res (resolveOffset pkt (yget f ''checksum'')) (\<lambda>csum.
       if int (length (pkt_binary pkt)) < wrap64 (csum + 2) then Inl (VmChecksumRange csum)
       else if csum < 0 \<or> wrap64 (csum + 2) < 0 then Inl VmPanic
       else
         (let base = ucast (get_u16 (take 2 (drop (nat csum) (pkt_binary pkt)))) :: u64 in
          if base < 2 then Inl (VmChecksumSmall base)
          else
            (let span = base - 1;
                 mn = (case f ''min'' of Some v \<Rightarrow> toU64Value v | None \<Rightarrow> 1024) in
             Inr [IFlowVar (NewFlowVar ''sport'' 2 OpInc mn mn (mn + span) 1 False),
                  IWriteFlowVar (NewWriteFlowVar ''sport'' off 0 True),
                  IFlowVar (NewFlowVar ''ocks'' 2 OpDec base (base - span) base 1 False),
                  IWriteFlowVar (NewWriteFlowVar ''ocks'' csum 0 True)]))))"

text \<open>The instructions of one entry, and the loop over the entries.\<close>

definition buildEntry :: "nat \<Rightarrow> vm_entry \<Rightarrow> packet \<Rightarrow> vm_error + vm_instruction list" where
  "buildEntry i e pkt = (case e of
      [(kind, f)] \<Rightarrow>
        (if kind = ''checksum_sweep'' then map_err (VmAt i kind) (buildChecksumSweep f pkt)
         else map_err (VmAt i kind) (bind_res (buildInstruction kind f pkt) (\<lambda>ins. Inr [ins])))
    | _ \<Rightarrow> Inl (VmKeys i))"

definition buildVM :: "vm_entry list \<Rightarrow> packet \<Rightarrow> vm_error + vm" where
  "buildVM entries pkt =
     bind_res (traverse (\<lambda>i e. buildEntry i e pkt) 0 entries) (\<lambda>inss.
       Inr \<lparr>vm_instructions = Some (concat inss), vm_cache = None\<rparr>)"

end
