(* ===== verification/Dsl_Layers.thy ===== *)
theory Dsl_Layers
  imports Dsl_Srh
begin

text \<open>
  Packet layers of the profile language: \<open>pkg/stl/dsl/layers.go\<close>. The records hold the fields of
  gopacket's layer structs that the code sets. A pointer from a transport layer to the network
  layer its checksum covers is the position of that layer in the packet.
\<close>

section \<open>Layers\<close>

definition EthernetTypeIPv4 :: u16 where "EthernetTypeIPv4 = 0x0800"
definition EthernetTypeDot1Q :: u16 where "EthernetTypeDot1Q = 0x8100"
definition EthernetTypeIPv6 :: u16 where "EthernetTypeIPv6 = 0x86DD"

record eth =
  et_src :: "u8 list"
  et_dst :: "u8 list"
  et_type :: u16

record dot1q =
  dq_vlan :: u16
  dq_prio :: u8
  dq_type :: u16

text \<open>An address that was not given is the nil slice, here the empty list.\<close>

record ipv4 =
  i4_version :: u8
  i4_ttl :: u8
  i4_tos :: u8
  i4_id :: u16
  i4_protocol :: u8
  i4_src :: "u8 list"
  i4_dst :: "u8 list"

record ipv6 =
  i6_version :: u8
  i6_hlim :: u8
  i6_next :: u8
  i6_src :: "u8 list"
  i6_dst :: "u8 list"

record udp =
  ud_sport :: u16
  ud_dport :: u16
  ud_l3 :: "nat option"

record noChecksumUDP =
  nu_sport :: u16
  nu_dport :: u16
  nu_checksum :: u16

record tcp =
  tc_sport :: u16
  tc_dport :: u16
  tc_seq :: u32
  tc_window :: u16
  tc_syn :: bool
  tc_ack :: bool
  tc_fin :: bool
  tc_rst :: bool
  tc_psh :: bool
  tc_urg :: bool
  tc_l3 :: "nat option"

record vxlan =
  vx_valid :: bool
  vx_vni :: u32

datatype layer =
    SEth eth
  | SDot1Q dot1q
  | SIPv4 ipv4
  | SIPv6 ipv6
  | SUDP udp
  | SNoChecksumUDP noChecksumUDP
  | STCP tcp
  | SVXLAN vxlan
  | SSRH srh
  | SPayload "u8 list"

datatype layer_error =
    LayerKeys nat
  | LayerAt nat string layer_error
  | BadMAC string string
  | BadIP string string
  | BadSRH srh_build_error
  | UnknownLayerType string
  | ChecksumError string

section \<open>One layer from its fields\<close>

definition field_mac :: "yfields \<Rightarrow> string \<Rightarrow> u8 list \<Rightarrow> layer_error + u8 list" where
  "field_mac f key dflt = (case f key of
      None \<Rightarrow> Inr dflt
    | Some v \<Rightarrow> (case ParseMAC (toStr v) of None \<Rightarrow> Inl (BadMAC key (toStr v)) | Some mac \<Rightarrow> Inr mac))"

definition field_ip :: "yfields \<Rightarrow> string \<Rightarrow> u8 list \<Rightarrow> layer_error + u8 list" where
  "field_ip f key dflt = (case f key of
      None \<Rightarrow> Inr dflt
    | Some v \<Rightarrow> (case ParseIP (toStr v) of None \<Rightarrow> Inl (BadIP key (toStr v)) | Some ip \<Rightarrow> Inr ip))"

text \<open>Go's conversions such as \<open>uint8(toInt(v))\<close> keep the low bits.\<close>

definition field_word :: "yfields \<Rightarrow> string \<Rightarrow> 'a::len word \<Rightarrow> 'a word" where
  "field_word f key dflt = (case f key of None \<Rightarrow> dflt | Some v \<Rightarrow> word_of_int (toInt v))"

text \<open>The type field of Ethernet and 802.1Q for the layer that follows; 0 when it is left unset.\<close>

definition ethertype :: "string \<Rightarrow> u16" where
  "ethertype nxt = (let k = normLayer nxt in
     if k = ''ip'' then EthernetTypeIPv4
     else if k = ''ipv6'' then EthernetTypeIPv6
     else if k = ''dot1q'' then EthernetTypeDot1Q
     else 0)"

definition buildEth :: "yfields \<Rightarrow> string \<Rightarrow> layer_error + eth" where
  "buildEth f nxt =
     bind_res (field_mac f ''src'' [0, 0, 0, 0, 0, 1]) (\<lambda>src.
     bind_res (field_mac f ''dst'' [0, 0, 0, 0, 0, 2]) (\<lambda>dst.
       Inr \<lparr>et_src = src, et_dst = dst, et_type = ethertype nxt\<rparr>))"

definition buildDot1Q :: "yfields \<Rightarrow> string \<Rightarrow> layer_error + dot1q" where
  "buildDot1Q f nxt =
     Inr \<lparr>dq_vlan = field_word f ''vlan'' 0, dq_prio = field_word f ''prio'' 0, dq_type = ethertype nxt\<rparr>"

definition buildIPv4 :: "yfields \<Rightarrow> string \<Rightarrow> layer_error + ipv4" where
  "buildIPv4 f nxt =
     bind_res (field_ip f ''src'' (v4_prefix @ [16, 0, 0, 1])) (\<lambda>src.
     bind_res (field_ip f ''dst'' (v4_prefix @ [48, 0, 0, 1])) (\<lambda>dst.
       Inr \<lparr>i4_version = 4, i4_ttl = field_word f ''ttl'' 64, i4_tos = field_word f ''tos'' 0,
            i4_id = field_word f ''id'' 0,
            i4_protocol = (let k = normLayer nxt in
              if k = ''udp'' then IPProtocolUDP else if k = ''tcp'' then IPProtocolTCP else 0),
            i4_src = src, i4_dst = dst\<rparr>))"

definition buildIPv6 :: "yfields \<Rightarrow> string \<Rightarrow> layer_error + ipv6" where
  "buildIPv6 f nxt =
     bind_res (field_ip f ''src'' []) (\<lambda>src.
     bind_res (field_ip f ''dst'' []) (\<lambda>dst.
       Inr \<lparr>i6_version = 6, i6_hlim = field_word f ''hlim'' 64,
            i6_next = (let k = normLayer nxt in
              if k = ''udp'' then IPProtocolUDP
              else if k = ''tcp'' then IPProtocolTCP
              else if k = ''srh'' then IPProtocolIPv6Routing
              else if k = ''ip'' then IPProtocolIPv4
              else if k = ''ipv6'' then IPProtocolIPv6
              else 0),
            i6_src = src, i6_dst = dst\<rparr>))"

definition buildVXLAN :: "yfields \<Rightarrow> layer_error + vxlan" where
  "buildVXLAN f = Inr
     \<lparr>vx_valid = (case f ''flags'' of None \<Rightarrow> True | Some v \<Rightarrow> toInt v AND 8 \<noteq> 0), vx_vni = field_word f ''vni'' 0\<rparr>"

definition buildUDP :: "yfields \<Rightarrow> layer_error + udp" where
  "buildUDP f = Inr \<lparr>ud_sport = field_word f ''sport'' 0, ud_dport = field_word f ''dport'' 0, ud_l3 = None\<rparr>"

fun applyTCPFlags :: "tcp \<Rightarrow> string \<Rightarrow> tcp" where
  "applyTCPFlags t [] = t"
| "applyTCPFlags t (c # flags) = applyTCPFlags
     (if c \<in> {CHR ''S'', CHR ''s''} then t\<lparr>tc_syn := True\<rparr>
      else if c \<in> {CHR ''A'', CHR ''a''} then t\<lparr>tc_ack := True\<rparr>
      else if c \<in> {CHR ''F'', CHR ''f''} then t\<lparr>tc_fin := True\<rparr>
      else if c \<in> {CHR ''R'', CHR ''r''} then t\<lparr>tc_rst := True\<rparr>
      else if c \<in> {CHR ''P'', CHR ''p''} then t\<lparr>tc_psh := True\<rparr>
      else if c \<in> {CHR ''U'', CHR ''u''} then t\<lparr>tc_urg := True\<rparr>
      else t) flags"

definition buildTCP :: "yfields \<Rightarrow> layer_error + tcp" where
  "buildTCP f = (let
      t = \<lparr>tc_sport = field_word f ''sport'' 0, tc_dport = field_word f ''dport'' 0, tc_seq = 0, tc_window = 65535,
           tc_syn = False, tc_ack = False, tc_fin = False, tc_rst = False, tc_psh = False, tc_urg = False, tc_l3 = None\<rparr>;
      t' = (case f ''flags'' of None \<Rightarrow> t | Some v \<Rightarrow> applyTCPFlags t (toStr v)) in
    Inr (t'\<lparr>tc_seq := field_word f ''seq'' 0\<rparr>))"

definition map_ok :: "('a \<Rightarrow> 'b) \<Rightarrow> 'e + 'a \<Rightarrow> 'e + 'b" where
  "map_ok g m = bind_res m (\<lambda>x. Inr (g x))"

definition buildLayer :: "string \<Rightarrow> yfields \<Rightarrow> string \<Rightarrow> layer_error + layer" where
  "buildLayer kind f nxt = (let k = normLayer kind in
     if k = ''eth'' then map_ok SEth (buildEth f nxt)
     else if k = ''dot1q'' then map_ok SDot1Q (buildDot1Q f nxt)
     else if k = ''ip'' then map_ok SIPv4 (buildIPv4 f nxt)
     else if k = ''ipv6'' then map_ok SIPv6 (buildIPv6 f nxt)
     else if k = ''udp'' then map_ok SUDP (buildUDP f)
     else if k = ''tcp'' then map_ok STCP (buildTCP f)
     else if k = ''vxlan'' then map_ok SVXLAN (buildVXLAN f)
     else if k = ''srh'' then map_ok SSRH (map_err BadSRH (buildSRH f nxt))
     else Inl (UnknownLayerType kind))"

section \<open>The layers of a packet\<close>

text \<open>
  \<open>set_network l\<close> is the error of gopacket's \<open>SetNetworkLayerForChecksum\<close> for the network layer
  \<open>l\<close>, if it returns one. \<open>l3\<close> is the last network layer so far with its position.
\<close>

type_synonym layer_entry = "(string \<times> yfields) list"

definition wire_checksum ::
  "(layer \<Rightarrow> string option) \<Rightarrow> yfields \<Rightarrow> (nat \<times> layer) option \<Rightarrow> layer \<Rightarrow> layer_error + layer" where
  "wire_checksum set_network f l3 l = (case l of
      SUDP v \<Rightarrow>
        (case f ''chksum'' of
           Some cks \<Rightarrow> Inr (SNoChecksumUDP
             \<lparr>nu_sport = ud_sport v, nu_dport = ud_dport v, nu_checksum = word_of_int (toInt cks)\<rparr>)
         | None \<Rightarrow>
             (case l3 of
                None \<Rightarrow> Inr l
              | Some (i, n) \<Rightarrow>
                  (case set_network n of
                     Some e \<Rightarrow> Inl (ChecksumError e)
                   | None \<Rightarrow> Inr (SUDP (v\<lparr>ud_l3 := Some i\<rparr>)))))
    | STCP v \<Rightarrow>
        (case l3 of
           None \<Rightarrow> Inr l
         | Some (i, n) \<Rightarrow>
             (case set_network n of
                Some e \<Rightarrow> Inl (ChecksumError e)
              | None \<Rightarrow> Inr (STCP (v\<lparr>tc_l3 := Some i\<rparr>))))
    | _ \<Rightarrow> Inr l)"

definition next_l3 :: "nat \<Rightarrow> layer \<Rightarrow> (nat \<times> layer) option \<Rightarrow> (nat \<times> layer) option" where
  "next_l3 i l l3 = (case l of SIPv4 _ \<Rightarrow> Some (i, l) | SIPv6 _ \<Rightarrow> Some (i, l) | _ \<Rightarrow> l3)"

fun layer_loop ::
  "(layer \<Rightarrow> string option) \<Rightarrow> nat \<Rightarrow> (nat \<times> layer) option \<Rightarrow> (string \<times> yfields) list \<Rightarrow> layer_error + layer list" where
  "layer_loop set_network i l3 [] = Inr []"
| "layer_loop set_network i l3 ((kind, f) # rest) =
     bind_res (map_err (LayerAt i kind) (buildLayer kind f (case rest of [] \<Rightarrow> [] | (nxt, _) # _ \<Rightarrow> nxt))) (\<lambda>l.
     bind_res (wire_checksum set_network f l3 l) (\<lambda>l'.
     bind_res (layer_loop set_network (Suc i) (next_l3 i l l3) rest) (\<lambda>ls.
       Inr (l' # ls))))"

definition single_key :: "nat \<Rightarrow> layer_entry \<Rightarrow> layer_error + string \<times> yfields" where
  "single_key i e = (case e of [kf] \<Rightarrow> Inr kf | _ \<Rightarrow> Inl (LayerKeys i))"

definition buildLayers :: "(layer \<Rightarrow> string option) \<Rightarrow> layer_entry list \<Rightarrow> layer_error + layer list" where
  "buildLayers set_network entries =
     bind_res (traverse single_key 0 entries) (\<lambda>kfs. layer_loop set_network 0 None kfs)"

section \<open>A UDP header with a fixed checksum\<close>

text \<open>\<open>payload\<close> is the content of the buffer, \<open>prepend\<close> its \<open>PrependBytes\<close>.\<close>

definition noChecksumUDP_SerializeTo ::
  "noChecksumUDP \<Rightarrow> u8 list \<Rightarrow> (nat \<Rightarrow> string + u8 list) \<Rightarrow> string + u8 list" where
  "noChecksumUDP_SerializeTo u payload prepend = (case prepend 8 of
      Inl e \<Rightarrow> Inl e
    | Inr _ \<Rightarrow> Inr (put_u16 (nu_sport u) @ put_u16 (nu_dport u) @ put_u16 (of_nat (length payload + 8)) @
        put_u16 (nu_checksum u)))"

section \<open>Lemmas\<close>

definition layer_kind :: "layer \<Rightarrow> string" where
  "layer_kind l = (case l of
      SEth _ \<Rightarrow> ''eth'' | SDot1Q _ \<Rightarrow> ''dot1q'' | SIPv4 _ \<Rightarrow> ''ip'' | SIPv6 _ \<Rightarrow> ''ipv6''
    | SUDP _ \<Rightarrow> ''udp'' | SNoChecksumUDP _ \<Rightarrow> ''udp'' | STCP _ \<Rightarrow> ''tcp'' | SVXLAN _ \<Rightarrow> ''vxlan''
    | SSRH _ \<Rightarrow> ''srh'' | SPayload _ \<Rightarrow> ''payload'')"

text \<open>The field of a header that names the next one, and the assigned numbers it should hold.\<close>

definition link_field :: "layer \<Rightarrow> nat option" where
  "link_field l = (case l of
      SEth e \<Rightarrow> Some (unat (et_type e)) | SDot1Q d \<Rightarrow> Some (unat (dq_type d))
    | SIPv4 h \<Rightarrow> Some (unat (i4_protocol h)) | SIPv6 h \<Rightarrow> Some (unat (i6_next h))
    | SSRH h \<Rightarrow> Some (unat (sr_next h)) | _ \<Rightarrow> None)"

definition ethertypes :: "string \<Rightarrow> nat option" where
  "ethertypes = map_of [(''ip'', 0x0800), (''ipv6'', 0x86DD), (''dot1q'', 0x8100)]"

definition protocols :: "string \<Rightarrow> nat option" where
  "protocols = map_of [(''ip'', 4), (''tcp'', 6), (''udp'', 17), (''ipv6'', 41), (''srh'', 43)]"

definition assigned_number :: "layer \<Rightarrow> string \<Rightarrow> nat option" where
  "assigned_number l k = (case l of
      SEth _ \<Rightarrow> ethertypes k | SDot1Q _ \<Rightarrow> ethertypes k
    | SIPv4 _ \<Rightarrow> protocols k | SIPv6 _ \<Rightarrow> protocols k | SSRH _ \<Rightarrow> protocols k
    | _ \<Rightarrow> None)"

text \<open>
  The pairs of a header and the kind of the next one that the claim on linkage covers: all but
  network and routing headers inside IPv4, and a routing header behind another.
\<close>

definition covered_link :: "layer \<Rightarrow> string \<Rightarrow> bool" where
  "covered_link l k \<longleftrightarrow> (case l of
      SIPv4 _ \<Rightarrow> k \<notin> {''ip'', ''ipv6'', ''srh''} | SSRH _ \<Rightarrow> k \<noteq> ''srh'' | _ \<Rightarrow> True)"

definition link_ok :: "layer \<Rightarrow> string \<Rightarrow> bool" where
  "link_ok l k \<longleftrightarrow> (\<forall>n. assigned_number l k = Some n \<longrightarrow> covered_link l k \<longrightarrow> link_field l = Some n)"

definition is_network :: "layer \<Rightarrow> bool" where
  "is_network l \<longleftrightarrow> (case l of SIPv4 _ \<Rightarrow> True | SIPv6 _ \<Rightarrow> True | _ \<Rightarrow> False)"

definition network_of :: "layer \<Rightarrow> nat option" where
  "network_of l = (case l of SUDP v \<Rightarrow> ud_l3 v | STCP v \<Rightarrow> tc_l3 v | _ \<Rightarrow> None)"

definition computes_checksum :: "layer \<Rightarrow> bool" where
  "computes_checksum l \<longleftrightarrow> (case l of SUDP _ \<Rightarrow> True | STCP _ \<Rightarrow> True | _ \<Rightarrow> False)"

lemmas layer_simps = layer_kind_def link_field_def assigned_number_def covered_link_def is_network_def network_of_def
  computes_checksum_def

lemma ethertypes_cases:
  assumes "ethertypes k = Some n"
  obtains "k = ''ip''" "n = 0x0800" | "k = ''ipv6''" "n = 0x86DD" | "k = ''dot1q''" "n = 0x8100"
  using assms by (auto simp: ethertypes_def split: if_splits)

lemma protocols_cases:
  assumes "protocols k = Some n"
  obtains "k = ''ip''" "n = 4" | "k = ''tcp''" "n = 6" | "k = ''udp''" "n = 17" | "k = ''ipv6''" "n = 41"
    | "k = ''srh''" "n = 43"
  using assms by (auto simp: protocols_def split: if_splits)

lemma map_ok_eq_Inr [simp]: "map_ok g m = Inr y \<longleftrightarrow> (\<exists>x. m = Inr x \<and> y = g x)"
  by (auto simp: map_ok_def bind_res_eq_Inr)

lemma applyTCPFlags_l3 [simp]: "tc_l3 (applyTCPFlags t flags) = tc_l3 t"
  by (induction t flags rule: applyTCPFlags.induct) auto

lemma layer_numbers:
  "unat EthernetTypeIPv4 = 0x0800" "unat EthernetTypeIPv6 = 0x86DD" "unat EthernetTypeDot1Q = 0x8100"
  "unat IPProtocolIPv4 = 4" "unat IPProtocolTCP = 6" "unat IPProtocolUDP = 17" "unat IPProtocolIPv6 = 41"
  "unat IPProtocolIPv6Routing = 43" "unat IPProtocolNoNextHeader = 59"
  by (simp_all add: EthernetTypeIPv4_def EthernetTypeIPv6_def EthernetTypeDot1Q_def IPProtocolIPv4_def
      IPProtocolTCP_def IPProtocolUDP_def IPProtocolIPv6_def IPProtocolIPv6Routing_def IPProtocolNoNextHeader_def)

lemma buildSRH_next: "buildSRH f nxt = Inr h \<Longrightarrow> sr_next h = next_header nxt"
  using buildSRH_Inr [of f nxt h] by blast

lemma buildLayer_kind:
  assumes "buildLayer kind f nxt = Inr l"
  shows "layer_kind l = normLayer kind"
  using assms by (auto simp: buildLayer_def Let_def layer_kind_def split: if_splits)

lemma buildLayer_network:
  assumes "buildLayer kind f nxt = Inr l"
  shows "network_of l = None"
  using assms
  by (auto simp: buildLayer_def Let_def network_of_def buildUDP_def buildTCP_def split: if_splits option.splits)

lemma ethertype_assigned: "ethertypes (normLayer nxt) = Some n \<Longrightarrow> unat (ethertype nxt) = n"
  by (erule ethertypes_cases) (simp_all add: ethertype_def layer_numbers)

lemma link_ok_ipv4: "buildIPv4 f nxt = Inr h \<Longrightarrow> link_ok (SIPv4 h) (normLayer nxt)"
  unfolding link_ok_def assigned_number_def layer.case
  by (intro allI impI, erule protocols_cases)
    (auto simp: link_field_def covered_link_def buildIPv4_def bind_res_eq_Inr layer_numbers)

lemma link_ok_ipv6: "buildIPv6 f nxt = Inr h \<Longrightarrow> link_ok (SIPv6 h) (normLayer nxt)"
  unfolding link_ok_def assigned_number_def layer.case
  by (intro allI impI, erule protocols_cases)
    (auto simp: link_field_def covered_link_def buildIPv6_def bind_res_eq_Inr layer_numbers)

lemma link_ok_srh: "buildSRH f nxt = Inr h \<Longrightarrow> link_ok (SSRH h) (normLayer nxt)"
  unfolding link_ok_def assigned_number_def layer.case
  by (intro allI impI, erule protocols_cases)
    (auto simp: link_field_def covered_link_def buildSRH_next next_header_def layer_numbers)

lemma buildLayer_link:
  assumes "buildLayer kind f nxt = Inr l"
  shows "link_ok l (normLayer nxt)"
proof -
  consider (eth) e where "l = SEth e" "buildEth f nxt = Inr e"
    | (dot1q) d where "l = SDot1Q d" "buildDot1Q f nxt = Inr d"
    | (ip) h where "l = SIPv4 h" "buildIPv4 f nxt = Inr h"
    | (ipv6) h where "l = SIPv6 h" "buildIPv6 f nxt = Inr h"
    | (srh) h where "l = SSRH h" "buildSRH f nxt = Inr h"
    | (transport) "\<And>k. assigned_number l k = None"
    using assms by (auto simp: buildLayer_def Let_def assigned_number_def split: if_splits)
  then show ?thesis
  proof cases
    case eth
    then show ?thesis
      by (auto simp: link_ok_def layer_simps buildEth_def bind_res_eq_Inr ethertype_assigned)
  next
    case dot1q
    then show ?thesis
      by (auto simp: link_ok_def layer_simps buildDot1Q_def ethertype_assigned)
  next
    case transport
    then show ?thesis
      by (simp add: link_ok_def)
  qed (simp_all add: link_ok_ipv4 link_ok_ipv6 link_ok_srh)
qed

lemma wire_checksum_Inr:
  assumes "wire_checksum sn f l3 l = Inr l'" "network_of l = None"
  shows "layer_kind l' = layer_kind l" "link_ok l' k \<longleftrightarrow> link_ok l k" "is_network l' \<longleftrightarrow> is_network l"
    "computes_checksum l' \<Longrightarrow> network_of l' = map_option fst l3"
proof -
  show "layer_kind l' = layer_kind l"
    using assms(1) by (cases l) (auto simp: wire_checksum_def layer_kind_def split: option.splits prod.splits)
  show "link_ok l' k \<longleftrightarrow> link_ok l k"
    using assms(1) by (cases l) (auto simp: wire_checksum_def link_ok_def assigned_number_def split: option.splits prod.splits)
  show "is_network l' \<longleftrightarrow> is_network l"
    using assms(1) by (cases l) (auto simp: wire_checksum_def is_network_def split: option.splits prod.splits)
  show "computes_checksum l' \<Longrightarrow> network_of l' = map_option fst l3"
    using assms by (cases l) (auto simp: wire_checksum_def network_of_def computes_checksum_def split: option.splits prod.splits)
qed

text \<open>The nearest network layer in front of position \<open>k\<close>.\<close>

fun nearest_network :: "layer list \<Rightarrow> nat \<Rightarrow> nat option" where
  "nearest_network (l # ls) (Suc k) = (case nearest_network ls k of
      Some j \<Rightarrow> Some (Suc j)
    | None \<Rightarrow> if is_network l then Some 0 else None)"
| "nearest_network _ _ = None"

lemma nearest_network_None: "k \<le> length ls \<Longrightarrow> nearest_network ls k = None \<longleftrightarrow> (\<forall>j < k. \<not> is_network (ls ! j))"
  by (induction ls k rule: nearest_network.induct) (auto simp: All_less_Suc2 split: option.splits)

lemma nearest_network_Some:
  "k \<le> length ls \<Longrightarrow> nearest_network ls k = Some j \<longleftrightarrow>
     j < k \<and> is_network (ls ! j) \<and> (\<forall>m. j < m \<and> m < k \<longrightarrow> \<not> is_network (ls ! m))"
proof (induction ls k arbitrary: j rule: nearest_network.induct)
  case (1 l ls k)
  have none: "nearest_network ls k = None \<longleftrightarrow> (\<forall>j < k. \<not> is_network (ls ! j))"
    using 1(2) by (simp add: nearest_network_None)
  show ?case
  proof (cases j)
    case 0
    have "(\<forall>m. 0 < m \<and> m < Suc k \<longrightarrow> \<not> is_network ((l # ls) ! m)) \<longleftrightarrow> (\<forall>j < k. \<not> is_network (ls ! j))"
      by (auto simp: gr0_conv_Suc)
    then show ?thesis
      using none 0 by (auto split: option.splits)
  next
    case (Suc j')
    have "(\<forall>m. j < m \<and> m < Suc k \<longrightarrow> \<not> is_network ((l # ls) ! m)) \<longleftrightarrow>
        (\<forall>m. j' < m \<and> m < k \<longrightarrow> \<not> is_network (ls ! m))"
      using Suc by (metis Suc_less_eq Suc_lessE nth_Cons_Suc)
    then show ?thesis
      using 1(1) [of j'] 1(2) Suc by (cases "nearest_network ls k") auto
  qed
qed auto

lemma layer_loop_Inr:
  assumes "layer_loop sn i l3 kfs = Inr ls"
  shows "map layer_kind ls = map (normLayer \<circ> fst) kfs \<and>
    (\<forall>k. Suc k < length ls \<longrightarrow> link_ok (ls ! k) (layer_kind (ls ! Suc k))) \<and>
    (\<forall>k < length ls. computes_checksum (ls ! k) \<longrightarrow> network_of (ls ! k) =
       (case nearest_network ls k of Some j \<Rightarrow> Some (i + j) | None \<Rightarrow> map_option fst l3))"
  using assms
proof (induction sn i l3 kfs arbitrary: ls rule: layer_loop.induct)
  case (1 sn i l3)
  then show ?case by simp
next
  case (2 sn i l3 kind f rest)
  define nxt where "nxt = (case rest of [] \<Rightarrow> [] | (nxt, _) # _ \<Rightarrow> nxt)"
  obtain l l' ls' where l: "buildLayer kind f nxt = Inr l" and l': "wire_checksum sn f l3 l = Inr l'"
    and ls': "layer_loop sn (Suc i) (next_l3 i l l3) rest = Inr ls'" and ls: "ls = l' # ls'"
    using 2(2) by (auto simp: bind_res_eq_Inr nxt_def)
  note IH = 2(1) [OF ls']
  note w = wire_checksum_Inr [OF l' buildLayer_network [OF l]]
  have kind: "layer_kind l' = normLayer kind"
    using w(1) buildLayer_kind [OF l] by simp
  have link: "link_ok l' (layer_kind (ls' ! 0))" if ne: "ls' \<noteq> []"
  proof -
    obtain nk nf rest' where rest: "rest = (nk, nf) # rest'"
      using IH ne by (cases rest) auto
    then have "layer_kind (ls' ! 0) = normLayer nxt"
      using IH ne by (cases ls') (auto simp: nxt_def)
    then show ?thesis
      using w(2) buildLayer_link [OF l] by simp
  qed
  have n: "map_option fst (next_l3 i l l3) = (if is_network l' then Some i else map_option fst l3)"
    using w(3) by (simp add: next_l3_def is_network_def split: layer.split)
  show ?case
    using IH kind link w(4) n unfolding ls
    by (auto simp: nth_Cons split: nat.splits option.splits)
qed

lemma traverse_single_key: "traverse single_key i entries = Inr kfs \<Longrightarrow> entries = map (\<lambda>kf. [kf]) kfs"
  by (induction entries arbitrary: i kfs) (auto simp: bind_res_eq_Inr single_key_def split: list.splits)

lemma wire_checksum_payload: "wire_checksum sn f l3 l = Inr (SPayload b) \<Longrightarrow> l = SPayload b"
  by (cases l) (auto simp: wire_checksum_def split: option.splits prod.splits)

lemma buildLayer_payload: "buildLayer kind f nxt = Inr (SPayload b) \<Longrightarrow> False"
  by (auto simp: buildLayer_def Let_def split: if_splits)

lemma layer_loop_payload: "layer_loop sn i l3 kfs = Inr ls \<Longrightarrow> SPayload b \<notin> set ls"
proof (induction sn i l3 kfs arbitrary: ls rule: layer_loop.induct)
  case (2 sn i l3 kind f rest)
  then show ?case
    by (auto simp: bind_res_eq_Inr) (metis wire_checksum_payload buildLayer_payload)
qed simp

lemma buildLayers_Inr:
  assumes "buildLayers sn entries = Inr ls"
  obtains kfs where "entries = map (\<lambda>kf. [kf]) kfs" "map layer_kind ls = map (normLayer \<circ> fst) kfs"
    "\<And>b. SPayload b \<notin> set ls"
proof -
  obtain kfs where kfs: "traverse single_key 0 entries = Inr kfs" and loop: "layer_loop sn 0 None kfs = Inr ls"
    using assms by (auto simp: buildLayers_def bind_res_eq_Inr)
  show thesis
    using that [OF traverse_single_key [OF kfs]] layer_loop_Inr [OF loop] layer_loop_payload [OF loop] by blast
qed

section \<open>Properties\<close>

text \<open>C27: the layers built for a packet are the listed ones, in order; every header names the one
  that follows it by the number assigned to it, for all pairs but network and routing headers
  inside IPv4 and stacked routing headers; and every transport header whose checksum is computed
  refers to the nearest network header in front of it, or to none when there is none.\<close>

theorem buildLayers_linked:
  assumes "buildLayers set_network entries = Inr ls"
  shows "length ls = length entries \<and>
    (\<forall>i < length ls. \<exists>kind f. entries ! i = [(kind, f)] \<and> layer_kind (ls ! i) = normLayer kind) \<and>
    (\<forall>i n. Suc i < length ls \<longrightarrow> covered_link (ls ! i) (layer_kind (ls ! Suc i)) \<longrightarrow>
       assigned_number (ls ! i) (layer_kind (ls ! Suc i)) = Some n \<longrightarrow> link_field (ls ! i) = Some n) \<and>
    (\<forall>i j. i < length ls \<and> computes_checksum (ls ! i) \<longrightarrow>
       (network_of (ls ! i) = Some j \<longleftrightarrow>
          j < i \<and> is_network (ls ! j) \<and> (\<forall>m. j < m \<and> m < i \<longrightarrow> \<not> is_network (ls ! m))))"
proof -
  obtain kfs where kfs: "traverse single_key 0 entries = Inr kfs" and loop: "layer_loop set_network 0 None kfs = Inr ls"
    using assms by (auto simp: buildLayers_def bind_res_eq_Inr)
  note spec = layer_loop_Inr [OF loop]
  have len: "length kfs = length entries" "length ls = length kfs"
    using traverse_length [OF kfs] spec by (auto dest: map_eq_imp_length_eq)
  have entry: "entries ! i = [kfs ! i]" if "i < length entries" for i
    using traverse_nth [OF kfs that] by (auto simp: single_key_def split: list.splits)
  have kind: "layer_kind (ls ! i) = normLayer (fst (kfs ! i))" if "i < length ls" for i
    using spec len that by (metis (no_types, lifting) comp_apply nth_map)
  show ?thesis
  proof (intro conjI allI impI)
    fix i assume "i < length ls"
    then show "\<exists>kind f. entries ! i = [(kind, f)] \<and> layer_kind (ls ! i) = normLayer kind"
      using entry [of i] kind [of i] len by (cases "kfs ! i") auto
  next
    fix i n assume "Suc i < length ls" "covered_link (ls ! i) (layer_kind (ls ! Suc i))"
      "assigned_number (ls ! i) (layer_kind (ls ! Suc i)) = Some n"
    then show "link_field (ls ! i) = Some n"
      using spec by (auto simp: link_ok_def)
  next
    fix i j assume "i < length ls \<and> computes_checksum (ls ! i)"
    then have "network_of (ls ! i) = nearest_network ls i" "i \<le> length ls"
      using spec by (auto split: option.splits)
    then show "network_of (ls ! i) = Some j \<longleftrightarrow>
        j < i \<and> is_network (ls ! j) \<and> (\<forall>m. j < m \<and> m < i \<longrightarrow> \<not> is_network (ls ! m))"
      by (simp add: nearest_network_Some)
  qed (use len in auto)
qed

definition sample_layers :: "layer_entry list" where
  "sample_layers = [[(''Ether'', Map.empty)], [(''ipv4'', [''ttl'' \<mapsto> YInt 300])], [(''UDP'', [''dport'' \<mapsto> YStr ''53''])]]"

lemma sample_layers_build: "\<exists>e h u. buildLayers (\<lambda>_. None) sample_layers = Inr [SEth e, SIPv4 h, SUDP u]"
  by (simp add: buildLayers_def sample_layers_def single_key_def buildLayer_def normLayer_def buildEth_def field_mac_def
      buildIPv4_def field_ip_def buildUDP_def map_ok_def wire_checksum_def next_l3_def)

theorem buildLayers_linked_witness:
  "\<exists>e h u. buildLayers (\<lambda>_. None) sample_layers = Inr [SEth e, SIPv4 h, SUDP u] \<and>
     unat (et_type e) = 0x0800 \<and> unat (i4_protocol h) = 17 \<and> ud_l3 u = Some 1"
proof -
  obtain e h u where b: "buildLayers (\<lambda>_. None) sample_layers = Inr [SEth e, SIPv4 h, SUDP u]"
    using sample_layers_build by blast
  let ?ls = "[SEth e, SIPv4 h, SUDP u]"
  have link: "\<forall>i n. Suc i < length ?ls \<longrightarrow> covered_link (?ls ! i) (layer_kind (?ls ! Suc i)) \<longrightarrow>
      assigned_number (?ls ! i) (layer_kind (?ls ! Suc i)) = Some n \<longrightarrow> link_field (?ls ! i) = Some n"
    and net: "\<forall>i j. i < length ?ls \<and> computes_checksum (?ls ! i) \<longrightarrow> (network_of (?ls ! i) = Some j \<longleftrightarrow>
      j < i \<and> is_network (?ls ! j) \<and> (\<forall>m. j < m \<and> m < i \<longrightarrow> \<not> is_network (?ls ! m)))"
    using buildLayers_linked [OF b] by blast+
  have "unat (et_type e) = 0x0800" "unat (i4_protocol h) = 17"
    using spec [OF spec [OF link, of 0], of "0x0800"] spec [OF spec [OF link, of 1], of 17]
    by (simp_all add: assigned_number_def covered_link_def layer_kind_def link_field_def ethertypes_def protocols_def)
  moreover have "ud_l3 u = Some 1"
    using spec [OF spec [OF net, of 2], of 1] by (auto simp: computes_checksum_def is_network_def network_of_def)
  ultimately show ?thesis
    using b by auto
qed

end
