(* ===== verification/Dsl_Profile.thy ===== *)
theory Dsl_Profile
  imports Dsl_Layers Dsl_Vm Stl_Stream
begin

text \<open>
  Profiles in the profile language: \<open>pkg/stl/dsl/mode.go\<close>, \<open>packet.go\<close> and \<open>dsl.go\<close>. The YAML
  decoder, the template engine and gopacket are parameters; what the decoder stores are the
  records below.
\<close>

section \<open>Modes\<close>

record dsl_rate =
  dr_rate :: rate
  dr_set :: bool

record dsl_mode =
  dm_type :: string
  dm_rate :: dsl_rate
  dm_total_pkts :: int
  dm_pkts_per_burst :: int
  dm_ibg :: f64
  dm_count :: int

text \<open>A node of the YAML tree: for a mapping, what decoding it into type and value gives.\<close>

datatype yaml_node = ScalarNode string | MappingNode "string + string \<times> f64" | OtherNode

datatype rate_node_error = RateParse rate_error | RateDecode string | RateKind

definition UnmarshalYAML :: "yaml_node \<Rightarrow> rate_node_error + dsl_rate" where
  "UnmarshalYAML node =
     bind_res
       (case node of
          ScalarNode v \<Rightarrow> map_err RateParse (ParseRate v)
        | MappingNode m \<Rightarrow> map_err RateDecode (map_ok (\<lambda>(t, v). \<lparr>rate_type = t, rate_value = v\<rparr>) m)
        | OtherNode \<Rightarrow> Inl RateKind)
       (\<lambda>r. Inr \<lparr>dr_rate = r, dr_set = True\<rparr>)"

datatype dsl_error =
    UnknownMode string
  | NoLayers
  | LayersError layer_error
  | PayloadHex
  | PacketError packet_error
  | VmError vm_error
  | ImixZero

definition build_mode :: "dsl_mode \<Rightarrow> dsl_error + tx_mode" where
  "build_mode m = (let
      rate = (if dr_set (dm_rate m) then dr_rate (dm_rate m) else \<lparr>rate_type = RatePercentage, rate_value = Fin 100\<rparr>) in
    if dm_type m = [] \<or> dm_type m = ModeContinuous then Inr (Continuous rate)
    else if dm_type m = ModeSingleBurst then Inr (SingleBurst rate (dm_total_pkts m))
    else if dm_type m = ModeMultiBurst then Inr (MultiBurst rate (dm_pkts_per_burst m) (dm_ibg m) (dm_count m))
    else Inl (UnknownMode (dm_type m)))"

section \<open>Packets\<close>

record dsl_packet =
  dp_layers :: "layer_entry list"
  dp_payload_size :: int
  dp_payload :: string

text \<open>\<open>hex.DecodeString\<close>; \<open>None\<close> is its error.\<close>

fun hex_decode :: "string \<Rightarrow> u8 list option" where
  "hex_decode [] = Some []"
| "hex_decode [c] = None"
| "hex_decode (a # b # s) = (case hex_byte a b of
      None \<Rightarrow> None
    | Some x \<Rightarrow> map_option (\<lambda>xs. x # xs) (hex_decode s))"

definition payloadBytes :: "dsl_packet \<Rightarrow> dsl_error + u8 list option" where
  "payloadBytes pk =
     (if dp_payload pk \<noteq> [] then
        (if has_prefix (dp_payload pk) ''0x'' then
           (case hex_decode (drop 2 (dp_payload pk)) of None \<Rightarrow> Inl PayloadHex | Some b \<Rightarrow> Inr (Some b))
         else Inr (Some (map of_char (dp_payload pk))))
      else if 0 < dp_payload_size pk then Inr (Payload (dp_payload_size pk))
      else Inr None)"

record packet_env =
  pe_set_network :: "layer \<Rightarrow> string option"
  pe_gopacket :: "layer gopacket"

definition buildPacket :: "packet_env \<Rightarrow> dsl_packet \<Rightarrow> dsl_error + packet" where
  "buildPacket env pk =
     (if dp_layers pk = [] then Inl NoLayers
      else bind_res (map_err LayersError (buildLayers (pe_set_network env) (dp_layers pk))) (\<lambda>built.
        bind_res (payloadBytes pk) (\<lambda>payload.
          map_err PacketError (BuildPacket (pe_gopacket env)
            (case payload of None \<Rightarrow> built | Some b \<Rightarrow> built @ [SPayload b])))))"

section \<open>Streams\<close>

record dsl_flow_stats =
  df_rule_type :: string
  df_pgid :: int
  df_vxlan :: bool
  df_ieee1588 :: bool

record imix_row =
  ir_size :: int
  ir_weight :: f64
  ir_pgid :: "int option"

record dsl_stream =
  ds_name :: string
  ds_next :: string
  ds_packet :: dsl_packet
  ds_mode :: dsl_mode
  ds_vm :: "vm_entry list"
  ds_flow_stats :: "dsl_flow_stats option"
  ds_enabled :: "bool option"
  ds_self_start :: "bool option"
  ds_isg :: f64
  ds_direction :: "int option"
  ds_imix :: "imix_row list"

definition boolOr :: "bool option \<Rightarrow> bool \<Rightarrow> bool" where
  "boolOr p dflt = (case p of None \<Rightarrow> dflt | Some b \<Rightarrow> b)"

definition orDefault :: "string \<Rightarrow> string \<Rightarrow> string" where
  "orDefault s dflt = (if s = [] then dflt else s)"

definition buildOne ::
  "packet_env \<Rightarrow> dsl_stream \<Rightarrow> dsl_packet \<Rightarrow> tx_mode \<Rightarrow> string \<Rightarrow> string \<Rightarrow> dsl_flow_stats option \<Rightarrow> dsl_error + stream" where
  "buildOne env e pk mode name nxt fs =
     bind_res (buildPacket env pk) (\<lambda>pkt.
     bind_res (map_err VmError (buildVM (ds_vm e) pkt)) (\<lambda>v.
       Inr \<lparr>st_name = name, st_next = nxt, st_packet = Some pkt, st_mode = mode, st_vm = v,
         st_stats = (case fs of
             None \<Rightarrow> zero_flow_stats
           | Some r \<Rightarrow> \<lparr>fs_enabled = True, fs_pgid = df_pgid r, fs_rule_type = df_rule_type r,
               fs_vxlan = df_vxlan r, fs_ieee1588 = df_ieee1588 r\<rparr>),
         st_enabled = boolOr (ds_enabled e) True, st_self_start = boolOr (ds_self_start e) True,
         st_start_paused = False, st_isg = ds_isg e, st_core_id = 0, st_action_count = 0, st_random_seed = 0,
         st_mac_src_override = False, st_mac_dst_mode = 0, st_dummy = False, st_stream_id = None,
         st_direction = ds_direction e\<rparr>))"

text \<open>The length of the headers; the number of layers fits in an \<open>int\<close>.\<close>

definition layerHeaderLen :: "string \<Rightarrow> int" where
  "layerHeaderLen kind =
     (if kind = ''eth'' then 14
      else if kind = ''dot1q'' then 4
      else if kind = ''ip'' then 20
      else if kind = ''ipv6'' then 40
      else if kind = ''udp'' then 8
      else if kind = ''tcp'' then 20
      else 0)"

definition headerLen :: "layer_entry list \<Rightarrow> int" where
  "headerLen entries = sum_list (map (\<lambda>e. sum_list (map (\<lambda>(k, _). layerHeaderLen (normLayer k)) e)) entries)"

definition payloadForSize :: "int \<Rightarrow> dsl_packet \<Rightarrow> int" where
  "payloadForSize target pk = (let n = wrap64 (target - headerLen (dp_layers pk)) in if n < 0 then 0 else n)"

definition imix_total :: "imix_row list \<Rightarrow> f64" where
  "imix_total rows = foldl (\<lambda>t r. f_add t (ir_weight r)) (Fin 0) rows"

definition buildOneImix ::
  "packet_env \<Rightarrow> dsl_stream \<Rightarrow> dsl_packet \<Rightarrow> tx_mode \<Rightarrow> f64 \<Rightarrow> string \<Rightarrow> dsl_flow_stats option \<Rightarrow> dsl_error + stream" where
  "buildOneImix env e pk base fraction name fs =
     buildOne env e pk
       (base\<lparr>mode_rate := \<lparr>rate_type = rate_type (mode_rate base),
          rate_value = f_mul (rate_value (mode_rate base)) fraction\<rparr>\<rparr>) name [] fs"

definition imix_name :: "dsl_stream \<Rightarrow> nat \<Rightarrow> string" where
  "imix_name e i = orDefault (ds_name e) ''imix'' @ ''_'' @ nat_digits i"

definition imix_stream :: "packet_env \<Rightarrow> dsl_stream \<Rightarrow> tx_mode \<Rightarrow> nat \<Rightarrow> imix_row \<Rightarrow> dsl_error + stream" where
  "imix_stream env e base i r =
     buildOneImix env e ((ds_packet e)\<lparr>dp_payload_size := payloadForSize (ir_size r) (ds_packet e)\<rparr>) base
       (f_div (ir_weight r) (imix_total (ds_imix e))) (imix_name e i)
       (case ir_pgid r of None \<Rightarrow> None
        | Some pg \<Rightarrow> Some \<lparr>df_rule_type = FSStats, df_pgid = pg, df_vxlan = False, df_ieee1588 = False\<rparr>)"

definition buildImix :: "packet_env \<Rightarrow> dsl_stream \<Rightarrow> dsl_error + stream list" where
  "buildImix env e =
     (if f_eq (imix_total (ds_imix e)) (Fin 0) then Inl ImixZero
      else bind_res (build_mode (ds_mode e)) (\<lambda>base. traverse (imix_stream env e base) 0 (ds_imix e)))"

definition build_stream :: "packet_env \<Rightarrow> dsl_stream \<Rightarrow> dsl_error + stream list" where
  "build_stream env e =
     (if ds_imix e \<noteq> [] then buildImix env e
      else bind_res (build_mode (ds_mode e)) (\<lambda>mode.
        bind_res (buildOne env e (ds_packet e) mode (ds_name e) (ds_next e) (ds_flow_stats e)) (\<lambda>s. Inr [s])))"

section \<open>Documents\<close>

text \<open>
  \<open>yp_params\<close> and \<open>yp_streams\<close> are \<open>yaml.Unmarshal\<close> into the parameters and into the entries
  (\<open>None\<close> is the nil map that a null document leaves); \<open>yp_template\<close> is the template engine with
  missing keys as errors.
\<close>

record yaml_env =
  ye_params :: "string \<Rightarrow> string + (string \<rightharpoonup> yval) option"
  ye_template :: "string \<Rightarrow> string + ((string \<rightharpoonup> yval) \<Rightarrow> string + string)"
  ye_streams :: "string \<Rightarrow> string + dsl_stream list"
  ye_packet :: packet_env

datatype parse_error =
    ParamsError string
  | TemplateParse string
  | TemplateExecute string
  | ProfileError string
  | StreamError nat dsl_error
  | NilMapPanic

definition separator :: "string \<Rightarrow> bool" where
  "separator l \<longleftrightarrow> trim_space l = ''---''"

text \<open>The default parameters and the body.\<close>

definition splitParams :: "yaml_env \<Rightarrow> string \<Rightarrow> parse_error + (string \<rightharpoonup> yval) option \<times> string" where
  "splitParams env raw = (let
      ls = split_on (CHR 0x0A) raw;
      front = takeWhile (Not \<circ> separator) ls;
      rest = dropWhile (Not \<circ> separator) ls in
    if rest = [] then Inr (Some Map.empty, raw)
    else
      (let head = join_with (CHR 0x0A) front; body = join_with (CHR 0x0A) (tl rest) in
       if trim_space head \<noteq> [] then
         bind_res (map_err ParamsError (ye_params env head)) (\<lambda>params. Inr (params, body))
       else Inr (Some Map.empty, body)))"

definition coerce :: "string \<Rightarrow> yval" where
  "coerce s = (case Atoi s of
      Some i \<Rightarrow> YInt i
    | None \<Rightarrow> (case parse_float s of Some x \<Rightarrow> YFloat x | None \<Rightarrow> YStr s))"

text \<open>The tunables are a map, listed with distinct keys; writing to a nil map panics.\<close>

definition override :: "(string \<rightharpoonup> yval) option \<Rightarrow> (string \<times> string) list \<Rightarrow> parse_error + (string \<rightharpoonup> yval)" where
  "override params tunables = (case params of
      Some m \<Rightarrow> Inr (m ++ map_of (map (\<lambda>(k, v). (k, coerce v)) tunables))
    | None \<Rightarrow> if tunables = [] then Inr Map.empty else Inl NilMapPanic)"

text \<open>A parsed template is what executing it gives for the parameters.\<close>

definition render :: "yaml_env \<Rightarrow> string \<Rightarrow> (string \<rightharpoonup> yval) \<Rightarrow> parse_error + string" where
  "render env body params =
     bind_res (map_err TemplateParse (ye_template env body)) (\<lambda>tmpl. map_err TemplateExecute (tmpl params))"

definition build_entries :: "packet_env \<Rightarrow> dsl_stream list \<Rightarrow> parse_error + profile" where
  "build_entries env entries =
     bind_res (traverse (\<lambda>i e. map_err (StreamError i) (build_stream env e)) 0 entries) (\<lambda>ss. Inr (concat ss))"

definition Parse :: "yaml_env \<Rightarrow> string \<Rightarrow> (string \<times> string) list \<Rightarrow> parse_error + profile" where
  "Parse env raw tunables =
     bind_res (splitParams env raw) (\<lambda>(params, body).
     bind_res (override params tunables) (\<lambda>params'.
     bind_res (render env body params') (\<lambda>rendered.
     bind_res (map_err ProfileError (ye_streams env rendered)) (\<lambda>entries.
       build_entries (ye_packet env) entries))))"

text \<open>\<open>Load\<close>: reading the file is a parameter.\<close>

definition Dsl_Load :: "(string \<Rightarrow> string + string) \<Rightarrow> yaml_env \<Rightarrow> string \<Rightarrow> (string \<times> string) list \<Rightarrow>
    (string + parse_error) + profile" where
  "Dsl_Load read env path tunables = (case read path of
      Inl err \<Rightarrow> Inl (Inl err)
    | Inr raw \<Rightarrow> map_err Inr (Parse env raw tunables))"

section \<open>Sizes\<close>

text \<open>
  The bytes of the header of each layer, and the length of a serialized list of layers: each
  header goes in front of what follows it, and an Ethernet layer pads its frame to 60 bytes.
\<close>

definition layer_size :: "layer \<Rightarrow> nat" where
  "layer_size l = (case l of
      SEth _ \<Rightarrow> 14 | SDot1Q _ \<Rightarrow> 4 | SIPv4 _ \<Rightarrow> 20 | SIPv6 _ \<Rightarrow> 40 | SUDP _ \<Rightarrow> 8 | SNoChecksumUDP _ \<Rightarrow> 8
    | STCP _ \<Rightarrow> 20 | SVXLAN _ \<Rightarrow> 8 | SSRH h \<Rightarrow> 8 + 16 * length (sr_segments h) | SPayload b \<Rightarrow> length b)"

definition is_eth :: "layer \<Rightarrow> bool" where
  "is_eth l \<longleftrightarrow> (case l of SEth _ \<Rightarrow> True | _ \<Rightarrow> False)"

fun frame_length :: "layer list \<Rightarrow> nat" where
  "frame_length [] = 0"
| "frame_length (l # ls) =
     (let n = layer_size l + frame_length ls in if is_eth l then max 60 n else n)"









section \<open>Lemmas\<close>


lemma buildOne_Inr:
  assumes "buildOne env e pk mode name nxt fs = Inr s"
  shows "st_name s = name" "st_next s = nxt" "st_mode s = mode" "st_isg s = ds_isg e" "st_direction s = ds_direction e"
    "\<exists>pkt. buildPacket env pk = Inr pkt \<and> st_packet s = Some pkt \<and> buildVM (ds_vm e) pkt = Inr (st_vm s)"
  using assms by (auto simp: buildOne_def bind_res_eq_Inr)

lemma buildInstruction_valid: "buildInstruction kind f pkt = Inr ins \<Longrightarrow> instruction_valid ins"
  by (auto simp: buildInstruction_def bind_res_eq_Inr split: if_splits)

lemma buildChecksumSweep_valid: "buildChecksumSweep f pkt = Inr is \<Longrightarrow> list_all instruction_valid is"
  by (auto simp: buildChecksumSweep_def bind_res_eq_Inr Let_def split: if_splits)

lemma buildEntry_valid:
  assumes "buildEntry i e pkt = Inr is"
  shows "list_all instruction_valid is"
proof -
  obtain kind f where e: "e = [(kind, f)]"
    using assms by (auto simp: buildEntry_def split: list.splits)
  show ?thesis
  proof (cases "kind = ''checksum_sweep''")
    case True
    then show ?thesis
      using assms buildChecksumSweep_valid by (simp add: buildEntry_def e)
  next
    case False
    then obtain ins where "buildInstruction kind f pkt = Inr ins" "is = [ins]"
      using assms by (auto simp: buildEntry_def e bind_res_eq_Inr)
    then show ?thesis
      using buildInstruction_valid by simp
  qed
qed

lemma buildVM_valid:
  assumes "buildVM entries pkt = Inr v"
  shows "\<exists>is. vm_instructions v = Some is \<and> list_all instruction_valid is"
proof -
  obtain inss where t: "traverse (\<lambda>i e. buildEntry i e pkt) 0 entries = Inr inss" and v: "vm_instructions v = Some (concat inss)"
    using assms by (auto simp: buildVM_def bind_res_eq_Inr)
  have "list_all instruction_valid is" if "is \<in> set inss" for "is"
    using that traverse_nth [OF t] traverse_length [OF t] buildEntry_valid by (metis in_set_conv_nth)
  then show ?thesis
    using v by (auto simp: list_all_iff)
qed

lemma buildImix_Inr:
  assumes "buildImix env e = Inr ss"
  obtains base where "build_mode (ds_mode e) = Inr base" "length ss = length (ds_imix e)"
    "\<And>i. i < length ss \<Longrightarrow> imix_stream env e base i (ds_imix e ! i) = Inr (ss ! i)"
  using assms by (auto simp: buildImix_def bind_res_eq_Inr traverse_eq_Inr split: if_splits)


lemma imix_stream_Inr:
  assumes "imix_stream env e base i r = Inr s"
  shows "st_name s = imix_name e i \<and> st_next s = [] \<and> st_isg s = ds_isg e \<and> st_direction s = ds_direction e \<and>
    mode_rate (st_mode s) = \<lparr>rate_type = rate_type (mode_rate base),
      rate_value = f_mul (rate_value (mode_rate base)) (f_div (ir_weight r) (imix_total (ds_imix e)))\<rparr> \<and>
    (\<exists>pkt. st_packet s = Some pkt \<and> buildVM (ds_vm e) pkt = Inr (st_vm s) \<and>
      buildPacket env ((ds_packet e)\<lparr>dp_payload_size := payloadForSize (ir_size r) (ds_packet e)\<rparr>) = Inr pkt)"
  using buildOne_Inr [OF assms [unfolded imix_stream_def buildOneImix_def]] by auto

text \<open>Every stream of a profile has a packet and instructions that can be marshalled.\<close>

lemma build_stream_ok:
  assumes "build_stream env e = Inr ss" "s \<in> set ss"
  shows "st_packet s \<noteq> None \<and> (\<exists>is. vm_instructions (st_vm s) = Some is \<and> list_all instruction_valid is)"
proof (cases "ds_imix e = []")
  case True
  then obtain mode where "buildOne env e (ds_packet e) mode (ds_name e) (ds_next e) (ds_flow_stats e) = Inr s"
    using assms by (auto simp: build_stream_def bind_res_eq_Inr)
  from buildOne_Inr(6) [OF this] show ?thesis
    using buildVM_valid by auto
next
  case False
  then have "buildImix env e = Inr ss"
    using assms(1) by (simp add: build_stream_def)
  then obtain base i where "imix_stream env e base i (ds_imix e ! i) = Inr s"
    using assms(2) by (metis buildImix_Inr in_set_conv_nth)
  from imix_stream_Inr [OF this] show ?thesis
    using buildVM_valid by auto
qed

lemma build_entries_Inr:
  assumes "build_entries env entries = Inr p"
  obtains ss where "p = concat ss" "length ss = length entries"
    "\<And>i. i < length entries \<Longrightarrow> build_stream env (entries ! i) = Inr (ss ! i)"
  using assms by (auto simp: build_entries_def bind_res_eq_Inr traverse_eq_Inr)

lemma build_entries_ok:
  assumes "build_entries env entries = Inr p" "s \<in> set p"
  shows "st_packet s \<noteq> None \<and> (\<exists>is. vm_instructions (st_vm s) = Some is \<and> list_all instruction_valid is)"
  using assms(1)
proof (rule build_entries_Inr)
  fix ss assume ss: "p = concat ss" "length ss = length entries"
    "\<And>i. i < length entries \<Longrightarrow> build_stream env (entries ! i) = Inr (ss ! i)"
  obtain xs where "xs \<in> set ss" "s \<in> set xs"
    using assms(2) ss(1) by auto
  then obtain i where "i < length ss" "s \<in> set (ss ! i)"
    by (metis in_set_conv_nth)
  then show ?thesis
    using build_stream_ok [of env "entries ! i" "ss ! i" s] ss by simp
qed

definition floats_ok :: "stream \<Rightarrow> bool" where
  "floats_ok s \<longleftrightarrow> f_finite (st_isg s) \<and> f_finite (rate_value (mode_rate (st_mode s))) \<and>
     (case mode_ibg (st_mode s) of None \<Rightarrow> True | Some g \<Rightarrow> f_finite g)"

lemma Parse_ok:
  assumes "Parse env raw tunables = Inr p" "s \<in> set p"
  shows "st_packet s \<noteq> None \<and> (marshals s \<longleftrightarrow> floats_ok s)"
proof -
  obtain entries where "build_entries (ye_packet env) entries = Inr p"
    using assms(1) by (auto simp: Parse_def bind_res_eq_Inr split: prod.splits)
  from build_entries_ok [OF this assms(2)] show ?thesis
    by (auto simp: marshals_def floats_ok_def)
qed

text \<open>A document of a head, a separator and a body.\<close>

definition document :: "string \<Rightarrow> string \<Rightarrow> string \<Rightarrow> string" where
  "document head sep body = head @ CHR 0x0A # sep @ CHR 0x0A # body"

lemma splitParams_document:
  assumes "\<forall>l \<in> set (split_on (CHR 0x0A) head). \<not> separator l" "separator sep" "CHR 0x0A \<notin> set sep"
  shows "splitParams env (document head sep body) =
    (if trim_space head \<noteq> [] then bind_res (map_err ParamsError (ye_params env head)) (\<lambda>params. Inr (params, body))
     else Inr (Some Map.empty, body))"
proof -
  let ?h = "split_on (CHR 0x0A) head" and ?b = "split_on (CHR 0x0A) body"
  have ls: "split_on (CHR 0x0A) (document head sep body) = ?h @ sep # ?b"
    using assms(3) by (simp add: document_def split_on_append split_on_none)
  have "takeWhile (Not \<circ> separator) (?h @ sep # ?b) = ?h" "dropWhile (Not \<circ> separator) (?h @ sep # ?b) = sep # ?b"
    using assms(1,2) by (simp_all add: takeWhile_append2 dropWhile_append2)
  then show ?thesis
    using assms(2) by (auto simp: splitParams_def ls Let_def)
qed

lemma override_lookup:
  "override (Some m) tunables = Inr (\<lambda>k. case map_of tunables k of Some v \<Rightarrow> Some (coerce v) | None \<Rightarrow> m k)"
proof -
  have "map_of (map (\<lambda>(k, v). (k, coerce v)) tunables) k = map_option coerce (map_of tunables k)" for k
    by (induction tunables) auto
  then show ?thesis
    by (auto simp: override_def map_add_def fun_eq_iff split: option.splits)
qed

lemma stream_names_concat:
  "xs \<in> set ss \<Longrightarrow> s \<in> set xs \<Longrightarrow> st_name s \<noteq> [] \<Longrightarrow> st_name s \<in> set (stream_names (concat ss))"
  by (auto simp: stream_names_def)

lemma stream_names_append: "stream_names (p @ q) = stream_names p @ stream_names q"
  by (simp add: stream_names_def)

lemma names_clash:
  assumes "i < j" "j < length ss" "s \<in> set (ss ! i)" "t \<in> set (ss ! j)" "st_name s = st_name t" "st_name s \<noteq> []"
  shows "\<not> distinct (stream_names (concat ss))"
proof -
  have "ss = take j ss @ drop j ss" by simp
  then have split: "concat ss = concat (take j ss) @ concat (drop j ss)"
    by (metis concat_append)
  have "ss ! i \<in> set (take j ss)"
    using assms(1,2) by (metis in_set_conv_nth length_take min.absorb2 less_imp_le_nat nth_take)
  then have "st_name s \<in> set (stream_names (concat (take j ss)))"
    using assms(3,6) by (rule stream_names_concat)
  moreover have "ss ! j \<in> set (drop j ss)"
    using assms(2) by (simp add: Cons_nth_drop_Suc [symmetric])
  then have "st_name t \<in> set (stream_names (concat (drop j ss)))"
    using assms(4-6) by (intro stream_names_concat) auto
  ultimately show ?thesis
    unfolding split stream_names_append using assms(5) by auto
qed

section \<open>Properties\<close>


text \<open>two imix entries without a name, or with the same one, can never be uploaded together,
  because both number their streams from 0.\<close>

theorem imix_names_clash:
  assumes "build_entries env entries = Inr p" "length p < 2 ^ 64"
    and "i < j" "j < length entries" "ds_imix (entries ! i) \<noteq> []" "ds_imix (entries ! j) \<noteq> []"
    and "orDefault (ds_name (entries ! i)) ''imix'' = orDefault (ds_name (entries ! j)) ''imix''"
  shows "\<nexists>out. Resolve p = Some (Inr out)"
  using assms(1)
proof (rule build_entries_Inr)
  fix ss assume ss: "p = concat ss" "length ss = length entries"
    "\<And>i. i < length entries \<Longrightarrow> build_stream env (entries ! i) = Inr (ss ! i)"
  have first: "\<exists>s \<in> set (ss ! k). st_name s = imix_name (entries ! k) 0"
    if k: "k < length entries" "ds_imix (entries ! k) \<noteq> []" for k
  proof -
    have "buildImix env (entries ! k) = Inr (ss ! k)"
      using ss(3) [OF k(1)] k(2) by (simp add: build_stream_def)
    then show ?thesis
    proof (rule buildImix_Inr)
      fix base assume "length (ss ! k) = length (ds_imix (entries ! k))"
        and row: "\<And>i. i < length (ss ! k) \<Longrightarrow>
          imix_stream env (entries ! k) base i (ds_imix (entries ! k) ! i) = Inr (ss ! k ! i)"
      then have "0 < length (ss ! k)"
        using k(2) by simp
      then show ?thesis
        using imix_stream_Inr [OF row] nth_mem by blast
    qed
  qed
  obtain s t where "s \<in> set (ss ! i)" "t \<in> set (ss ! j)" "st_name s = imix_name (entries ! i) 0"
    "st_name t = imix_name (entries ! j) 0"
    using first [of i] first [of j] assms(3-6) by auto
  moreover have "imix_name (entries ! i) 0 = imix_name (entries ! j) 0" "imix_name (entries ! i) 0 \<noteq> []"
    using assms(7) by (simp_all add: imix_name_def)
  ultimately have "\<not> distinct (stream_names p)"
    using names_clash [OF assms(3), of ss s t] assms(4) ss(1,2) by simp
  then show ?thesis
    by (simp add: Resolve_ok_iff [OF assms(2)])
qed

text \<open>C29: of a document with a separator, only the part in front of the first separator line is
  read as parameters and only the part behind it is rendered, unchanged; a tunable replaces the
  parameter of its name, as a number when it reads as one.\<close>

theorem Parse_document:
  assumes "\<forall>l \<in> set (split_on (CHR 0x0A) head). \<not> separator l" "separator sep" "CHR 0x0A \<notin> set sep"
    and "trim_space head \<noteq> []" "ye_params env head = Inr (Some defaults)"
  shows "Parse env (document head sep body) tunables =
    bind_res (render env body
        (\<lambda>k. case map_of tunables k of Some v \<Rightarrow> Some (coerce v) | None \<Rightarrow> defaults k)) (\<lambda>rendered.
    bind_res (map_err ProfileError (ye_streams env rendered)) (build_entries (ye_packet env)))"
  using assms(4,5)
  by (simp add: Parse_def splitParams_document [OF assms(1-3)] override_lookup)

section \<open>Witnesses\<close>

definition sample_gopacket :: "layer gopacket" where
  "sample_gopacket = \<lparr>gp_serialize = (\<lambda>ls. Inr (replicate (frame_length ls) 0)),
     gp_decode = (\<lambda>_. Inr [(LEthernet, 14), (LIPv4, 20), (LUDP, 8)])\<rparr>"

definition sample_env :: packet_env where
  "sample_env = \<lparr>pe_set_network = (\<lambda>_. None), pe_gopacket = sample_gopacket\<rparr>"

definition sample_dsl :: "imix_row list \<Rightarrow> dsl_stream" where
  "sample_dsl rows = \<lparr>ds_name = [], ds_next = [],
     ds_packet = \<lparr>dp_layers = [[(''eth'', Map.empty)], [(''ip'', Map.empty)], [(''udp'', Map.empty)]],
       dp_payload_size = 0, dp_payload = []\<rparr>,
     ds_mode = \<lparr>dm_type = [], dm_rate = \<lparr>dr_rate = \<lparr>rate_type = [], rate_value = Fin 0\<rparr>, dr_set = False\<rparr>,
       dm_total_pkts = 0, dm_pkts_per_burst = 0, dm_ibg = Fin 0, dm_count = 0\<rparr>,
     ds_vm = [[(''write_flow_var'', [''name'' \<mapsto> YStr ''x'', ''offset'' \<mapsto> YStr ''IP.src''])]],
     ds_flow_stats = None, ds_enabled = None, ds_self_start = None, ds_isg = Fin 0, ds_direction = None, ds_imix = rows\<rparr>"

definition sample_rows :: "imix_row list" where
  "sample_rows = [\<lparr>ir_size = 64, ir_weight = Fin 1, ir_pgid = None\<rparr>, \<lparr>ir_size = 590, ir_weight = Fin 1, ir_pgid = Some 3\<rparr>]"

definition sample_yaml :: yaml_env where
  "sample_yaml = \<lparr>ye_params = (\<lambda>_. Inr (Some [''n'' \<mapsto> YInt 1])), ye_template = (\<lambda>b. Inr (\<lambda>p. if p ''n'' = None then Inr b else Inl (toStr (yget p ''n'')))),
     ye_streams = (\<lambda>_. Inr [sample_dsl []]), ye_packet = sample_env\<rparr>"


lemma sample_built:
  "\<exists>e h u. buildLayers (\<lambda>_. None) [[(''eth'', Map.empty)], [(''ip'', Map.empty)], [(''udp'', Map.empty)]] = Inr [SEth e, SIPv4 h, SUDP u]"
  by (simp add: buildLayers_def single_key_def buildLayer_def normLayer_def buildEth_def field_mac_def
      buildIPv4_def field_ip_def buildUDP_def map_ok_def wire_checksum_def next_l3_def)

lemma sample_packet:
  "\<exists>pkt. buildPacket sample_env ((ds_packet (sample_dsl rows))\<lparr>dp_payload_size := n\<rparr>) = Inr pkt \<and>
     pkt_starts pkt ''IP'' = Some 14"
proof -
  obtain ls where "buildLayers (\<lambda>_. None) [[(''eth'', Map.empty)], [(''ip'', Map.empty)], [(''udp'', Map.empty)]] = Inr ls"
    using sample_built by blast
  then show ?thesis
    by (simp add: buildPacket_def sample_env_def sample_dsl_def payloadBytes_def BuildPacket_def sample_gopacket_def
        decodeLayerStarts_def canonicalLayerName_def)
qed

lemma sample_vm:
  "pkt_starts pkt ''IP'' = Some 14 \<Longrightarrow> \<exists>v. buildVM (ds_vm (sample_dsl rows)) pkt = Inr v"
  by (simp add: buildVM_def sample_dsl_def buildEntry_def buildInstruction_def resolveOffset_def yget_def
      ResolveOffset_def aliasLayerName_def fieldOffsets_def)

lemma sample_one: "\<exists>s. buildOne sample_env (sample_dsl rows) ((ds_packet (sample_dsl rows))\<lparr>dp_payload_size := n\<rparr>) mode name nxt fs = Inr s"
proof -
  obtain pkt v where "buildPacket sample_env ((ds_packet (sample_dsl rows))\<lparr>dp_payload_size := n\<rparr>) = Inr pkt"
    "buildVM (ds_vm (sample_dsl rows)) pkt = Inr v"
    using sample_packet [of n rows] sample_vm [of _ rows] by blast
  then show ?thesis
    by (simp add: buildOne_def)
qed

lemma sample_imix: "\<exists>s t. buildImix sample_env (sample_dsl sample_rows) = Inr [s, t]"
proof -
  let ?e = "sample_dsl sample_rows"
  have "\<exists>s. imix_stream sample_env ?e base i r = Inr s" for base i r
    unfolding imix_stream_def buildOneImix_def by (rule sample_one)
  moreover have "\<not> f_eq (imix_total (ds_imix ?e)) (Fin 0)"
    using rnd64_pow2 [of 0] rnd64_pow2 [of 1] by (simp add: imix_total_def sample_dsl_def sample_rows_def fl_bounded)
  moreover have "\<exists>base. build_mode (ds_mode ?e) = Inr base"
    by (simp add: build_mode_def sample_dsl_def)
  moreover have "ds_imix ?e = sample_rows"
    by (simp add: sample_dsl_def)
  ultimately show ?thesis
    by (auto simp: buildImix_def sample_rows_def bind_res_eq_Inr)
qed


lemma sample_entry: "\<exists>s. build_stream sample_env (sample_dsl []) = Inr [s] \<and> st_name s = [] \<and> st_next s = [] \<and> floats_ok s"
proof -
  have "ds_packet (sample_dsl []) = (ds_packet (sample_dsl []))\<lparr>dp_payload_size := 0\<rparr>"
    by (simp add: sample_dsl_def)
  then obtain s where s: "buildOne sample_env (sample_dsl []) (ds_packet (sample_dsl []))
      (Continuous \<lparr>rate_type = RatePercentage, rate_value = Fin 100\<rparr>) [] [] None = Inr s"
    using sample_one [of "[]" 0] by metis
  from buildOne_Inr [OF s] s show ?thesis
    by (simp add: build_stream_def build_mode_def sample_dsl_def floats_ok_def f_finite_def Continuous_def)
qed

theorem imix_names_clash_witness:
  "\<exists>p. build_entries sample_env [sample_dsl sample_rows, sample_dsl sample_rows] = Inr p \<and> (\<nexists>out. Resolve p = Some (Inr out))"
proof -
  obtain s t where "buildImix sample_env (sample_dsl sample_rows) = Inr [s, t]"
    using sample_imix by blast
  then have "build_stream sample_env (sample_dsl sample_rows) = Inr [s, t]"
    by (simp add: build_stream_def) (simp add: sample_dsl_def sample_rows_def)
  then have p: "build_entries sample_env [sample_dsl sample_rows, sample_dsl sample_rows] = Inr [s, t, s, t]"
    by (simp add: build_entries_def)
  have "ds_imix (sample_dsl sample_rows) \<noteq> []"
    by (simp add: sample_dsl_def sample_rows_def)
  then have "\<nexists>out. Resolve [s, t, s, t] = Some (Inr out)"
    using imix_names_clash [OF p, of 0 1] by simp
  with p show ?thesis by blast
qed

theorem Parse_document_witness:
  "Parse sample_yaml (document ''n: 1'' '' ---'' ''body'') [(''n'', ''7'')] = Inl (TemplateExecute ''7'')"
proof -
  have "\<forall>l \<in> set (split_on (CHR 0x0A) ''n: 1''). \<not> separator l" "separator '' ---''" "CHR 0x0A \<notin> set '' ---''"
    "trim_space ''n: 1'' \<noteq> []"
    by code_simp+
  moreover have "ye_params sample_yaml ''n: 1'' = Inr (Some [''n'' \<mapsto> YInt 1])"
    by (simp add: sample_yaml_def)
  moreover have "toStr (coerce ''7'') = ''7''"
    by code_simp
  ultimately show ?thesis
    by (subst Parse_document) (simp_all add: sample_yaml_def yget_def render_def)
qed

end
