(* ===== verification/Dsl_Typing.thy ===== *)
theory Dsl_Typing
  imports Dsl_Profile
begin

text \<open>
  What the type of a stream of the server asks for, shown of every stream that the profile
  language builds.
\<close>

text \<open>The mode of a built stream is the one of its entry; an imix row only scales the rate.\<close>

lemma mode_wf_rate [simp]: "mode_wf (m\<lparr>mode_rate := r\<rparr>) = mode_wf m"
  by (simp add: mode_wf_def)

lemma build_mode_wf: "build_mode m = Inr b \<Longrightarrow> mode_wf b \<and> mode_rate b =
    (if dr_set (dm_rate m) then dr_rate (dm_rate m) else \<lparr>rate_type = RatePercentage, rate_value = Fin 100\<rparr>)"
  by (auto simp: build_mode_def Let_def split: if_splits)

lemma build_stream_mode:
  assumes "build_stream env e = Inr ss" "s \<in> set ss"
  obtains b where "build_mode (ds_mode e) = Inr b" "mode_wf (st_mode s)"
    "rate_type (mode_rate (st_mode s)) = rate_type (mode_rate b)"
proof (cases "ds_imix e = []")
  case True
  then obtain b where b: "build_mode (ds_mode e) = Inr b"
    "buildOne env e (ds_packet e) b (ds_name e) (ds_next e) (ds_flow_stats e) = Inr s"
    using assms by (auto simp: build_stream_def bind_res_eq_Inr)
  show ?thesis
    by (rule that [OF b(1)]) (simp_all add: buildOne_Inr(3) [OF b(2)] build_mode_wf [OF b(1)])
next
  case False
  then have "buildImix env e = Inr ss"
    using assms(1) by (simp add: build_stream_def)
  then obtain b i where b: "build_mode (ds_mode e) = Inr b" "imix_stream env e b i (ds_imix e ! i) = Inr s"
    using assms(2) by (metis buildImix_Inr in_set_conv_nth)
  show ?thesis
    by (rule that [OF b(1)])
      (simp_all add: buildOne_Inr(3) [OF b(2) [unfolded imix_stream_def buildOneImix_def]] build_mode_wf [OF b(1)])
qed

text \<open>The entries of a document, as the decoder stores them.\<close>

definition document_entries :: "yaml_env \<Rightarrow> string \<Rightarrow> (string \<times> string) list \<Rightarrow> parse_error + dsl_stream list" where
  "document_entries env raw tunables =
     bind_res (splitParams env raw) (\<lambda>(params, body).
     bind_res (override params tunables) (\<lambda>params'.
     bind_res (render env body params') (\<lambda>rendered. map_err ProfileError (ye_streams env rendered))))"

lemma Parse_entries:
  "Parse env raw tunables = bind_res (document_entries env raw tunables) (build_entries (ye_packet env))"
  by (auto simp: Parse_def document_entries_def bind_res_def split: sum.split prod.split)

text \<open>A rate that is written as text, such as 1gbps.\<close>

definition rate_text :: "dsl_rate \<Rightarrow> bool" where
  "rate_text r \<longleftrightarrow> (\<exists>v. UnmarshalYAML (ScalarNode v) = Inr r)"

lemma rate_text_type:
  assumes "rate_text r"
  shows "rate_type (dr_rate r) \<in> {RatePPS, RateBPSL1, RateBPSL2, RatePercentage}"
proof -
  obtain v where "ParseRate v = Inr (dr_rate r)"
    using assms by (cases r) (auto simp: rate_text_def UnmarshalYAML_def bind_res_eq_Inr map_err_eq_Inr)
  then show ?thesis
    using ParseRate_type by simp
qed

section \<open>Property\<close>

text \<open>C19: every stream of a parsed profile is well-typed for the server: it has a packet, its mode
  sets exactly the fields of its type, and its field engine instructions can be marshalled. The
  type of its rate is the one that its entry gives, or percentage when the entry gives no rate;
  a rate that is written as text has one of the four types that the server knows, and so has a
  rate that is left out.\<close>

theorem Parse_typed:
  assumes "Parse env raw tunables = Inr p"
  shows "\<exists>es sss. document_entries env raw tunables = Inr es \<and> p = concat sss \<and> length sss = length es \<and>
    (\<forall>i < length es. \<forall>s \<in> set (sss ! i). let given = dm_rate (ds_mode (es ! i)); t = rate_type (mode_rate (st_mode s)) in
       st_packet s \<noteq> None \<and> mode_wf (st_mode s) \<and>
       (\<exists>is. vm_instructions (st_vm s) = Some is \<and> list_all instruction_valid is) \<and>
       t = (if dr_set given then rate_type (dr_rate given) else RatePercentage) \<and>
       (\<not> dr_set given \<or> rate_text given \<longrightarrow> t \<in> {RatePPS, RateBPSL1, RateBPSL2, RatePercentage}))"
proof -
  obtain es where es: "document_entries env raw tunables = Inr es" "build_entries (ye_packet env) es = Inr p"
    using assms by (auto simp: Parse_entries bind_res_eq_Inr)
  obtain sss where sss: "p = concat sss" "length sss = length es"
    "\<And>i. i < length es \<Longrightarrow> build_stream (ye_packet env) (es ! i) = Inr (sss ! i)"
    using build_entries_Inr [OF es(2)] by metis
  have "let given = dm_rate (ds_mode (es ! i)); t = rate_type (mode_rate (st_mode s)) in
       st_packet s \<noteq> None \<and> mode_wf (st_mode s) \<and>
       (\<exists>is. vm_instructions (st_vm s) = Some is \<and> list_all instruction_valid is) \<and>
       t = (if dr_set given then rate_type (dr_rate given) else RatePercentage) \<and>
       (\<not> dr_set given \<or> rate_text given \<longrightarrow> t \<in> {RatePPS, RateBPSL1, RateBPSL2, RatePercentage})"
    if i: "i < length es" "s \<in> set (sss ! i)" for i s
  proof -
    obtain b where b: "build_mode (ds_mode (es ! i)) = Inr b" "mode_wf (st_mode s)"
      "rate_type (mode_rate (st_mode s)) = rate_type (mode_rate b)"
      by (rule build_stream_mode [OF sss(3) [OF i(1)] i(2)])
    with build_mode_wf [OF b(1)] build_stream_ok [OF sss(3) [OF i(1)] i(2)]
      rate_text_type [of "dm_rate (ds_mode (es ! i))"]
    show ?thesis
      by (auto simp: Let_def split: if_splits)
  qed
  with es(1) sss(1,2) show ?thesis
    by blast
qed

definition rate_dsl :: "rate \<Rightarrow> dsl_stream" where
  "rate_dsl r = (sample_dsl [])\<lparr>ds_mode := (ds_mode (sample_dsl []))\<lparr>dm_rate := \<lparr>dr_rate = r, dr_set = True\<rparr>\<rparr>\<rparr>"

theorem Parse_typed_witness:
  "\<exists>r s. ParseRate ''5'' = Inr r \<and> Parse (sample_yaml\<lparr>ye_streams := \<lambda>_. Inr [rate_dsl r]\<rparr>) ''body'' [] = Inr [s] \<and>
     mode_wf (st_mode s) \<and> rate_type (mode_rate (st_mode s)) \<in> {RatePPS, RateBPSL1, RateBPSL2, RatePercentage}"
proof -
  obtain r where r: "ParseRate ''5'' = Inr r"
    using ParseRate_type_witness by blast
  let ?env = "sample_yaml\<lparr>ye_streams := \<lambda>_. Inr [rate_dsl r]\<rparr>"
  have "UnmarshalYAML (ScalarNode ''5'') = Inr (dm_rate (ds_mode (rate_dsl r)))"
    using r by (auto simp: rate_dsl_def UnmarshalYAML_def bind_res_eq_Inr map_err_eq_Inr)
  then have written: "rate_text (dm_rate (ds_mode (rate_dsl r)))"
    by (auto simp: rate_text_def)
  have split: "split_on (CHR 0x0A) ''body'' = [''body'']" "\<not> separator ''body''"
    by code_simp+
  have "(ds_packet (sample_dsl []))\<lparr>dp_payload_size := 0\<rparr> = ds_packet (sample_dsl [])"
    by (simp add: sample_dsl_def)
  then obtain pkt v where "buildPacket sample_env (ds_packet (sample_dsl [])) = Inr pkt"
    "buildVM (ds_vm (sample_dsl [])) pkt = Inr v"
    using sample_packet [of 0 "[]"] sample_vm [of _ "[]"] by metis
  then obtain s where s: "build_stream sample_env (rate_dsl r) = Inr [s]"
    by (auto simp: build_stream_def rate_dsl_def buildOne_def build_mode_def sample_dsl_def)
  have es: "document_entries ?env ''body'' [] = Inr [rate_dsl r]"
    using split by (simp add: document_entries_def splitParams_def override_def render_def sample_yaml_def)
  then have p: "Parse ?env ''body'' [] = Inr [s]"
    using s by (simp add: Parse_entries build_entries_def sample_yaml_def)
  obtain sss where "[s] = concat sss" "length sss = 1" and
    ok: "\<forall>s \<in> set (sss ! 0). mode_wf (st_mode s) \<and> rate_type (mode_rate (st_mode s)) \<in> {RatePPS, RateBPSL1, RateBPSL2, RatePercentage}"
    using Parse_typed [OF p] es written by (auto simp: Let_def)
  then have "s \<in> set (sss ! 0)"
    by (cases sss) auto
  with r p ok show ?thesis
    by blast
qed

end
