(* ===== verification/Load_Pcap.thy ===== *)
theory Load_Pcap
  imports Stl_Stream
begin

text \<open>
  Replaying a capture: \<open>pkg/stl/loaders/pcap.go\<close>. Opening the file and gopacket's capture
  reader are parameters; a reader is the list of what its calls return until the end of the
  file. A time stamp is its number of nanoseconds.
\<close>

section \<open>Captures\<close>

record pcap_options =
  po_ipg :: f64
  po_min_ipg :: f64
  po_speedup :: f64

definition zero_options :: pcap_options where
  "zero_options = \<lparr>po_ipg = Fin 0, po_min_ipg = Fin 0, po_speedup = Fin 0\<rparr>"

record cap_pkt =
  cp_data :: "u8 list"
  cp_ts :: int

datatype pcap_error =
    OpenError string
  | ReadPcap string
  | ReadPacket string
  | NoPackets
  | PcapPacket nat packet_error

text \<open>\<open>Time.Sub\<close> saturates; \<open>Duration.Microseconds\<close> rounds towards zero.\<close>

definition time_sub :: "int \<Rightarrow> int \<Rightarrow> int" where
  "time_sub t u = max (- (2 ^ 63)) (min (2 ^ 63 - 1) (t - u))"

definition microseconds :: "int \<Rightarrow> int" where
  "microseconds d = (if d < 0 then - (- d div 1000) else d div 1000)"

text \<open>The builtin \<open>max\<close> of two floats.\<close>

definition f_max :: "f64 \<Rightarrow> f64 \<Rightarrow> f64" where
  "f_max a b = (if a = NaN \<or> b = NaN then NaN else if f_lt a b then b else a)"

definition gapBefore :: "cap_pkt list \<Rightarrow> nat \<Rightarrow> pcap_options \<Rightarrow> f64" where
  "gapBefore pkts i opts =
     (if f_lt (Fin 0) (po_ipg opts) then po_ipg opts
      else if i = 0 then Fin 0
      else f_max (f_div (f_of_int (microseconds (time_sub (cp_ts (pkts ! i)) (cp_ts (pkts ! (i - 1)))))) (po_speedup opts))
             (po_min_ipg opts))"

section \<open>Streams\<close>

text \<open>The loop over \<open>ReadPacketData\<close>.\<close>

fun read_packets :: "(string + cap_pkt) list \<Rightarrow> pcap_error + cap_pkt list" where
  "read_packets [] = Inr []"
| "read_packets (Inl e # rest) = Inl (ReadPacket e)"
| "read_packets (Inr p # rest) = bind_res (read_packets rest) (\<lambda>ps. Inr (p # ps))"

definition pkt_name :: "nat \<Rightarrow> string" where
  "pkt_name i = ''pkt_'' @ nat_digits i"

definition pcap_stream :: "'l gopacket \<Rightarrow> cap_pkt list \<Rightarrow> pcap_options \<Rightarrow> nat \<Rightarrow> cap_pkt \<Rightarrow> pcap_error + stream" where
  "pcap_stream gp pkts opts i p =
     bind_res (map_err (PcapPacket i) (RawPacket gp (cp_data p))) (\<lambda>pkt.
       Inr \<lparr>st_name = pkt_name i, st_next = (if i < length pkts - 1 then pkt_name (i + 1) else []),
         st_packet = Some pkt, st_mode = SingleBurst \<lparr>rate_type = RatePPS, rate_value = Fin 1\<rparr> 1,
         st_vm = \<lparr>vm_instructions = None, vm_cache = None\<rparr>, st_stats = zero_flow_stats,
         st_enabled = True, st_self_start = (i = 0), st_start_paused = False, st_isg = gapBefore pkts i opts,
         st_core_id = 0, st_action_count = 0, st_random_seed = 0, st_mac_src_override = False,
         st_mac_dst_mode = 0, st_dummy = False, st_stream_id = None, st_direction = None\<rparr>)"

record pcap_env =
  pv_open :: "string \<Rightarrow> string + u8 list"
  pv_reader :: "u8 list \<Rightarrow> string + (string + cap_pkt) list"

definition LoadPcap :: "pcap_env \<Rightarrow> 'l gopacket \<Rightarrow> string \<Rightarrow> pcap_options \<Rightarrow> pcap_error + profile" where
  "LoadPcap env gp path opts0 =
     bind_res (map_err OpenError (pv_open env path)) (\<lambda>f.
     bind_res (map_err ReadPcap (pv_reader env f)) (\<lambda>r.
       let opts = (if f_eq (po_speedup opts0) (Fin 0) then opts0\<lparr>po_speedup := Fin 1\<rparr> else opts0) in
       bind_res (read_packets r) (\<lambda>pkts.
         if pkts = [] then Inl NoPackets
         else traverse (pcap_stream gp pkts opts) 0 pkts)))"

section \<open>Lemmas\<close>

lemma read_packets_Inr: "read_packets r = Inr pkts \<Longrightarrow> r = map Inr pkts"
  by (induction r arbitrary: pkts rule: read_packets.induct) (auto simp: bind_res_eq_Inr)

lemma pkt_name_inject [simp]: "pkt_name i = pkt_name j \<longleftrightarrow> i = j"
  by (simp add: pkt_name_def)

lemma pkt_name_nonempty [simp]: "pkt_name i \<noteq> []"
  by (simp add: pkt_name_def)

lemma pcap_stream_Inr:
  assumes "pcap_stream gp pkts opts i p = Inr s"
  shows "st_name s = pkt_name i" "st_next s = (if Suc i < length pkts then pkt_name (Suc i) else [])"
    "st_self_start s \<longleftrightarrow> i = 0" "st_isg s = gapBefore pkts i opts" "st_stream_id s = None"
    "st_mode s = SingleBurst \<lparr>rate_type = RatePPS, rate_value = Fin 1\<rparr> 1"
    "\<exists>pkt. st_packet s = Some pkt \<and> RawPacket gp (cp_data p) = Inr pkt" "vm_instructions (st_vm s) = None"
  using assms by (auto simp: pcap_stream_def bind_res_eq_Inr)

lemma RawPacket_binary: "RawPacket gp bin = Inr pkt \<Longrightarrow> pkt_binary pkt = bin"
  by (auto simp: RawPacket_def split: sum.splits)

lemma LoadPcap_Inr:
  assumes "LoadPcap env gp path opts0 = Inr p"
  obtains f pkts opts where "pv_open env path = Inr f" "pv_reader env f = Inr (map Inr pkts)" "pkts \<noteq> []"
    "opts = (if f_eq (po_speedup opts0) (Fin 0) then opts0\<lparr>po_speedup := Fin 1\<rparr> else opts0)"
    "length p = length pkts" "\<And>i. i < length pkts \<Longrightarrow> pcap_stream gp pkts opts i (pkts ! i) = Inr (p ! i)"
  using assms
  by (auto simp: LoadPcap_def bind_res_eq_Inr Let_def traverse_eq_Inr dest!: read_packets_Inr split: if_splits)

lemma time_sub_range: "int64_range (time_sub t u)"
  by (auto simp: time_sub_def int64_range_def)

lemma microseconds_bound: "int64_range d \<Longrightarrow> \<bar>microseconds d\<bar> \<le> 2 ^ 53 * 2"
  by (auto simp: microseconds_def int64_range_def)

text \<open>The options the file dispatcher uses, after the speedup was set.\<close>

definition plain_options :: pcap_options where
  "plain_options = \<lparr>po_ipg = Fin 0, po_min_ipg = Fin 0, po_speedup = Fin 1\<rparr>"

lemma f_of_int_time:
  assumes "int64_range n"
  shows "\<exists>q. f_of_int n = Fin q \<and> (n \<le> 0 \<longrightarrow> q \<le> 0)"
proof -
  have lo: "(of_int (- (2 ^ 63)) :: rat) \<le> of_int n" and hi: "(of_int n :: rat) \<le> of_int (2 ^ 63)"
    using assms unfolding of_int_le_iff by (simp_all add: int64_range_def)
  have two: "(of_int (2 ^ 63) :: rat) = pow2 63"
    by (simp add: power_int_def)
  have r: "rnd64 (of_int (- (2 ^ 63))) = of_int (- (2 ^ 63))" "rnd64 (of_int (2 ^ 63)) = of_int (2 ^ 63)"
    using rnd64_pow2 [of 63] unfolding of_int_minus two by simp_all
  have big: "(of_int (2 ^ 63) :: rat) < 2 ^ 1024"
    unfolding two by (rule pow2_less_1024) simp
  then have small: "- (2 ^ 1024) < (of_int (- (2 ^ 63)) :: rat)"
    by simp
  show ?thesis
  proof (cases "n \<le> 0")
    case True
    then have "(of_int n :: rat) \<le> 0" by simp
    from fl_between [OF r(1) rnd64_0 lo this small] show ?thesis
      by (auto simp: f_of_int_def)
  next
    case False
    with fl_between [OF r lo hi small big] show ?thesis
      by (auto simp: f_of_int_def)
  qed
qed

text \<open>The gap in front of packet \<open>i\<close>, in microseconds.\<close>

definition gap_ok :: "cap_pkt list \<Rightarrow> nat \<Rightarrow> rat \<Rightarrow> bool" where
  "gap_ok pkts i g \<longleftrightarrow> 0 \<le> g \<and> (if i = 0 then g = 0 else
     (let d = cp_ts (pkts ! i) - cp_ts (pkts ! (i - 1)) in
        (d < 0 \<longrightarrow> g = 0) \<and> (0 \<le> d \<and> d < 2 ^ 63 \<and> d div 1000 \<le> 2 ^ 53 \<longrightarrow> g = of_int (d div 1000))))"

lemma gapBefore_plain: "\<exists>g. gapBefore pkts i plain_options = Fin g \<and> gap_ok pkts i g"
proof (cases "i = 0")
  case True
  then show ?thesis
    by (simp add: gapBefore_def plain_options_def gap_ok_def)
next
  case False
  define d where "d = cp_ts (pkts ! i) - cp_ts (pkts ! (i - 1))"
  let ?t = "time_sub (cp_ts (pkts ! i)) (cp_ts (pkts ! (i - 1)))"
  have "int64_range (microseconds ?t)"
    using time_sub_range [of "cp_ts (pkts ! i)" "cp_ts (pkts ! (i - 1))"]
    by (auto simp: microseconds_def int64_range_def)
  then obtain q where q: "f_of_int (microseconds ?t) = Fin q" "microseconds ?t \<le> 0 \<longrightarrow> q \<le> 0"
    using f_of_int_time by blast
  have "fl q = Fin q"
    using q(1) fl_ok [of "of_int (microseconds ?t)"] by (simp add: f_of_int_def f64_ok_Fin)
  then have gap: "gapBefore pkts i plain_options = Fin (if q < 0 then 0 else q)"
    using False q(1) by (simp add: gapBefore_def plain_options_def f_max_def)
  have neg: "q \<le> 0" if "d < 0"
    using that q(2) by (auto simp: microseconds_def time_sub_def d_def)
  have exact: "q = of_int (d div 1000)" if "0 \<le> d" "d < 2 ^ 63" "d div 1000 \<le> 2 ^ 53"
  proof -
    have "microseconds ?t = d div 1000"
      using that by (simp add: microseconds_def time_sub_def d_def)
    moreover have "\<bar>d div 1000\<bar> \<le> 2 ^ 53"
      using that by simp
    ultimately show ?thesis
      using q(1) f_of_int_exact by simp
  qed
  have "0 \<le> (of_int (d div 1000) :: rat)" if "0 \<le> d"
    using that by simp
  then have "gap_ok pkts i (if q < 0 then 0 else q)"
    unfolding gap_ok_def Let_def d_def [symmetric] using neg exact False by auto
  with gap show ?thesis by blast
qed

lemma chain_distinct:
  assumes "\<And>i. i < length p \<Longrightarrow> st_name (p ! i) = pkt_name i"
  shows "distinct (stream_names p)"
proof -
  have "distinct (map st_name p)"
    using assms by (simp add: distinct_conv_nth)
  then show ?thesis
    by (simp add: stream_names_def distinct_filter)
qed

text \<open>The streams of a capture loaded with the default options.\<close>

definition replays :: "cap_pkt list \<Rightarrow> profile \<Rightarrow> nat \<Rightarrow> bool" where
  "replays pkts p i \<longleftrightarrow> (\<exists>pkt. st_packet (p ! i) = Some pkt \<and> pkt_binary pkt = cp_data (pkts ! i)) \<and>
     (st_self_start (p ! i) \<longleftrightarrow> i = 0) \<and>
     st_next (p ! i) = (if Suc i < length p then st_name (p ! Suc i) else []) \<and>
     (\<exists>g. st_isg (p ! i) = Fin g \<and> gap_ok pkts i g)"

lemma LoadPcap_streams:
  assumes "LoadPcap env gp path zero_options = Inr p"
  obtains f pkts where "pv_open env path = Inr f" "pv_reader env f = Inr (map Inr pkts)" "length p = length pkts"
    "\<And>i. i < length p \<Longrightarrow> st_name (p ! i) = pkt_name i \<and> replays pkts p i \<and> marshals (p ! i) \<and> st_stream_id (p ! i) = None"
  using assms
proof (rule LoadPcap_Inr)
  fix f pkts opts
  assume f: "pv_open env path = Inr f" "pv_reader env f = Inr (map Inr pkts)" "pkts \<noteq> []"
    and opts: "opts = (if f_eq (po_speedup zero_options) (Fin 0) then zero_options\<lparr>po_speedup := Fin 1\<rparr> else zero_options)"
    and len: "length p = length pkts"
    and row: "\<And>i. i < length pkts \<Longrightarrow> pcap_stream gp pkts opts i (pkts ! i) = Inr (p ! i)"
  have opts: "opts = plain_options"
    by (simp add: opts zero_options_def plain_options_def)
  note s = pcap_stream_Inr [OF row]
  have each: "st_name (p ! i) = pkt_name i \<and> replays pkts p i \<and> marshals (p ! i) \<and> st_stream_id (p ! i) = None"
    if "i < length p" for i
  proof -
    have i: "i < length pkts"
      using that len by simp
    obtain g where g: "st_isg (p ! i) = Fin g" "gap_ok pkts i g"
      using s(4) [OF i] gapBefore_plain [of pkts i] by (auto simp: opts)
    have "mode_ibg (SingleBurst r 1) = None" for r
      by (simp add: SingleBurst_def)
    then have "marshals (p ! i)"
      using g(1) s(6) [OF i] s(8) [OF i] by (simp add: marshals_def f_finite_def)
    moreover have "replays pkts p i"
      unfolding replays_def
    proof (intro conjI)
      show "st_next (p ! i) = (if Suc i < length p then st_name (p ! Suc i) else [])"
        using s(2) [OF i] s(1) [of "Suc i"] len by auto
      show "\<exists>pkt. st_packet (p ! i) = Some pkt \<and> pkt_binary pkt = cp_data (pkts ! i)"
        using s(7) [OF i] RawPacket_binary by blast
    qed (use s(3) [OF i] g in auto)
    ultimately show ?thesis
      using s(1) [OF i] s(5) [OF i] by simp
  qed
  show thesis
    using that [OF f(1,2) len each] .
qed

lemma LoadPcap_resolves:
  assumes "LoadPcap env gp path zero_options = Inr p" "length p < 2 ^ 64"
  shows "\<exists>out. Resolve p = Some (Inr out)"
  using assms(1)
proof (rule LoadPcap_streams)
  fix f pkts
  assume each: "\<And>i. i < length p \<Longrightarrow> st_name (p ! i) = pkt_name i \<and> replays pkts p i \<and> marshals (p ! i) \<and>
    st_stream_id (p ! i) = None"
  have "distinct (stream_names p)"
    by (rule chain_distinct) (simp add: each)
  moreover have "st_packet s \<noteq> None \<and> (st_next s = [] \<or> st_next s \<in> set (stream_names p)) \<and> marshals s" if "s \<in> set p" for s
  proof -
    obtain i where i: "i < length p" "s = p ! i"
      using \<open>s \<in> set p\<close> by (metis in_set_conv_nth)
    have "st_next s \<in> set (stream_names p)" if "st_next s \<noteq> []"
    proof -
      have "Suc i < length p" "st_next s = st_name (p ! Suc i)"
        using that each [OF i(1)] i(2) by (auto simp: replays_def split: if_splits)
      with that show ?thesis
        unfolding in_stream_names by metis
    qed
    moreover have "st_packet s \<noteq> None \<and> marshals s"
      using each [OF i(1)] i(2) by (auto simp: replays_def)
    ultimately show ?thesis by blast
  qed
  ultimately show ?thesis
    by (simp add: Resolve_ok_iff [OF assms(2)])
qed

section \<open>Properties\<close>

text \<open>C26: a capture that loads is replayed as it was taken: its streams always resolve, with their
  positions as ids, the bytes of the packets unchanged; the first starts by itself and each names
  its successor, the last none; the gap in front of a packet is the difference of the time stamps
  in whole microseconds, and zero where the time stamps go backwards.\<close>

theorem LoadPcap_replays:
  assumes "LoadPcap env gp path zero_options = Inr p" "length p < 2 ^ 63"
  shows "\<exists>f pkts out. pv_open env path = Inr f \<and> pv_reader env f = Inr (map Inr pkts) \<and> length p = length pkts \<and>
    Resolve p = Some (Inr out) \<and> map rs_id out = map int [0..<length p] \<and>
    (\<forall>i < length p. (\<exists>pkt. st_packet (p ! i) = Some pkt \<and> pkt_binary pkt = cp_data (pkts ! i)) \<and>
       (st_self_start (p ! i) \<longleftrightarrow> i = 0) \<and>
       st_next (p ! i) = (if Suc i < length p then st_name (p ! Suc i) else []) \<and>
       (\<exists>g. st_isg (p ! i) = Fin g \<and> gap_ok pkts i g))"
  using assms(1)
proof (rule LoadPcap_streams)
  fix f pkts
  assume f: "pv_open env path = Inr f" "pv_reader env f = Inr (map Inr pkts)" "length p = length pkts"
    and each: "\<And>i. i < length p \<Longrightarrow> st_name (p ! i) = pkt_name i \<and> replays pkts p i \<and> marshals (p ! i) \<and>
      st_stream_id (p ! i) = None"
  obtain out where out: "Resolve p = Some (Inr out)"
    using LoadPcap_resolves [OF assms(1)] assms(2) by auto
  have "\<forall>s \<in> set p. st_stream_id s = None"
    using each by (metis in_set_conv_nth)
  from Resolve_positional [OF out this assms(2)] show ?thesis
    using f out each unfolding replays_def by (intro exI [of _ f] exI [of _ pkts] exI [of _ out]) simp
qed

definition sample_capture :: pcap_env where
  "sample_capture = \<lparr>pv_open = (\<lambda>_. Inr []),
     pv_reader = (\<lambda>_. Inr [Inr \<lparr>cp_data = [1], cp_ts = 5000\<rparr>, Inr \<lparr>cp_data = [2], cp_ts = 12345\<rparr>])\<rparr>"

theorem LoadPcap_replays_witness:
  "\<exists>p out. LoadPcap sample_capture \<lparr>gp_serialize = (\<lambda>(_ :: unit list). Inl []), gp_decode = (\<lambda>_. Inr [(LEthernet, 1)])\<rparr>
       ''x.pcap'' zero_options = Inr p \<and> Resolve p = Some (Inr out) \<and> map rs_id out = [0, 1] \<and> st_isg (p ! 1) = Fin 7"
proof -
  let ?gp = "\<lparr>gp_serialize = (\<lambda>(_ :: unit list). Inl []), gp_decode = (\<lambda>_. Inr [(LEthernet, 1)])\<rparr>"
  obtain p where p: "LoadPcap sample_capture ?gp ''x.pcap'' zero_options = Inr p" "length p = 2"
    by (simp add: LoadPcap_def sample_capture_def zero_options_def pcap_stream_def RawPacket_def decodeLayerStarts_def)
  have "length p < 2 ^ 63"
    by (simp add: p(2))
  from LoadPcap_replays [OF p(1) this] obtain f pkts out g where
    "pv_open sample_capture ''x.pcap'' = Inr f" "pv_reader sample_capture f = Inr (map Inr pkts)"
    "Resolve p = Some (Inr out)" "map rs_id out = map int [0..<length p]" "st_isg (p ! 1) = Fin g"
    "gap_ok pkts 1 g"
    using p(2) by (auto simp: All_less_Suc numeral_2_eq_2)
  then show ?thesis
    using p by (auto simp: sample_capture_def numeral_2_eq_2 gap_ok_def map_eq_Cons_conv Let_def)
qed

end
