(* ===== verification/Load_Snapshot.thy ===== *)
theory Load_Snapshot
  imports Stl_Stream "HOL-Library.AList" "HOL-Library.Monad_Syntax" "HOL-Library.List_Lexorder" "HOL-Library.Char_ord"
begin

text \<open>
  Frozen profiles: \<open>pkg/stl/loaders/snapshot.go\<close>. A snapshot is a YAML or JSON list; the YAML
  decoder is a parameter and gives values of type \<open>yaml_any\<close>, which are turned into JSON and
  decoded into the structures of the format. Time stamps, which the format does not use, are left
  out of the values.
\<close>

section \<open>From YAML to JSON\<close>

datatype yaml_any =
    AnyNil
  | AnyBool bool
  | AnyInt int
  | AnyUint u64
  | AnyFloat f64
  | AnyStr string
  | AnySeq "yaml_any list"
  | AnyMap "(string \<times> yaml_any) list"
  | AnyMapAny "(yaml_any \<times> yaml_any) list"

text \<open>
  \<open>fmt.Sprint\<close> of a map key; the text of a float is a parameter. Collections cannot be keys. A
  map is listed in the order of its iteration; a later key replaces an equal earlier one.
\<close>

fun sprint :: "(f64 \<Rightarrow> string) \<Rightarrow> yaml_any \<Rightarrow> string" where
  "sprint ff AnyNil = ''<nil>''"
| "sprint ff (AnyBool b) = (if b then ''true'' else ''false'')"
| "sprint ff (AnyInt n) = itoa n"
| "sprint ff (AnyUint w) = nat_digits (unat w)"
| "sprint ff (AnyFloat x) = ff x"
| "sprint ff (AnyStr s) = s"
| "sprint ff _ = []"

definition collect :: "(string \<times> 'a) list \<Rightarrow> (string \<times> 'a) list" where
  "collect kvs = fold (\<lambda>(k, v). AList.update k v) kvs []"

fun normalizeYAML :: "(f64 \<Rightarrow> string) \<Rightarrow> yaml_any \<Rightarrow> yaml_any" where
  "normalizeYAML ff (AnyMap kvs) = AnyMap (map (\<lambda>(k, v). (k, normalizeYAML ff v)) kvs)"
| "normalizeYAML ff (AnyMapAny kvs) = AnyMap (collect (map (\<lambda>(k, v). (sprint ff k, normalizeYAML ff v)) kvs))"
| "normalizeYAML ff (AnySeq xs) = AnySeq (map (normalizeYAML ff) xs)"
| "normalizeYAML ff v = v"

text \<open>\<open>json.Marshal\<close>: the keys of a map are sorted, other maps and non-finite floats are errors.\<close>

fun marshal_any :: "yaml_any \<Rightarrow> json option" where
  "marshal_any AnyNil = Some JNull"
| "marshal_any (AnyBool b) = Some (JBool b)"
| "marshal_any (AnyInt n) = Some (JInt n)"
| "marshal_any (AnyUint w) = Some (json_of_u64 w)"
| "marshal_any (AnyFloat x) = json_of_f64 x"
| "marshal_any (AnyStr s) = Some (JStr s)"
| "marshal_any (AnySeq xs) = map_option JArr (those (map marshal_any xs))"
| "marshal_any (AnyMap kvs) = map_option (\<lambda>vs. JObj (sort_key fst (zip (map fst kvs) vs)))
     (those (map (\<lambda>(k, v). marshal_any v) kvs))"
| "marshal_any (AnyMapAny kvs) = None"

section \<open>The structures of the format\<close>

record snapshot_mode =
  sm_rate :: rate
  sm_type :: string
  sm_total_pkts :: int
  sm_pkts_per_burst :: int
  sm_ibg :: f64
  sm_count :: int

record snapshot_flow =
  sf_enabled :: bool
  sf_stream_id :: int
  sf_rule_type :: string
  sf_vxlan :: bool
  sf_ieee1588 :: bool

record snapshot_vm =
  sv_instructions :: "json list"
  sv_cache :: "int option"

record snapshot_stream =
  sn_name :: string
  sn_next :: string
  sn_enabled :: bool
  sn_self_start :: bool
  sn_isg :: f64
  sn_flags :: int
  sn_core_id :: int
  sn_mode :: snapshot_mode
  sn_binary :: string
  sn_vm :: snapshot_vm
  sn_flow :: snapshot_flow

text \<open>A field that is a struct: its own fields, all zero when it is missing.\<close>

definition sub :: "string \<Rightarrow> (string \<times> json) list \<Rightarrow> (string \<times> json) list option" where
  "sub k kvs = (case jget k kvs of None \<Rightarrow> Some [] | Some j \<Rightarrow> as_obj j)"

definition dec_rate :: "(string \<times> json) list \<Rightarrow> rate option" where
  "dec_rate kvs = do {
     t \<leftarrow> dec_str (jget ''type'' kvs);
     v \<leftarrow> dec_f64 (jget ''value'' kvs);
     Some \<lparr>rate_type = t, rate_value = v\<rparr> }"

definition dec_mode :: "(string \<times> json) list \<Rightarrow> snapshot_mode option" where
  "dec_mode kvs = do {
     r \<leftarrow> sub ''rate'' kvs \<bind> dec_rate;
     t \<leftarrow> dec_str (jget ''type'' kvs);
     n \<leftarrow> dec_int (jget ''total_pkts'' kvs);
     b \<leftarrow> dec_int (jget ''pkts_per_burst'' kvs);
     g \<leftarrow> dec_f64 (jget ''ibg'' kvs);
     c \<leftarrow> dec_int (jget ''count'' kvs);
     Some \<lparr>sm_rate = r, sm_type = t, sm_total_pkts = n, sm_pkts_per_burst = b, sm_ibg = g, sm_count = c\<rparr> }"

definition dec_vm :: "(string \<times> json) list \<Rightarrow> snapshot_vm option" where
  "dec_vm kvs = do {
     is \<leftarrow> dec_list Some (jget ''instructions'' kvs);
     c \<leftarrow> dec_int_ptr (jget ''cache'' kvs);
     Some \<lparr>sv_instructions = is, sv_cache = c\<rparr> }"

definition dec_flow :: "(string \<times> json) list \<Rightarrow> snapshot_flow option" where
  "dec_flow kvs = do {
     e \<leftarrow> dec_bool (jget ''enabled'' kvs);
     i \<leftarrow> dec_int (jget ''stream_id'' kvs);
     t \<leftarrow> dec_str (jget ''rule_type'' kvs);
     x \<leftarrow> dec_bool (jget ''vxlan'' kvs);
     p \<leftarrow> dec_bool (jget ''ieee_1588'' kvs);
     Some \<lparr>sf_enabled = e, sf_stream_id = i, sf_rule_type = t, sf_vxlan = x, sf_ieee1588 = p\<rparr> }"

definition dec_fields :: "(string \<times> json) list \<Rightarrow> snapshot_stream option" where
  "dec_fields kvs = do {
     name \<leftarrow> dec_str (jget ''name'' kvs);
     nxt \<leftarrow> dec_str (jget ''next'' kvs);
     en \<leftarrow> dec_bool (jget ''enabled'' kvs);
     st \<leftarrow> dec_bool (jget ''self_start'' kvs);
     isg \<leftarrow> dec_f64 (jget ''isg'' kvs);
     fl \<leftarrow> dec_int (jget ''flags'' kvs);
     core \<leftarrow> dec_int (jget ''core_id'' kvs);
     md \<leftarrow> sub ''mode'' kvs \<bind> dec_mode;
     bin \<leftarrow> sub ''packet'' kvs \<bind> (\<lambda>p. dec_str (jget ''binary'' p));
     v \<leftarrow> sub ''vm'' kvs \<bind> dec_vm;
     fs \<leftarrow> sub ''flow_stats'' kvs \<bind> dec_flow;
     Some \<lparr>sn_name = name, sn_next = nxt, sn_enabled = en, sn_self_start = st, sn_isg = isg, sn_flags = fl,
       sn_core_id = core, sn_mode = md, sn_binary = bin, sn_vm = v, sn_flow = fs\<rparr> }"

definition dec_snapshot :: "json \<Rightarrow> snapshot_stream option" where
  "dec_snapshot j = as_obj j \<bind> dec_fields"

section \<open>Streams\<close>

definition toMode :: "snapshot_mode \<Rightarrow> tx_mode" where
  "toMode m =
     (if sm_type m = ModeSingleBurst then SingleBurst (sm_rate m) (sm_total_pkts m)
      else if sm_type m = ModeMultiBurst then MultiBurst (sm_rate m) (sm_pkts_per_burst m) (sm_ibg m) (sm_count m)
      else Continuous (sm_rate m))"

datatype snapshot_error =
    SnapParse string
  | SnapMarshal
  | SnapDecode nat
  | SnapBase64 nat string
  | SnapPacket nat string packet_error

definition toStream :: "'l gopacket \<Rightarrow> nat \<Rightarrow> snapshot_stream \<Rightarrow> snapshot_error + stream" where
  "toStream gp i s = (case b64_decode (sn_binary s) of
      None \<Rightarrow> Inl (SnapBase64 i (sn_name s))
    | Some bin \<Rightarrow>
        bind_res (map_err (SnapPacket i (sn_name s)) (RawPacket gp bin)) (\<lambda>pkt.
          Inr \<lparr>st_name = sn_name s, st_next = sn_next s, st_packet = Some pkt, st_mode = toMode (sn_mode s),
            st_vm = \<lparr>vm_instructions = Some (map (\<lambda>raw. IRaw (RawJson raw)) (sv_instructions (sn_vm s))),
              vm_cache = sv_cache (sn_vm s)\<rparr>,
            st_stats = (if sf_enabled (sn_flow s)
              then \<lparr>fs_enabled = True, fs_pgid = sf_stream_id (sn_flow s), fs_rule_type = sf_rule_type (sn_flow s),
                fs_vxlan = sf_vxlan (sn_flow s), fs_ieee1588 = sf_ieee1588 (sn_flow s)\<rparr>
              else zero_flow_stats),
            st_enabled = sn_enabled s, st_self_start = sn_self_start s, st_start_paused = False,
            st_isg = sn_isg s, st_core_id = sn_core_id s, st_action_count = 0, st_random_seed = 0,
            st_mac_src_override = False, st_mac_dst_mode = 0, st_dummy = False, st_stream_id = None,
            st_direction = None\<rparr>))"

text \<open>
  The body of the loop: the name, the next reference and the \<open>stream\<close> member are looked up first,
  a null member being no member.
\<close>

definition load_item :: "'l gopacket \<Rightarrow> nat \<Rightarrow> json \<Rightarrow> snapshot_error + stream" where
  "load_item gp i item = (case do {
        kvs \<leftarrow> as_obj item;
        name \<leftarrow> dec_str (jget ''name'' kvs);
        nxt \<leftarrow> dec_str (jget ''next'' kvs);
        s \<leftarrow> dec_snapshot (case jget ''stream'' kvs of None \<Rightarrow> item | Some JNull \<Rightarrow> item | Some body \<Rightarrow> body);
        Some (s\<lparr>sn_name := (if sn_name s = [] then name else sn_name s),
                sn_next := (if sn_next s = [] then nxt else sn_next s)\<rparr>) } of
      None \<Rightarrow> Inl (SnapDecode i)
    | Some s \<Rightarrow> toStream gp i s)"

record snapshot_env =
  ss_yaml :: "string \<Rightarrow> string + yaml_any list"
  ss_float :: "f64 \<Rightarrow> string"

definition yamlToJSONList :: "snapshot_env \<Rightarrow> string \<Rightarrow> snapshot_error + json list" where
  "yamlToJSONList env raw =
     bind_res (map_err SnapParse (ss_yaml env raw)) (\<lambda>generic.
       traverse (\<lambda>_ item. case marshal_any (normalizeYAML (ss_float env) item) of
           None \<Rightarrow> Inl SnapMarshal | Some b \<Rightarrow> Inr b) 0 generic)"

definition LoadSnapshot :: "snapshot_env \<Rightarrow> 'l gopacket \<Rightarrow> string \<Rightarrow> snapshot_error + profile" where
  "LoadSnapshot env gp raw = bind_res (yamlToJSONList env raw) (\<lambda>top. traverse (load_item gp) 0 top)"

section \<open>Objects with sorted keys\<close>

fun canon :: "json \<Rightarrow> json" where
  "canon (JArr xs) = JArr (map canon xs)"
| "canon (JObj kvs) = JObj (sort_key fst (map (\<lambda>(k, v). (k, canon v)) kvs))"
| "canon v = v"

lemma map_of_mset:
  assumes "mset xs = mset ys" "distinct (map fst xs)"
  shows "map_of xs k = map_of ys k"
proof -
  have "mset (map fst xs) = mset (map fst ys)"
    using assms(1) by simp
  with assms(2) have ys: "distinct (map fst ys)"
    by (metis mset_eq_imp_distinct_iff)
  have "set xs = set ys"
    using assms(1) by (rule mset_eq_setD)
  then have "map_of xs k = Some v \<longleftrightarrow> map_of ys k = Some v" for v
    using assms(2) ys by (simp add: map_of_eq_Some_iff)
  then show ?thesis
    by (metis not_Some_eq)
qed

definition folded_keys :: "(string \<times> 'a) list \<Rightarrow> string list" where
  "folded_keys kvs = map (\<lambda>kv. fold_key (fst kv)) kvs"

lemma jget_mset:
  assumes "mset xs = mset ys" "distinct (folded_keys xs)"
  shows "jget k xs = jget k ys"
proof -
  let ?f = "\<lambda>(n :: string, v :: json). (fold_key n, v)"
  have "map fst (map ?f xs) = folded_keys xs"
    by (simp add: folded_keys_def case_prod_beta comp_def)
  then show ?thesis
    unfolding jget_def using assms
    by (intro map_of_mset) (simp_all add: rev_map [symmetric] flip: mset_map, metis mset_map)
qed

lemma jget_map: "jget k (map (\<lambda>(n, v). (n, g v)) kvs) = map_option g (jget k kvs)"
  by (induction kvs) (auto simp: jget_Cons split: option.splits)

lemma jget_canon:
  assumes "canon (JObj kvs) = JObj kvs'" "distinct (folded_keys kvs)"
  shows "jget k kvs' = map_option canon (jget k kvs)"
proof -
  let ?m = "map (\<lambda>(n, v). (n, canon v)) kvs"
  have "distinct (folded_keys ?m)"
    using assms(2) by (simp add: folded_keys_def case_prod_beta comp_def)
  moreover have "kvs' = sort_key fst ?m"
    using assms(1) by simp
  ultimately have "jget k kvs' = jget k ?m"
    by (metis jget_mset mset_sort)
  then show ?thesis
    by (simp add: jget_map)
qed

lemma sort_key_sorted: "sort_key f (sort_key f xs) = sort_key f xs"
  by (rule sort_key_id_if_sorted) simp

lemma canon_canon [simp]: "canon (canon j) = canon j"
proof (induction j rule: canon.induct)
  case (2 kvs)
  have "map (\<lambda>(k, v). (k, canon v)) (sort_key fst (map (\<lambda>(k, v). (k, canon v)) kvs)) =
      sort_key fst (map (\<lambda>(k, v). (k, canon v)) kvs)"
    using 2 by (intro map_idI) force
  then show ?case
    by (simp add: sort_key_sorted)
qed auto

section \<open>Reading wire objects back\<close>

lemma fold_keys:
  "fold_key ''flags'' = ''flags''"
  "fold_key ''action_count'' = ''action_count''"
  "fold_key ''enabled'' = ''enabled''"
  "fold_key ''self_start'' = ''self_start''"
  "fold_key ''start_paused'' = ''start_paused''"
  "fold_key ''isg'' = ''isg''"
  "fold_key ''core_id'' = ''core_id''"
  "fold_key ''random_seed'' = ''random_seed''"
  "fold_key ''mode'' = ''mode''"
  "fold_key ''packet'' = ''packet''"
  "fold_key ''vm'' = ''vm''"
  "fold_key ''flow_stats'' = ''flow_stats''"
  "fold_key ''name'' = ''name''"
  "fold_key ''next'' = ''next''"
  "fold_key ''next_stream_id'' = ''next_stream_id''"
  "fold_key ''binary'' = ''binary''"
  "fold_key ''meta'' = ''meta''"
  "fold_key ''rate'' = ''rate''"
  "fold_key ''type'' = ''type''"
  "fold_key ''value'' = ''value''"
  "fold_key ''total_pkts'' = ''total_pkts''"
  "fold_key ''pkts_per_burst'' = ''pkts_per_burst''"
  "fold_key ''ibg'' = ''ibg''"
  "fold_key ''count'' = ''count''"
  "fold_key ''instructions'' = ''instructions''"
  "fold_key ''cache'' = ''cache''"
  "fold_key ''stream_id'' = ''stream_id''"
  "fold_key ''vxlan'' = ''vxlan''"
  "fold_key ''ieee_1588'' = ''ieee_1588''"
  "fold_key ''rule_type'' = ''rule_type''"
  "fold_key ''stream'' = ''stream''"
  by code_simp+

lemmas jget_eval = jget_append jget_Cons fold_keys opt_field_def str_field_def

definition reads :: "((string \<times> json) list \<Rightarrow> 'a option) \<Rightarrow> json \<Rightarrow> 'a \<Rightarrow> bool" where
  "reads f j x \<longleftrightarrow> Option.bind (as_obj (canon j)) f = Some x"

lemma reads_JObj:
  assumes "distinct (folded_keys kvs)"
    and "\<And>kvs'. (\<And>k. jget k kvs' = map_option canon (jget k kvs)) \<Longrightarrow> f kvs' = Some x"
  shows "reads f (JObj kvs) x"
proof -
  obtain kvs' where kvs': "canon (JObj kvs) = JObj kvs'" by simp
  then have "f kvs' = Some x"
    using assms(2) jget_canon [OF kvs' assms(1)] by blast
  then show ?thesis
    by (simp only: reads_def kvs') (simp add: as_obj_def)
qed

lemma sub_reads: "jget k kvs' = Some (canon j) \<Longrightarrow> reads f j x \<Longrightarrow> Option.bind (sub k kvs') f = Some x"
  by (simp add: sub_def reads_def)

lemma canon_number: "json_of_f64 v = Some j \<Longrightarrow> canon j = j"
  by (auto simp: json_of_f64_def split: f64.splits if_splits)

lemma dec_f64_canon: "json_of_f64 v = Some j \<Longrightarrow> f64_ok v \<Longrightarrow> dec_f64 (Some (canon j)) = Some v"
  by (simp add: canon_number dec_f64_json_of_f64)

lemma dec_simps [simp]:
  "dec_str (Some (JStr s)) = Some s" "dec_bool (Some (JBool b)) = Some b"
  "int64_range n \<Longrightarrow> dec_int (Some (JInt n)) = Some n"
  "dec_str None = Some []" "dec_bool None = Some False" "dec_int None = Some 0" "dec_f64 None = Some (Fin 0)"
  by (simp_all add: dec_str_def dec_bool_def dec_int_def dec_f64_def)

lemma rate_reads:
  assumes "rate_json r = Some j" "f64_ok (rate_value r)"
  shows "reads dec_rate j r"
proof -
  obtain v where v: "json_of_f64 (rate_value r) = Some v" and j: "j = JObj [(''type'', JStr (rate_type r)), (''value'', v)]"
    using assms(1) by (auto simp: rate_json_def)
  show ?thesis
    unfolding j
    by (rule reads_JObj) (simp_all add: folded_keys_def jget_eval dec_rate_def dec_f64_canon [OF v assms(2)])
qed

text \<open>A mode as the constructors build it, with numbers that Go can hold.\<close>

definition mode_fit :: "tx_mode \<Rightarrow> bool" where
  "mode_fit m \<longleftrightarrow> mode_wf m \<and> f64_ok (rate_value (mode_rate m)) \<and>
     (case mode_ibg m of None \<Rightarrow> True | Some g \<Rightarrow> f64_ok g) \<and>
     (\<forall>n \<in> set_option (mode_total_pkts m) \<union> set_option (mode_pkts_per_burst m) \<union> set_option (mode_count m). int64_range n)"

definition snapshot_mode_of :: "tx_mode \<Rightarrow> snapshot_mode" where
  "snapshot_mode_of m = \<lparr>sm_rate = mode_rate m, sm_type = mode_type m,
     sm_total_pkts = (case mode_total_pkts m of None \<Rightarrow> 0 | Some n \<Rightarrow> n),
     sm_pkts_per_burst = (case mode_pkts_per_burst m of None \<Rightarrow> 0 | Some n \<Rightarrow> n),
     sm_ibg = (case mode_ibg m of None \<Rightarrow> Fin 0 | Some g \<Rightarrow> g),
     sm_count = (case mode_count m of None \<Rightarrow> 0 | Some n \<Rightarrow> n)\<rparr>"

lemma toMode_snapshot: "mode_wf m \<Longrightarrow> toMode (snapshot_mode_of m) = m"
  by (cases m) (auto simp: mode_wf_def toMode_def snapshot_mode_of_def SingleBurst_def MultiBurst_def Continuous_def
      mode_consts)

lemma mode_reads:
  assumes "mode_json m = Some j" "mode_fit m"
  shows "reads dec_mode j (snapshot_mode_of m)"
proof -
  obtain r where r: "rate_json (mode_rate m) = Some r"
    using assms(1) by (auto simp: mode_json_def split: option.splits)
  obtain ibg where ibg: "(case mode_ibg m of None \<Rightarrow> Some [] | Some g \<Rightarrow> map_option (\<lambda>v. [(''ibg'', v)]) (json_of_f64 g)) = Some ibg"
    using assms(1) r by (auto simp: mode_json_def split: option.splits)
  let ?kvs = "[(''rate'', r), (''type'', JStr (mode_type m))]
          @ opt_field ''total_pkts'' JInt (mode_total_pkts m)
          @ opt_field ''pkts_per_burst'' JInt (mode_pkts_per_burst m)
          @ ibg @ opt_field ''count'' JInt (mode_count m)"
  have j: "j = JObj ?kvs"
    using assms(1) r ibg by (simp add: mode_json_def)
  have rate: "reads dec_rate r (mode_rate m)"
    using rate_reads [OF r] assms(2) by (simp add: mode_fit_def)
  have ints: "int64_range n" if "n \<in> set_option (mode_total_pkts m) \<union> set_option (mode_pkts_per_burst m) \<union> set_option (mode_count m)" for n
    using that assms(2) by (simp add: mode_fit_def)
  have g: "mode_ibg m = None \<and> ibg = [] \<or> (\<exists>g v. mode_ibg m = Some g \<and> ibg = [(''ibg'', v)] \<and> dec_f64 (Some (canon v)) = Some g)"
    using ibg assms(2) by (auto simp: mode_fit_def dec_f64_canon split: option.splits)
  show ?thesis
    unfolding j
  proof (rule reads_JObj)
    show "distinct (folded_keys ?kvs)"
      using g by (auto simp: folded_keys_def opt_field_def fold_keys split: option.splits)
    fix kvs' assume k: "\<And>k. jget k kvs' = map_option canon (jget k ?kvs)"
    have "jget ''rate'' kvs' = Some (canon r)"
      using k [of "''rate''"] g by (auto simp: jget_eval split: option.splits)
    note rt = sub_reads [OF this rate]
    have ty: "jget ''type'' kvs' = Some (JStr (mode_type m))"
      using k [of "''type''"] g by (auto simp: jget_eval split: option.splits)
    have tp: "jget ''total_pkts'' kvs' = map_option JInt (mode_total_pkts m)"
      using k [of "''total_pkts''"] g by (auto simp: jget_eval split: option.splits)
    have pp: "jget ''pkts_per_burst'' kvs' = map_option JInt (mode_pkts_per_burst m)"
      using k [of "''pkts_per_burst''"] g by (auto simp: jget_eval split: option.splits)
    have ct: "jget ''count'' kvs' = map_option JInt (mode_count m)"
      using k [of "''count''"] g by (auto simp: jget_eval split: option.splits)
    have ib: "dec_f64 (jget ''ibg'' kvs') = Some (case mode_ibg m of None \<Rightarrow> Fin 0 | Some g \<Rightarrow> g)"
      using k [of "''ibg''"] g by (auto simp: jget_eval split: option.splits)
    have di: "dec_int (map_option JInt x) = Some (case x of None \<Rightarrow> 0 | Some n \<Rightarrow> n)" if "\<And>n. x = Some n \<Longrightarrow> int64_range n" for x
      using that by (cases x) simp_all
    show "dec_mode kvs' = Some (snapshot_mode_of m)"
      unfolding dec_mode_def ty tp pp ct
      by (simp add: rt ib di ints snapshot_mode_of_def)
  qed
qed

lemma dec_int_option [simp]:
  "\<forall>n. x = Some n \<longrightarrow> int64_range n \<Longrightarrow> dec_int_ptr (map_option JInt x) = Some x"
  by (cases x) (simp_all add: dec_int_ptr_def dec_int_def)

lemma dec_all_Some [simp]: "dec_all Some xs = Some xs"
  by (induction xs) auto

lemma vm_reads:
  assumes "instructions_json is = Some js" "\<forall>n. c = Some n \<longrightarrow> int64_range n"
  shows "reads dec_vm (JObj ((''instructions'', JArr js) # opt_field ''cache'' JInt c))
    \<lparr>sv_instructions = map canon js, sv_cache = c\<rparr>"
proof (rule reads_JObj)
  show "distinct (folded_keys ((''instructions'', JArr js) # opt_field ''cache'' JInt c))"
    by (auto simp: folded_keys_def opt_field_def fold_keys split: option.splits)
  fix kvs' assume k: "\<And>k. jget k kvs' = map_option canon (jget k ((''instructions'', JArr js) # opt_field ''cache'' JInt c))"
  have "jget ''instructions'' kvs' = Some (JArr (map canon js))"
    using k [of "''instructions''"] by (auto simp: jget_eval split: option.splits)
  moreover have "jget ''cache'' kvs' = map_option JInt c"
    using k [of "''cache''"] by (auto simp: jget_eval split: option.splits)
  ultimately show "dec_vm kvs' = Some \<lparr>sv_instructions = map canon js, sv_cache = c\<rparr>"
    using assms(2) by (simp add: dec_vm_def dec_list_def)
qed

definition snapshot_flow_of :: "flow_stats \<Rightarrow> snapshot_flow" where
  "snapshot_flow_of f =
     (if fs_enabled f then \<lparr>sf_enabled = True, sf_stream_id = fs_pgid f, sf_rule_type = fs_rule_type f,
        sf_vxlan = fs_vxlan f, sf_ieee1588 = fs_ieee1588 f\<rparr>
      else \<lparr>sf_enabled = False, sf_stream_id = 0, sf_rule_type = [], sf_vxlan = False, sf_ieee1588 = False\<rparr>)"

lemma flow_reads:
  assumes "fs_enabled f \<longrightarrow> int64_range (fs_pgid f)"
  shows "reads dec_flow (FlowStats_MarshalJSON f) (snapshot_flow_of f)"
  using assms
  by (cases "fs_enabled f")
    (auto simp: FlowStats_MarshalJSON_def snapshot_flow_of_def folded_keys_def fold_keys jget_Cons dec_flow_def
      intro!: reads_JObj)

lemma packet_reads: "reads (\<lambda>p. dec_str (jget ''binary'' p)) (JObj [(''binary'', JStr b), (''meta'', JStr m)]) b"
  by (rule reads_JObj) (simp_all add: folded_keys_def fold_keys jget_Cons)

lemma snapshot_flags_range: "int64_range (flags s)"
proof -
  have "st_mac_dst_mode s AND 3 = take_bit 2 (st_mac_dst_mode s)"
    by (simp add: take_bit_eq_mask mask_eq_exp_minus_1)
  also have "\<dots> = st_mac_dst_mode s mod 4"
    by (simp add: take_bit_eq_mod)
  finally have "st_mac_dst_mode s AND 3 = st_mac_dst_mode s mod 4" .
  moreover have "st_mac_dst_mode s mod 4 \<in> {0, 1, 2, 3}"
    by (simp only: insert_iff empty_iff) presburger
  ultimately obtain x where x: "st_mac_dst_mode s AND 3 = x" "x \<in> {0, 1, 2, 3}"
    by auto
  show ?thesis
    using x(2) unfolding flags_def x(1) by (auto simp: int64_range_def Let_def)
qed

text \<open>The members of a wire object.\<close>

definition wire_fields :: "stream \<Rightarrow> packet \<Rightarrow> int \<Rightarrow> json \<Rightarrow> json \<Rightarrow> json list \<Rightarrow> (string \<times> json) list" where
  "wire_fields s pkt nextID isg md js =
     [(''flags'', JInt (flags s)), (''action_count'', JInt (st_action_count s)),
      (''enabled'', JBool (st_enabled s)), (''self_start'', JBool (st_self_start s)),
      (''start_paused'', JBool (st_start_paused s)), (''isg'', isg), (''core_id'', JInt (st_core_id s))]
     @ (if st_random_seed s \<noteq> 0 then [(''random_seed'', JInt (st_random_seed s))] else [])
     @ [(''mode'', md),
        (''packet'', JObj [(''binary'', JStr (Base64 pkt)), (''meta'', JStr [])]),
        (''vm'', JObj ((''instructions'', JArr js) # opt_field ''cache'' JInt (vm_cache (st_vm s)))),
        (''flow_stats'', FlowStats_MarshalJSON (st_stats s))]
     @ str_field ''name'' (st_name s) @ str_field ''next'' (st_next s)
     @ [(''next_stream_id'', JInt nextID)]"

definition instructions_of :: "vm \<Rightarrow> vm_instruction list" where
  "instructions_of v = (case vm_instructions v of None \<Rightarrow> [] | Some is \<Rightarrow> is)"

lemma wire_stream_eq_Some:
  "wire_stream s pkt nextID = Some j \<longleftrightarrow> (\<exists>isg md js. json_of_f64 (st_isg s) = Some isg \<and>
     mode_json (st_mode s) = Some md \<and> instructions_json (instructions_of (st_vm s)) = Some js \<and>
     j = JObj (wire_fields s pkt nextID isg md js))"
  by (cases "vm_instructions (st_vm s)"; cases "json_of_f64 (st_isg s)"; cases "mode_json (st_mode s)")
    (auto simp: wire_stream_def vm_json_def instructions_of_def wire_fields_def Let_def split: option.splits
      simp del: json_of_f64_None)

lemma wire_keys: "distinct (folded_keys (wire_fields s pkt nextID isg md js))"
  by (auto simp: folded_keys_def wire_fields_def str_field_def fold_keys)

lemma wire_jget:
  "jget ''flags'' (wire_fields s pkt nextID isg md js) = Some (JInt (flags s))"
  "jget ''enabled'' (wire_fields s pkt nextID isg md js) = Some (JBool (st_enabled s))"
  "jget ''self_start'' (wire_fields s pkt nextID isg md js) = Some (JBool (st_self_start s))"
  "jget ''isg'' (wire_fields s pkt nextID isg md js) = Some isg"
  "jget ''core_id'' (wire_fields s pkt nextID isg md js) = Some (JInt (st_core_id s))"
  "jget ''mode'' (wire_fields s pkt nextID isg md js) = Some md"
  "jget ''packet'' (wire_fields s pkt nextID isg md js) = Some (JObj [(''binary'', JStr (Base64 pkt)), (''meta'', JStr [])])"
  "jget ''vm'' (wire_fields s pkt nextID isg md js) =
     Some (JObj ((''instructions'', JArr js) # opt_field ''cache'' JInt (vm_cache (st_vm s))))"
  "jget ''flow_stats'' (wire_fields s pkt nextID isg md js) = Some (FlowStats_MarshalJSON (st_stats s))"
  "jget ''stream'' (wire_fields s pkt nextID isg md js) = None"
  "dec_str (map_option canon (jget ''name'' (wire_fields s pkt nextID isg md js))) = Some (st_name s)"
  "dec_str (map_option canon (jget ''next'' (wire_fields s pkt nextID isg md js))) = Some (st_next s)"
  unfolding wire_fields_def by (simp_all add: jget_append jget_Cons fold_keys str_field_def)

text \<open>The streams whose numbers Go can hold, and what reading their wire object back gives.\<close>

definition stream_fit :: "stream \<Rightarrow> bool" where
  "stream_fit s \<longleftrightarrow> mode_fit (st_mode s) \<and> f64_ok (st_isg s) \<and> int64_range (st_core_id s) \<and>
     (\<forall>n. vm_cache (st_vm s) = Some n \<longrightarrow> int64_range n) \<and>
     (fs_enabled (st_stats s) \<longrightarrow> int64_range (fs_pgid (st_stats s)))"

definition reloaded :: "stream \<Rightarrow> packet \<Rightarrow> json list \<Rightarrow> stream" where
  "reloaded s pkt js = \<lparr>st_name = st_name s, st_next = st_next s, st_packet = Some pkt, st_mode = st_mode s,
     st_vm = \<lparr>vm_instructions = Some (map (\<lambda>raw. IRaw (RawJson raw)) js), vm_cache = vm_cache (st_vm s)\<rparr>,
     st_stats = (if fs_enabled (st_stats s) then st_stats s else zero_flow_stats),
     st_enabled = st_enabled s, st_self_start = st_self_start s, st_start_paused = False, st_isg = st_isg s,
     st_core_id = st_core_id s, st_action_count = 0, st_random_seed = 0, st_mac_src_override = False,
     st_mac_dst_mode = 0, st_dummy = False, st_stream_id = None, st_direction = None\<rparr>"

lemma fields_read:
  assumes "json_of_f64 (st_isg s) = Some isg" "mode_json (st_mode s) = Some md"
    and "instructions_json (instructions_of (st_vm s)) = Some js" "stream_fit s"
    and k: "\<And>k. jget k kvs' = map_option canon (jget k (wire_fields s pkt n isg md js))"
  shows "dec_fields kvs' = Some \<lparr>sn_name = st_name s, sn_next = st_next s, sn_enabled = st_enabled s,
    sn_self_start = st_self_start s, sn_isg = st_isg s, sn_flags = flags s, sn_core_id = st_core_id s,
    sn_mode = snapshot_mode_of (st_mode s), sn_binary = Base64 pkt,
    sn_vm = \<lparr>sv_instructions = map canon js, sv_cache = vm_cache (st_vm s)\<rparr>, sn_flow = snapshot_flow_of (st_stats s)\<rparr>"
proof -
  note fit = assms(4) [unfolded stream_fit_def]
  have "dec_f64 (Some (canon isg)) = Some (st_isg s)"
    using assms(1) fit by (intro dec_f64_canon) simp_all
  moreover have "Option.bind (sub ''mode'' kvs') dec_mode = Some (snapshot_mode_of (st_mode s))"
    by (rule sub_reads [where j = md]) (use mode_reads [OF assms(2)] fit in \<open>simp_all add: k wire_jget\<close>)
  moreover have "Option.bind (sub ''packet'' kvs') (\<lambda>p. dec_str (jget ''binary'' p)) = Some (Base64 pkt)"
    by (rule sub_reads [OF _ packet_reads]) (simp only: k wire_jget option.map)
  moreover have "Option.bind (sub ''vm'' kvs') dec_vm = Some \<lparr>sv_instructions = map canon js, sv_cache = vm_cache (st_vm s)\<rparr>"
  proof (rule sub_reads)
    show "jget ''vm'' kvs' = Some (canon (JObj ((''instructions'', JArr js) # opt_field ''cache'' JInt (vm_cache (st_vm s)))))"
      by (simp only: k wire_jget option.map)
  qed (use vm_reads [OF assms(3)] fit in simp)
  moreover have "Option.bind (sub ''flow_stats'' kvs') dec_flow = Some (snapshot_flow_of (st_stats s))"
  proof (rule sub_reads)
    show "jget ''flow_stats'' kvs' = Some (canon (FlowStats_MarshalJSON (st_stats s)))"
      by (simp only: k wire_jget option.map)
  qed (use flow_reads fit in simp)
  ultimately show ?thesis
    using fit snapshot_flags_range [of s] by (simp add: dec_fields_def k wire_jget)
qed

lemma load_wire:
  assumes "wire_stream s pkt n = Some j" "stream_fit s" "RawPacket gp (pkt_binary pkt) = Inr pkt'"
  shows "\<exists>js. instructions_json (instructions_of (st_vm s)) = Some js \<and>
    load_item gp i (canon j) = Inr (reloaded s pkt' (map canon js))"
proof -
  obtain isg md js where w: "json_of_f64 (st_isg s) = Some isg" "mode_json (st_mode s) = Some md"
    "instructions_json (instructions_of (st_vm s)) = Some js" and j: "j = JObj (wire_fields s pkt n isg md js)"
    using assms(1) by (auto simp: wire_stream_eq_Some)
  obtain kvs' where kvs': "canon (JObj (wire_fields s pkt n isg md js)) = JObj kvs'" by simp
  note k = jget_canon [OF kvs' wire_keys]
  have "mode_wf (st_mode s)"
    using assms(2) by (simp add: stream_fit_def mode_fit_def)
  then have "load_item gp i (JObj kvs') = Inr (reloaded s pkt' (map canon js))"
    using assms(3)
    by (simp add: load_item_def as_obj_def dec_snapshot_def fields_read [OF w assms(2) k] k wire_jget toStream_def
        reloaded_def Base64_def toMode_snapshot snapshot_flow_of_def)
  then show ?thesis
    using w(3) j kvs' by simp
qed

text \<open>Marshalling what was read back: the same object, but for the order of keys.\<close>

definition lossless :: "stream \<Rightarrow> bool" where
  "lossless s \<longleftrightarrow> flags s = 0 \<and> st_action_count s = 0 \<and> \<not> st_start_paused s \<and> st_random_seed s = 0"

lemma raw_json: "instructions_json (map (\<lambda>raw. IRaw (RawJson raw)) js) = Some js"
  by (induction js) (auto simp: RawInstruction_MarshalJSON_def)

lemma flow_json_reloaded:
  "FlowStats_MarshalJSON (if fs_enabled f then f else zero_flow_stats) = FlowStats_MarshalJSON f"
  by (simp add: FlowStats_MarshalJSON_def zero_flow_stats_def)

lemma canon_cong: "map (\<lambda>(k, v). (k, canon v)) xs = map (\<lambda>(k, v). (k, canon v)) ys \<Longrightarrow> canon (JObj xs) = canon (JObj ys)"
  by simp

lemma wire_reloaded:
  assumes "wire_stream s pkt n = Some j" "pkt_binary pkt' = pkt_binary pkt"
    and "instructions_json (instructions_of (st_vm s)) = Some js"
  shows "\<exists>j'. wire_stream (reloaded s pkt' (map canon js)) pkt' n = Some j' \<and> (lossless s \<longrightarrow> canon j' = canon j)"
proof -
  obtain isg md where w: "json_of_f64 (st_isg s) = Some isg" "mode_json (st_mode s) = Some md"
    and j: "j = JObj (wire_fields s pkt n isg md js)"
    using assms(1,3) by (auto simp: wire_stream_eq_Some)
  let ?s = "reloaded s pkt' (map canon js)"
  have "wire_stream ?s pkt' n = Some (JObj (wire_fields ?s pkt' n isg md (map canon js)))"
    unfolding wire_stream_eq_Some
    by (intro exI conjI refl) (simp_all add: reloaded_def w instructions_of_def raw_json del: map_map)
  moreover have "canon (JObj (wire_fields ?s pkt' n isg md (map canon js))) = canon (JObj (wire_fields s pkt n isg md js))"
    if "lossless s"
  proof (rule canon_cong)
    have "flags ?s = 0"
      by (simp add: reloaded_def flags_def)
    moreover have "canon (JObj ((''instructions'', JArr (map canon js)) # c)) = canon (JObj ((''instructions'', JArr js) # c))" for c
      by (simp add: comp_def)
    ultimately show "map (\<lambda>(k, v). (k, canon v)) (wire_fields ?s pkt' n isg md (map canon js)) =
        map (\<lambda>(k, v). (k, canon v)) (wire_fields s pkt n isg md js)"
      using that unfolding wire_fields_def lossless_def
      by (simp only: map_append list.map case_prod_conv)
        (simp add: reloaded_def flow_json_reloaded Base64_def assms(2))
  qed
  ultimately show ?thesis
    using j by blast
qed

section \<open>JSON documents read as YAML\<close>

text \<open>The value a YAML decoder gives for a JSON document, and the documents it reads exactly.\<close>

fun any_of :: "json \<Rightarrow> yaml_any" where
  "any_of JNull = AnyNil"
| "any_of (JBool b) = AnyBool b"
| "any_of (JInt n) = (if int64_range n then AnyInt n
     else if 0 \<le> n \<and> n < 2 ^ 64 then AnyUint (word_of_int n) else AnyFloat (fl (of_int n)))"
| "any_of (JDec q) = AnyFloat (fl q)"
| "any_of (JStr s) = AnyStr s"
| "any_of (JArr xs) = AnySeq (map any_of xs)"
| "any_of (JObj kvs) = AnyMap (map (\<lambda>(k, v). (k, any_of v)) kvs)"

fun yaml_exact :: "json \<Rightarrow> bool" where
  "yaml_exact (JInt n) \<longleftrightarrow> int64_range n \<or> 0 \<le> n \<and> n < 2 ^ 64 \<or> json_of_f64 (fl (of_int n)) = Some (JInt n)"
| "yaml_exact (JDec q) \<longleftrightarrow> json_of_f64 (fl q) = Some (JDec q)"
| "yaml_exact (JArr xs) \<longleftrightarrow> list_all yaml_exact xs"
| "yaml_exact (JObj kvs) \<longleftrightarrow> list_all (\<lambda>(k, v). yaml_exact v) kvs"
| "yaml_exact _ \<longleftrightarrow> True"

lemma those_map: "(\<And>x. x \<in> set xs \<Longrightarrow> f x = Some (g x)) \<Longrightarrow> those (map f xs) = Some (map g xs)"
  by (induction xs) auto

lemma marshal_any_of: "yaml_exact j \<Longrightarrow> marshal_any (normalizeYAML ff (any_of j)) = Some (canon j)"
proof (induction j rule: canon.induct)
  case (1 xs)
  have "those (map (\<lambda>x. marshal_any (normalizeYAML ff (any_of x))) xs) = Some (map canon xs)"
    by (rule those_map) (use 1 in \<open>auto simp: list_all_iff\<close>)
  then show ?case
    by (simp add: comp_def)
next
  case (2 kvs)
  have "those (map (\<lambda>x. marshal_any (normalizeYAML ff (any_of (snd x)))) kvs) = Some (map (\<lambda>x. canon (snd x)) kvs)"
    by (rule those_map) (use 2 in \<open>force simp: list_all_iff\<close>)
  moreover have "zip (map fst kvs) (map (\<lambda>x. canon (snd x)) kvs) = map (\<lambda>x. (fst x, canon (snd x))) kvs"
    by (induction kvs) auto
  ultimately show ?case
    by (simp add: comp_def case_prod_unfold)
qed (auto simp: json_of_u64_def uint_word_of_int take_bit_int_eq_self)

lemma yamlToJSONList_documents:
  assumes "ss_yaml env raw = Inr (map any_of js)" "list_all yaml_exact js"
  shows "yamlToJSONList env raw = Inr (map canon js)"
proof -
  have "traverse (\<lambda>_ item. case marshal_any (normalizeYAML (ss_float env) item) of
      None \<Rightarrow> Inl SnapMarshal | Some b \<Rightarrow> Inr b) i (map any_of js) = Inr (map canon js)" for i
    using assms(2) by (induction js arbitrary: i) (simp_all add: marshal_any_of)
  then show ?thesis
    by (simp add: yamlToJSONList_def assms(1))
qed

section \<open>Resolving a profile that was read back\<close>

lemma traverse_exists:
  assumes "\<And>i. i < length xs \<Longrightarrow> \<exists>y. f i (xs ! i) = Inr y \<and> P i y"
  shows "\<exists>ys. traverse f 0 xs = Inr ys \<and> length ys = length xs \<and> (\<forall>i < length xs. P i (ys ! i))"
proof -
  have "\<not> isl (traverse f 0 xs)"
    using assms by (fastforce simp: traverse_isl)
  then obtain ys where ys: "traverse f 0 xs = Inr ys"
    by (cases "traverse f 0 xs") auto
  have "P i (ys ! i)" if "i < length xs" for i
    using assms [OF that] traverse_nth [OF ys that] by auto
  with ys traverse_length [OF ys] show ?thesis by blast
qed

lemma allocate_cong:
  "map (\<lambda>s. (st_name s, st_stream_id s)) p = map (\<lambda>s. (st_name s, st_stream_id s)) p' \<Longrightarrow>
   allocate p n used lk = allocate p' n used lk"
proof (induction p arbitrary: p' n used lk)
  case (Cons s p)
  then obtain s' q where p': "p' = s' # q" "st_name s' = st_name s" "st_stream_id s' = st_stream_id s"
    and q: "map (\<lambda>s. (st_name s, st_stream_id s)) p = map (\<lambda>s. (st_name s, st_stream_id s)) q"
    by (cases p') auto
  have "allocate p = allocate q"
    using q by (intro ext Cons.IH)
  then show ?case
    by (simp only: p' allocate.simps)
qed simp

section \<open>Properties\<close>

text \<open>One captured stream: its wire object loads, as a stream of the same name with no forced id,
  and resolves in its place to the same object when it uses none of the settings a snapshot drops.\<close>

lemma captured_stream:
  assumes "resolve_one lk ids i s = Inr r" and fit: "stream_fit s"
    and raw: "\<And>pkt. st_packet s = Some pkt \<Longrightarrow> \<exists>pkt'. RawPacket gp (pkt_binary pkt) = Inr pkt'"
  shows "\<exists>s'. load_item gp i (canon (rs_json r)) = Inr s' \<and> st_name s' = st_name s \<and>
    st_stream_id s' = None \<and> lossless s' \<and>
    (\<exists>r'. resolve_one lk ids i s' = Inr r' \<and> (lossless s \<longrightarrow> canon (rs_json r') = canon (rs_json r)))"
proof -
  obtain pkt n where pkt: "st_packet s = Some pkt"
    and n: "if st_next s \<noteq> [] then lk (st_next s) = Some n else n = -1"
    and w: "wire_stream s pkt n = Some (rs_json r)"
    using assms(1) by (auto simp: resolve_one_Inr)
  obtain pkt' where pkt': "RawPacket gp (pkt_binary pkt) = Inr pkt'"
    using raw [OF pkt] ..
  have bin: "pkt_binary pkt' = pkt_binary pkt"
    using pkt' by (auto simp: RawPacket_def split: sum.splits)
  obtain js where js: "instructions_json (instructions_of (st_vm s)) = Some js"
    and load: "load_item gp i (canon (rs_json r)) = Inr (reloaded s pkt' (map canon js))"
    using load_wire [OF w fit pkt', of i] by blast
  obtain j' where j': "wire_stream (reloaded s pkt' (map canon js)) pkt' n = Some j'"
    "lossless s \<longrightarrow> canon j' = canon (rs_json r)"
    using wire_reloaded [OF w bin js] by blast
  let ?s = "reloaded s pkt' (map canon js)"
  have "resolve_one lk ids i ?s = Inr \<lparr>rs_id = ids ! i, rs_json = j'\<rparr>"
    unfolding resolve_one_Inr
    by (intro exI [of _ pkt'] exI [of _ n]) (use j'(1) n in \<open>simp add: reloaded_def\<close>)
  moreover have "lossless ?s" "st_name ?s = st_name s" "st_stream_id ?s = None"
    by (simp_all add: lossless_def reloaded_def flags_def)
  ultimately show ?thesis
    using load j'(2) by (intro exI [of _ ?s]) auto
qed

text \<open>\<open>Resolve\<close> allocates from the names and the forced ids alone: a profile with the same names and
  no forced id resolves under the same ids as soon as each of its streams does.\<close>

lemma Resolve_same_ids:
  assumes al: "allocate p 0 {} Map.empty = Some (Inr (ids, lk))" and len: "length ids = length p" "length p' = length p"
    and same: "\<And>i. i < length p \<Longrightarrow> st_name (p' ! i) = st_name (p ! i) \<and> st_stream_id (p' ! i) = st_stream_id (p ! i)"
    and each: "\<And>i. i < length p \<Longrightarrow> \<exists>r'. resolve_one lk ids i (p' ! i) = Inr r' \<and> P i r'"
  shows "\<exists>out'. Resolve p' = Some (Inr out') \<and> length out' = length p \<and> map rs_id out' = ids \<and>
    (\<forall>i < length p. P i (out' ! i))"
proof -
  have "map (\<lambda>s. (st_name s, st_stream_id s)) p = map (\<lambda>s. (st_name s, st_stream_id s)) p'"
    using same len(2) by (intro nth_equalityI) simp_all
  then have al': "allocate p' 0 {} Map.empty = Some (Inr (ids, lk))"
    using allocate_cong al by metis
  obtain out' where out': "traverse (resolve_one lk ids) 0 p' = Inr out'" "length out' = length p'"
    "\<forall>i < length p'. P i (out' ! i)"
    using traverse_exists [of p' "resolve_one lk ids" P] each len(2) by auto
  have "map rs_id out' = ids"
  proof (rule nth_equalityI)
    show "length (map rs_id out') = length ids"
      using out'(2) len by simp
    fix i assume "i < length (map rs_id out')"
    then show "map rs_id out' ! i = ids ! i"
      using traverse_nth [OF out'(1), of i] out'(2) by (auto simp: resolve_one_Inr)
  qed
  with out' al' len(2) show ?thesis
    by (intro exI [of _ out']) (simp add: Resolve_def)
qed

text \<open>C25: the wire objects of a profile, captured and loaded as a snapshot, give a profile that
  uploads again under the same ids, as the same objects up to the order of their keys, when no
  stream uses the settings that a snapshot drops: flags, action count, random seed, paused start
  (forced ids are excluded by the hypotheses). Those settings are zero in whatever is loaded.\<close>

theorem LoadSnapshot_capture:
  assumes "Resolve p = Some (Inr out)"
    and "\<forall>s \<in> set p. stream_fit s \<and> st_stream_id s = None"
    and "\<forall>s \<in> set p. \<forall>pkt. st_packet s = Some pkt \<longrightarrow> (\<exists>pkt'. RawPacket gp (pkt_binary pkt) = Inr pkt')"
    and "ss_yaml env raw = Inr (map any_of (map rs_json out))" "list_all yaml_exact (map rs_json out)"
  shows "\<exists>p' out'. LoadSnapshot env gp raw = Inr p' \<and> Resolve p' = Some (Inr out') \<and>
    map rs_id out' = map rs_id out \<and> list_all lossless p' \<and>
    (list_all lossless p \<longrightarrow> map (canon \<circ> rs_json) out' = map (canon \<circ> rs_json) out)"
  using assms(1)
proof (rule Resolve_Inr)
  fix ids
  let ?lk = "map_of (name_table p ids)" and ?js = "map canon (map rs_json out)"
  let ?eq = "\<lambda>i r'. lossless (p ! i) \<longrightarrow> canon (rs_json r') = canon (rs_json (out ! i))"
  assume al: "allocate p 0 {} Map.empty = Some (Inr (ids, ?lk))" and len: "length ids = length p" "length out = length p"
    and one: "\<And>i. i < length p \<Longrightarrow> resolve_one ?lk ids i (p ! i) = Inr (out ! i)" and ids: "map rs_id out = ids"
  have "\<exists>p'. traverse (load_item gp) 0 ?js = Inr p' \<and> length p' = length ?js \<and>
      (\<forall>i < length ?js. st_name (p' ! i) = st_name (p ! i) \<and> st_stream_id (p' ! i) = None \<and> lossless (p' ! i) \<and>
        (\<exists>r'. resolve_one ?lk ids i (p' ! i) = Inr r' \<and> ?eq i r'))"
  proof (rule traverse_exists)
    fix i assume "i < length ?js"
    then have i: "i < length p" "?js ! i = canon (rs_json (out ! i))"
      using len by simp_all
    show "\<exists>s'. load_item gp i (?js ! i) = Inr s' \<and> st_name s' = st_name (p ! i) \<and> st_stream_id s' = None \<and>
        lossless s' \<and> (\<exists>r'. resolve_one ?lk ids i s' = Inr r' \<and> ?eq i r')"
      unfolding i(2) by (rule captured_stream [OF one [OF i(1)]]) (use assms(2,3) i(1) in auto)
  qed
  then obtain p' where p': "traverse (load_item gp) 0 ?js = Inr p'" "length p' = length p"
    and each: "\<And>i. i < length p \<Longrightarrow> st_name (p' ! i) = st_name (p ! i) \<and> st_stream_id (p' ! i) = None \<and>
      lossless (p' ! i) \<and> (\<exists>r'. resolve_one ?lk ids i (p' ! i) = Inr r' \<and> ?eq i r')"
    using len by auto
  obtain out' where out': "Resolve p' = Some (Inr out')" "length out' = length p" "map rs_id out' = ids"
    "\<forall>i < length p. ?eq i (out' ! i)"
    using Resolve_same_ids [OF al len(1) p'(2), of ?eq] each assms(2) by auto
  have "map (canon \<circ> rs_json) out' = map (canon \<circ> rs_json) out" if "list_all lossless p"
    using that out'(2,4) len by (intro nth_equalityI) (auto simp: list_all_length)
  moreover have "list_all lossless p'"
    using each p'(2) by (simp add: list_all_length)
  moreover have "LoadSnapshot env gp raw = Inr p'"
    unfolding LoadSnapshot_def yamlToJSONList_documents [OF assms(4,5)] using p'(1) by simp
  ultimately show ?thesis
    using out'(1,3) ids by (intro exI [of _ p'] exI [of _ out']) simp
qed

definition snapshot_gopacket :: "unit gopacket" where
  "snapshot_gopacket = \<lparr>gp_serialize = (\<lambda>_. Inl []), gp_decode = (\<lambda>_. Inr [(LEthernet, 14)])\<rparr>"

lemma sample_wire_fit:
  "stream_fit (sample_stream a b None)" "lossless (sample_stream a b None)"
  by (simp_all add: stream_fit_def mode_fit_def sample_stream_def Continuous_def mode_wf_def f64_ok_Fin fl_numeral
      int64_range_def zero_flow_stats_def lossless_def flags_def)

lemma sample_wire_exact: "wire_stream (sample_stream a b None) pkt n = Some j \<Longrightarrow> int64_range n \<Longrightarrow> yaml_exact j"
  by (auto simp: wire_stream_eq_Some wire_fields_def sample_stream_def json_of_f64_def mode_json_def rate_json_def
      Continuous_def instructions_of_def zero_flow_stats_def FlowStats_MarshalJSON_def str_field_def opt_field_def
      flags_def int64_range_def)

theorem LoadSnapshot_capture_witness:
  "\<exists>out env p' out'. Resolve [sample_stream ''a'' [] None] = Some (Inr out) \<and>
     LoadSnapshot env snapshot_gopacket ''[]'' = Inr p' \<and> Resolve p' = Some (Inr out') \<and>
     map (canon \<circ> rs_json) out' = map (canon \<circ> rs_json) out"
proof -
  let ?s = "sample_stream ''a'' [] None"
  have "\<exists>out. Resolve [?s] = Some (Inr out)"
    by (subst Resolve_ok_iff) simp_all
  then obtain out where out: "Resolve [?s] = Some (Inr out)" ..
  let ?env = "\<lparr>ss_yaml = (\<lambda>_. Inr (map any_of (map rs_json out))), ss_float = (\<lambda>_. [])\<rparr>"
  have exact: "list_all yaml_exact (map rs_json out)"
    using out
  proof (rule Resolve_Inr)
    fix ids assume "length out = length [?s]"
      and one: "\<And>i. i < length [?s] \<Longrightarrow> resolve_one (map_of (name_table [?s] ids)) ids i ([?s] ! i) = Inr (out ! i)"
    then obtain r where r: "out = [r]"
      by (cases out) auto
    obtain pkt where "wire_stream ?s pkt (-1) = Some (rs_json r)"
      using one [of 0] by (auto simp: r resolve_one_Inr)
    then have "yaml_exact (rs_json r)"
      by (rule sample_wire_exact) (simp add: int64_range_def)
    then show ?thesis by (simp add: r)
  qed
  have "stream_fit ?s" "lossless ?s"
    using sample_wire_fit by auto
  moreover have "\<exists>pkt'. RawPacket snapshot_gopacket bin = Inr pkt'" for bin
    by (simp add: RawPacket_def decodeLayerStarts_def snapshot_gopacket_def)
  ultimately show ?thesis
    using LoadSnapshot_capture [OF out, of snapshot_gopacket ?env "''[]''"] exact out by auto
qed

end

