(* ===== verification/Load_Profile.thy ===== *)
theory Load_Profile
  imports Dsl_Profile Load_Pcap Load_Snapshot
begin

text \<open>
  Loading a profile by the extension of its file: \<open>pkg/stl/loaders/load.go\<close>. Reading a file is a
  parameter.
\<close>

section \<open>Dispatch\<close>

text \<open>\<open>filepath.Ext\<close>: from the last dot of the last path element on.\<close>

definition path_ext :: "string \<Rightarrow> string" where
  "path_ext path = (let name = (case split_last CHR ''/'' path of None \<Rightarrow> path | Some (_, b) \<Rightarrow> b) in
     case split_last CHR ''.'' name of None \<Rightarrow> [] | Some (_, b) \<Rightarrow> CHR ''.'' # b)"

definition isSnapshot :: "string \<Rightarrow> bool" where
  "isSnapshot raw \<longleftrightarrow> contains raw ''binary'' \<and> \<not> contains raw ''layers''"

record load_env =
  le_read :: "string \<Rightarrow> string + string"
  le_pcap :: pcap_env
  le_snapshot :: snapshot_env
  le_yaml :: yaml_env

datatype load_error =
    LoadPcapError pcap_error
  | LoadReadError string
  | LoadSnapshotError snapshot_error
  | LoadDslError parse_error
  | UnknownProfileType string

definition Load :: "load_env \<Rightarrow> string \<Rightarrow> (string \<times> string) list \<Rightarrow> load_error + profile" where
  "Load env path tunables = (let e = path_ext path; gp = pe_gopacket (ye_packet (le_yaml env)) in
     if e \<in> {''.pcap'', ''.cap''} then map_err LoadPcapError (LoadPcap (le_pcap env) gp path zero_options)
     else if e \<in> {''.yaml'', ''.yml'', ''.json''} then
       bind_res (map_err LoadReadError (le_read env path)) (\<lambda>raw.
         if isSnapshot raw then map_err LoadSnapshotError (LoadSnapshot (le_snapshot env) gp raw)
         else map_err LoadDslError (Parse (le_yaml env) raw tunables))
     else Inl (UnknownProfileType e))"

section \<open>Lemmas\<close>

lemma split_last_append:
  assumes "c \<notin> set b"
  shows "split_last c (a @ c # b) = Some (a @ [c], b)"
proof -
  have "takeWhile (\<lambda>x. x \<noteq> c) (rev b @ c # rev a) = rev b" "dropWhile (\<lambda>x. x \<noteq> c) (rev b @ c # rev a) = c # rev a"
    using assms by (subst takeWhile_append2 dropWhile_append2; auto)+
  then show ?thesis
    by (simp add: split_last_def)
qed

lemma path_ext_last: "CHR ''.'' \<notin> set e \<Longrightarrow> CHR ''/'' \<notin> set e \<Longrightarrow> path_ext (name @ CHR ''.'' # e) = CHR ''.'' # e"
proof -
  assume e: "CHR ''.'' \<notin> set e" "CHR ''/'' \<notin> set e"
  have last: "split_last CHR ''.'' (n @ CHR ''.'' # e) = Some (n @ ''.'', e)" for n
    by (rule split_last_append [OF e(1)])
  show ?thesis
  proof (cases "split_last CHR ''/'' (name @ CHR ''.'' # e)")
    case None
    then show ?thesis by (simp add: path_ext_def last)
  next
    case (Some ab)
    obtain a b where ab: "ab = (a, b)" by (cases ab)
    note sl = split_last_Some [OF Some [unfolded ab]]
    have "\<exists>n. b = n @ CHR ''.'' # e"
    proof -
      have "name @ CHR ''.'' # e = a @ b" "a \<noteq> []" "last a = CHR ''/''"
        using sl by simp_all
      then obtain u where "name = a @ u \<and> u @ CHR ''.'' # e = b \<or> name @ u = a \<and> CHR ''.'' # e = u @ b"
        by (auto simp: append_eq_append_conv2)
      moreover have "\<not> (name @ u = a \<and> CHR ''.'' # e = u @ b \<and> u \<noteq> [])"
      proof
        assume *: "name @ u = a \<and> CHR ''.'' # e = u @ b \<and> u \<noteq> []"
        then have "last u = CHR ''/''"
          using \<open>last a = CHR ''/''\<close> by auto
        moreover have "set u \<subseteq> insert CHR ''.'' (set e)"
          using * by (metis Un_subset_iff list.simps(15) set_append subset_refl)
        ultimately show False
          using * e(2) last_in_set [of u] by auto
      qed
      ultimately show ?thesis by auto
    qed
    then show ?thesis
      using last by (auto simp: path_ext_def Some ab)
  qed
qed

lemma dec_fields_isg: "dec_fields kvs = Some s \<Longrightarrow> f_finite (sn_isg s) \<and> f_finite (rate_value (sm_rate (sn_mode s))) \<and> f_finite (sm_ibg (sn_mode s))"
  by (auto simp: dec_fields_def dec_mode_def dec_rate_def bind_eq_Some_conv dest: dec_f64_ok)

lemma toMode_floats:
  "f_finite (rate_value (sm_rate m)) \<Longrightarrow> f_finite (sm_ibg m) \<Longrightarrow>
   f_finite (rate_value (mode_rate (toMode m))) \<and> (case mode_ibg (toMode m) of None \<Rightarrow> True | Some g \<Rightarrow> f_finite g)"
  by (simp add: toMode_def SingleBurst_def MultiBurst_def Continuous_def)

lemma load_item_ok:
  assumes "load_item gp i item = Inr s"
  shows "st_packet s \<noteq> None \<and> marshals s"
proof -
  obtain d where d: "toStream gp i d = Inr s"
    and f: "f_finite (sn_isg d) \<and> f_finite (rate_value (sm_rate (sn_mode d))) \<and> f_finite (sm_ibg (sn_mode d))"
    using assms
    by (auto simp: load_item_def bind_eq_Some_conv dec_snapshot_def split: option.splits dest!: dec_fields_isg)
  have "st_packet s \<noteq> None \<and> st_isg s = sn_isg d \<and> st_mode s = toMode (sn_mode d) \<and>
      vm_instructions (st_vm s) = Some (map (\<lambda>raw. IRaw (RawJson raw)) (sv_instructions (sn_vm d)))"
    using d by (auto simp: toStream_def bind_res_eq_Inr split: option.splits)
  then show ?thesis
    using f toMode_floats by (simp add: marshals_def list_all_length)
qed

lemma LoadSnapshot_ok: "LoadSnapshot env gp raw = Inr p \<Longrightarrow> s \<in> set p \<Longrightarrow> st_packet s \<noteq> None \<and> marshals s"
  by (auto simp: LoadSnapshot_def bind_res_eq_Inr traverse_eq_Inr in_set_conv_nth dest!: load_item_ok)

lemma marshals_floats: "marshals s \<Longrightarrow> floats_ok s"
  by (auto simp: marshals_def floats_ok_def)

section \<open>Properties\<close>

text \<open>C30: whatever the kind of file, a profile that loads can be uploaded exactly when its stream
  names are distinct, its next references name its streams and its numbers are finite; the numbers
  of a snapshot always are, and a capture can always be uploaded.\<close>

theorem Load_uploadable:
  assumes "Load env path tunables = Inr p" "length p < 2 ^ 63"
  shows "((\<exists>out. Resolve p = Some (Inr out)) \<longleftrightarrow> distinct (stream_names p) \<and>
       (\<forall>s \<in> set p. (st_next s = [] \<or> st_next s \<in> set (stream_names p)) \<and> floats_ok s)) \<and>
    (path_ext path \<in> {''.pcap'', ''.cap''} \<longrightarrow> (\<exists>out. Resolve p = Some (Inr out))) \<and>
    (path_ext path \<notin> {''.pcap'', ''.cap''} \<and> (\<exists>raw. le_read env path = Inr raw \<and> isSnapshot raw) \<longrightarrow>
       (\<forall>s \<in> set p. floats_ok s))"
proof -
  let ?gp = "pe_gopacket (ye_packet (le_yaml env))"
  have len: "length p < 2 ^ 64"
    using assms(2) by simp
  consider (pcap) "path_ext path \<in> {''.pcap'', ''.cap''}" "LoadPcap (le_pcap env) ?gp path zero_options = Inr p"
    | (snapshot) raw where "path_ext path \<notin> {''.pcap'', ''.cap''}" "LoadSnapshot (le_snapshot env) ?gp raw = Inr p"
    | (dsl) raw where "path_ext path \<notin> {''.pcap'', ''.cap''}" "le_read env path = Inr raw" "\<not> isSnapshot raw"
        "Parse (le_yaml env) raw tunables = Inr p"
    using assms(1) unfolding Load_def Let_def
    by (cases "path_ext path \<in> {''.pcap'', ''.cap''}"; cases "path_ext path \<in> {''.yaml'', ''.yml'', ''.json''}")
      (auto simp only: if_True if_False bind_res_eq_Inr map_err_eq_Inr split: if_splits)
  then show ?thesis
  proof cases
    case pcap
    from LoadPcap_resolves [OF pcap(2) len] have out: "\<exists>out. Resolve p = Some (Inr out)" .
    with pcap(1) Resolve_ok_iff [OF len] show ?thesis
      using marshals_floats by blast
  next
    case snapshot
    have ok: "st_packet s \<noteq> None \<and> marshals s" if "s \<in> set p" for s
      using LoadSnapshot_ok [OF snapshot(2) that] .
    then have "floats_ok s" if "s \<in> set p" for s
      using marshals_floats that by blast
    with ok snapshot(1) show ?thesis
      unfolding Resolve_ok_iff [OF len] by blast
  next
    case dsl
    have "st_packet s \<noteq> None \<and> (marshals s \<longleftrightarrow> floats_ok s)" if "s \<in> set p" for s
      using Parse_ok [OF dsl(4) that] .
    with dsl(1-3) show ?thesis
      unfolding Resolve_ok_iff [OF len] by auto
  qed
qed

definition sample_load :: load_env where
  "sample_load = \<lparr>le_read = (\<lambda>_. Inr ''x''), le_pcap = sample_capture,
     le_snapshot = \<lparr>ss_yaml = (\<lambda>_. Inr []), ss_float = (\<lambda>_. [])\<rparr>, le_yaml = sample_yaml\<rparr>"

lemma sample_Load:
  obtains p where "Load sample_load ''a/b.pcap'' [] = Inr p" "length p = 2" "\<forall>s \<in> set p. st_direction s = None"
    "\<exists>out. Resolve p = Some (Inr out)"
proof -
  have e: "path_ext ''a/b.pcap'' = ''.pcap''"
    by code_simp
  obtain p where p: "Load sample_load ''a/b.pcap'' [] = Inr p" "length p = 2" "\<forall>s \<in> set p. st_direction s = None"
    by (simp add: Load_def e sample_load_def sample_yaml_def sample_env_def sample_gopacket_def sample_capture_def
        LoadPcap_def zero_options_def pcap_stream_def RawPacket_def decodeLayerStarts_def)
  have "LoadPcap (le_pcap sample_load) (pe_gopacket (ye_packet (le_yaml sample_load))) ''a/b.pcap'' zero_options = Inr p"
    using p(1) by (simp add: Load_def e)
  from LoadPcap_resolves [OF this] p show thesis
    by (intro that) simp_all
qed

theorem Load_uploadable_witness:
  "\<exists>p out. Load sample_load ''a/b.pcap'' [] = Inr p \<and> length p = 2 \<and> Resolve p = Some (Inr out)"
proof -
  have e: "path_ext ''a/b.pcap'' = ''.pcap''"
    by code_simp
  obtain p where p: "Load sample_load ''a/b.pcap'' [] = Inr p" "length p = 2"
    by (rule sample_Load)
  have "length p < 2 ^ 63"
    by (simp add: p(2))
  from Load_uploadable [OF p(1) this] show ?thesis
    using p e by auto
qed

end
