(* ===== verification/Ndr_Log.thy ===== *)
theory Ndr_Log
  imports Ndr_Engine
begin

text \<open>
  The log of a search: what the engine of \<open>pkg/ndr/engine.go\<close> writes while it runs. Every measured
  run leaves one line, in order; the lines of single actions are told apart by their mark.
\<close>

section \<open>Lines\<close>

definition ascii :: "string \<Rightarrow> bool" where
  "ascii s \<longleftrightarrow> (\<forall>c \<in> set s. ch_code c < 128)"

lemma ascii_simps [simp]:
  "ascii []" "ascii (c # s) \<longleftrightarrow> ch_code c < 128 \<and> ascii s" "ascii (s @ t) \<longleftrightarrow> ascii s \<and> ascii t"
  "ascii (replicate n c) \<longleftrightarrow> n = 0 \<or> ch_code c < 128"
  by (auto simp: ascii_def)

lemma ascii_take_drop: "ascii s \<Longrightarrow> ascii (take n s) \<and> ascii (drop n s)"
  by (metis append_take_drop_id ascii_simps(3))

lemma ascii_nat_digits [simp]: "ascii (nat_digits n)"
  using nat_digits_digits [of n] by (auto simp: ascii_def list_all_iff is_digit_def)

lemma ascii_fmt_fixed [simp]: "ascii (fmt_fixed k v)"
  by (auto simp: fmt_fixed_def fixed_digits_def Let_def ascii_take_drop ch_code_def split: f64.split)

lemma ascii_run_report: "ascii (run_report r)"
  by (simp add: run_report_def pad_left_def ch_code_def)

definition is_verbose :: "string \<Rightarrow> bool" where
  "is_verbose line \<longleftrightarrow> has_prefix line verbose_mark"

lemma is_verbose_mark [simp]: "is_verbose (verbose_mark @ line)"
  by (simp add: is_verbose_def has_prefix_def)

lemma is_verbose_report [simp]: "\<not> is_verbose (run_report r)"
proof
  assume "is_verbose (run_report r)"
  then have "ascii verbose_mark"
    unfolding is_verbose_def has_prefix_def using ascii_take_drop [OF ascii_run_report] by metis
  then show False
    by (simp add: verbose_mark_def ch_code_def)
qed

section \<open>The log of a computation\<close>

text \<open>
  From \<open>s\<close> to \<open>s'\<close> the engine wrote the lines \<open>rs\<close>, and lines of actions in between when it is
  verbose.
\<close>

definition logs :: "engine \<Rightarrow> 'w run_state \<Rightarrow> 'w run_state \<Rightarrow> string list \<Rightarrow> bool" where
  "logs e s s' rs \<longleftrightarrow> (\<exists>new. rn_out s' = rn_out s @ new \<and> filter (Not \<circ> is_verbose) new = rs \<and>
     (\<not> nc_verbose (eg_cfg e) \<longrightarrow> new = rs))"

lemma logs_refl: "rn_out s' = rn_out s \<Longrightarrow> logs e s s' []"
  by (simp add: logs_def)

lemma logs_trans: "logs e s s1 as \<Longrightarrow> logs e s1 s2 bs \<Longrightarrow> logs e s s2 (as @ bs)"
  by (auto simp: logs_def)

lemmas logs_quiet = logs_trans [where bs = "[]", unfolded append_Nil2]

lemma logs_verbose: "logs e s (verbose e line s) []"
  by (simp add: logs_def verbose_def)

lemma logs_report: "logs e s (report run s) [run_report run]"
  by (simp add: logs_def report_def)

text \<open>Sleeps during which nothing else is written to the output.\<close>

definition silent_output :: "'w outside \<Rightarrow> bool" where
  "silent_output ou \<longleftrightarrow> (\<forall>d s. rn_out (snd (ou_sleep ou d s)) = rn_out s)"

lemma logs_conn: "logs e s (s'\<lparr>rn_conn := c\<rparr>) rs \<longleftrightarrow> logs e s s' rs" "logs e (s\<lparr>rn_conn := c\<rparr>) s' rs \<longleftrightarrow> logs e s s' rs"
  by (simp_all add: logs_def)

lemma logs_stopAll: "logs e s (stopAll en ports s) []"
  by (simp add: logs_def stopAll_def)

lemma logs_get_stats: "logs e s (snd (get_stats e' ou s)) []"
  by (simp add: logs_def get_stats_def case_prod_beta)

lemma logs_sleep: "silent_output ou \<Longrightarrow> logs e s (snd (sleepCtx ou d s)) []"
  by (simp add: logs_def sleepCtx_def silent_output_def case_prod_beta)

lemma logs_ramp_loop:
  assumes "silent_output ou"
  shows "logs e s (snd (ramp_loop e ou pct steps interval n i s)) []"
proof (induction n arbitrary: i s)
  case (Suc n)
  let ?s = "snd (sleepCtx ou interval s)" and ?v = "f_div (f_mul pct (f_of_int i)) (f_of_int steps)"
  have up: "logs e s (verbose e (update_line ?v) ?s) []"
    by (rule logs_quiet [OF logs_sleep [OF assms] logs_verbose])
  moreover have "logs e s (snd (ramp_loop e ou pct steps interval n (i + 1) (verbose e (update_line ?v) ?s\<lparr>rn_conn := c\<rparr>))) []" for c
    by (rule logs_quiet [OF up]) (use Suc.IH [of "verbose e (update_line ?v) ?s\<lparr>rn_conn := c\<rparr>"] in \<open>simp add: logs_conn\<close>)
  ultimately show ?case
    using logs_sleep [OF assms, of e s interval]
    by (simp add: Let_def case_prod_beta logs_conn split: sum.split)
qed (simp add: logs_refl)

lemma logs_rampTo:
  assumes "silent_output ou"
  shows "logs e s (snd (rampTo e ou pct s)) []"
proof -
  let ?n = "ramp_steps (eg_cfg e)"
  let ?s1 = "if f_lt (Fin 0) (nc_rampUpTime (eg_cfg e)) then verbose e (ramp_line e pct ?n) s else s"
  let ?s2 = "verbose e (start_line (f_div pct (f_of_int ?n))) ?s1"
  have "logs e s ?s1 []"
    by (simp add: logs_verbose logs_refl)
  then have s2: "logs e s ?s2 []"
    by (rule logs_quiet) (rule logs_verbose)
  then have "logs e s (snd (ramp_loop e ou pct ?n d k 2 (?s2\<lparr>rn_conn := c\<rparr>))) []" for d k c
    by (rule logs_quiet) (use logs_ramp_loop [OF assms, of e "?s2\<lparr>rn_conn := c\<rparr>"] in \<open>simp add: logs_conn\<close>)
  with s2 show ?thesis
    by (cases "f_lt (Fin 0) (nc_rampUpTime (eg_cfg e))")
      (simp_all add: rampTo_def Let_def case_prod_beta logs_conn split: sum.split)
qed

lemma logs_perfRun_armed:
  assumes "silent_output ou"
  shows "logs e s (snd (perfRun_armed e ou pct duration base qf s)) []"
proof -
  note sleep = logs_sleep [OF assms]
  let ?s1 = "snd (rampTo e ou pct s)"
  let ?s2 = "snd (sleepCtx ou (f_to_i64 (f_mul duration second)) (verbose e (hold_line pct duration) ?s1))"
  let ?s3 = "stopAll (ou_env ou) (eg_ports e) (verbose e stop_line ?s2)"
  let ?s4 = "snd (sleepCtx ou (wrap64 (nc_rxDelayMs (eg_cfg e) * 1000000)) (verbose e (drain_line e) ?s3))"
  let ?s5 = "snd (get_stats e ou (verbose e (final_line e) ?s4))"
  note s1 = logs_rampTo [OF assms, of e s pct]
  have s2: "logs e s ?s2 []"
    by (rule logs_quiet [OF logs_quiet [OF s1 logs_verbose] sleep])
  have s4: "logs e s ?s4 []"
    by (rule logs_quiet [OF logs_quiet [OF logs_quiet [OF logs_quiet [OF s2 logs_verbose] logs_stopAll] logs_verbose] sleep])
  have "logs e s ?s5 []"
    by (rule logs_quiet [OF logs_quiet [OF s4 logs_verbose] logs_get_stats])
  with s1 s2 s4 show ?thesis
    by (simp add: perfRun_armed_def Let_def case_prod_beta split: sum.split)
qed

lemma logs_perfRun:
  assumes "silent_output ou"
  shows "logs e s (snd (perfRun e ou pct duration s)) []"
proof -
  let ?stop = "stopAll (ou_env ou) (eg_ports e)"
  let ?s1 = "verbose e (baseline_line e) (?stop (verbose e (run_line e pct duration) s))"
  let ?s2 = "snd (get_stats e ou ?s1)"
  have s2: "logs e s ?s2 []"
    by (rule logs_quiet [OF logs_quiet [OF logs_quiet [OF logs_verbose logs_stopAll] logs_verbose] logs_get_stats])
  have "logs e s (?stop (snd (perfRun_armed e ou pct duration base qf ?s2))) []" for base qf
    by (rule logs_quiet [OF logs_quiet [OF s2 logs_perfRun_armed [OF assms]] logs_stopAll])
  with s2 show ?thesis
    by (simp add: perfRun_def Let_def case_prod_beta logs_refl split: sum.split)
qed

section \<open>The log of a search\<close>

text \<open>The state with its recorded runs: each has its line.\<close>

definition logged :: "engine \<Rightarrow> 'w run_state \<Rightarrow> 'w run_state \<times> run_result list \<Rightarrow> bool" where
  "logged e s0 st \<longleftrightarrow> logs e s0 (fst st) (map run_report (snd st))"

lemma measure_run_logged:
  assumes "silent_output ou" "logged e s0 st"
  shows "logged e s0 (snd (measure_run e ou pct st))"
proof -
  obtain s its where st: "st = (s, its)" by fastforce
  obtain r s' where run: "perfRun e ou pct (nc_iterationDuration (eg_cfg e)) s = (r, s')" by fastforce
  have "logs e s0 s' (map run_report its)"
    using logs_quiet [OF assms(2) [unfolded logged_def] logs_perfRun [OF assms(1), of e _ pct "nc_iterationDuration (eg_cfg e)"]] run
    by (simp add: st)
  then show ?thesis
    using logs_trans [OF _ logs_report] by (cases r) (simp_all add: logged_def measure_run_def st run)
qed

interpretation engine_log: keeping_measurement "search_measure e ou"
  "\<lambda>st. silent_output ou \<longrightarrow> logged e s0 (fst st)"
  for e :: engine and ou :: "'w outside" and s0
proof unfold_locales
  fix x and s :: "('w run_state \<times> run_result list) \<times> ndr_error option"
  assume "silent_output ou \<longrightarrow> logged e s0 (fst s)"
  then show "silent_output ou \<longrightarrow> logged e s0 (fst (snd (search_measure e ou x s)))"
    using measure_run_logged [of ou e s0 "fst s" x]
    by (simp add: search_measure_def case_prod_beta split: sum.split)
qed

lemma binarySearch_logged:
  assumes "silent_output ou" "logged e s0 st"
  shows "logged e s0 (snd (binarySearch e ou low high best run st))"
  using engine_log.loop_keeps [of ou e s0 "(st, None)"] assms
  by (simp add: binarySearch_def search_def case_prod_beta split: option.split)

lemma find_search_logged:
  assumes "silent_output ou"
  shows "logged e s (snd (find_search e ou first s))"
proof -
  have "logged e s (s, [])"
    by (simp add: logged_def logs_refl)
  then show ?thesis
    using measure_run_logged [OF assms] binarySearch_logged [OF assms]
    by (simp add: find_search_def optBinarySearch_def Let_def case_prod_beta split: sum.split)
qed

lemma Find_logs:
  assumes "silent_output ou" "Find e ou s = (Inr res, s')"
  shows "logs e s s' (map run_report (nr_first res # nr_iterations res))"
proof -
  obtain lat fs c where ids: "GetActivePGIDs (ou_env ou) (rn_conn s) = (Inr (lat, fs), c)"
    using assms(2) by (auto simp: Find_def split: prod.splits sum.splits)
  let ?e = "e\<lparr>eg_pgids := fs @ lat\<rparr>"
  have same: "logs ?e = logs e"
    by (intro ext) (simp add: logs_def)
  obtain first s2 where first: "perfRun ?e ou (Fin 100) (nc_firstRunDuration (eg_cfg e)) (s\<lparr>rn_conn := c\<rparr>) = (Inr first, s2)"
    using assms(2) ids by (auto simp: Find_def Let_def split: prod.splits sum.splits if_splits)
  have "logs e s s2 []"
    using logs_perfRun [OF assms(1), of ?e "s\<lparr>rn_conn := c\<rparr>" "Fin 100" "nc_firstRunDuration (eg_cfg e)"] first
    by (simp add: same logs_conn)
  then have h2: "logs e s (report first s2) [run_report first]"
    using logs_trans [OF _ logs_report] by force
  show ?thesis
  proof (cases "rr_pass first")
    case True
    then have "nr_first res = first" "nr_iterations res = []" "s' = report first s2"
      using assms(2) ids first by (auto simp: Find_def Let_def split: if_splits)
    with h2 show ?thesis by simp
  next
    case False
    then obtain best its where sr: "find_search ?e ou first (report first s2) = (Inr best, s', its)"
      and res: "nr_first res = first" "nr_iterations res = its"
      using assms(2) ids first by (auto simp: Find_def Let_def split: if_splits prod.splits sum.splits)
    have "logs e (report first s2) s' (map run_report its)"
      using find_search_logged [OF assms(1), of ?e "report first s2" first] sr by (simp add: logged_def same)
    from logs_trans [OF h2 this] show ?thesis
      by (simp add: res)
  qed
qed

end
