(* ===== verification/Ndr_Results.thy ===== *)
theory Ndr_Results
  imports Ndr_Engine Go_Fmt
begin

text \<open>
  The results of a search as text and as JSON: \<open>pkg/ndr/results.go\<close>. Writing the file is a
  parameter, which is given the value that is marshalled. An empty slice is the nil slice.
\<close>

definition results_String :: "ndr_results \<Rightarrow> string" where
  "results_String r =
     (if nr_title r \<noteq> [] then ''NDR result: '' @ nr_title r @ [CHR 0x0A] else ''NDR result'' @ [CHR 0x0A]) @
     ''  rate:        '' @ fmt_fixed 3 (nr_percent r) @ ''% of line rate'' @ [CHR 0x0A] @
     ''  iterations:  '' @ nat_digits (length (nr_iterations r)) @ [CHR 0x0A] @
     ''  tx packets:  '' @ nat_digits (unat (rr_tx (nr_run r))) @ [CHR 0x0A] @
     ''  rx packets:  '' @ nat_digits (unat (rr_rx (nr_run r))) @ [CHR 0x0A] @
     ''  drop:        '' @ nat_digits (unat (rr_drop (nr_run r))) @ '' ('' @ fmt_fixed 4 (rr_dropPct (nr_run r)) @ ''%)'' @ [CHR 0x0A] @
     ''  queue full:  '' @ nat_digits (unat (rr_queueFull (nr_run r))) @ '' ('' @ fmt_fixed 4 (rr_qfullPct (nr_run r)) @ ''%)'' @ [CHR 0x0A] @
     ''  rx errors:   '' @ nat_digits (unat (rr_rxErr (nr_run r))) @ [CHR 0x0A]"

text \<open>The fields of an object, of which a float that is not finite cannot be marshalled.\<close>

definition object_json :: "(string \<times> json option) list \<Rightarrow> json option" where
  "object_json fs = map_option JObj (those (map (\<lambda>(k, v). map_option (Pair k) v) fs))"

definition run_json :: "run_result \<Rightarrow> json option" where
  "run_json r = object_json [(''Percentage'', json_of_f64 (rr_percentage r)), (''TxPkts'', Some (json_of_u64 (rr_tx r))),
     (''RxPkts'', Some (json_of_u64 (rr_rx r))), (''Drop'', Some (json_of_u64 (rr_drop r))),
     (''DropPct'', json_of_f64 (rr_dropPct r)), (''QueueFull'', Some (json_of_u64 (rr_queueFull r))),
     (''QFullPct'', json_of_f64 (rr_qfullPct r)), (''RxErr'', Some (json_of_u64 (rr_rxErr r))),
     (''Pass'', Some (JBool (rr_pass r)))]"

definition slice_json :: "json list \<Rightarrow> json" where
  "slice_json xs = (if xs = [] then JNull else JArr xs)"

definition config_json :: "ndr_config \<Rightarrow> json option" where
  "config_json c = object_json [(''PDR'', json_of_f64 (nc_pdr c)), (''PDRError'', json_of_f64 (nc_pdrError c)),
     (''IterationDuration'', json_of_f64 (nc_iterationDuration c)), (''FirstRunDuration'', json_of_f64 (nc_firstRunDuration c)),
     (''QFullResolution'', json_of_f64 (nc_qfullResolution c)), (''MaxIterations'', Some (JInt (nc_maxIterations c))),
     (''RxDelayMs'', Some (JInt (nc_rxDelayMs c))), (''RampUpTime'', json_of_f64 (nc_rampUpTime c)),
     (''OptBinSearch'', Some (JBool (nc_optBinSearch c))), (''OptBinSearchPercent'', json_of_f64 (nc_optBinSearchPercent c)),
     (''Verbose'', Some (JBool (nc_verbose c))), (''Title'', Some (JStr (nc_title c))),
     (''Ports'', Some (slice_json (map JInt (nc_ports c))))]"

definition results_json :: "ndr_results \<Rightarrow> json option" where
  "results_json r = object_json (map (\<lambda>(k, v). (k, Some v)) (str_field ''title'' (nr_title r)) @
     [(''config'', config_json (nr_config r)), (''first_run'', run_json (nr_first r)),
      (''iterations'', map_option slice_json (those (map run_json (nr_iterations r)))),
      (''ndr_percent'', json_of_f64 (nr_percent r)), (''ndr_run'', run_json (nr_run r))])"

datatype write_error = WriteMarshal | WriteFile string

definition WriteJSON :: "(string \<Rightarrow> json \<Rightarrow> string option) \<Rightarrow> string \<Rightarrow> ndr_results \<Rightarrow> write_error + unit" where
  "WriteJSON wr path r = (case results_json r of
      None \<Rightarrow> Inl WriteMarshal
    | Some j \<Rightarrow> (case wr path j of Some e \<Rightarrow> Inl (WriteFile e) | None \<Rightarrow> Inr ()))"

end
