(* ===== verification/Cli_Commands.thy ===== *)
theory Cli_Commands
  imports Load_Profile Ndr_Results
begin

text \<open>
  The traffic commands: \<open>pkg/cli/commands.go\<close>. The state is the context that the commands share:
  the connection, what the subscriber feeds, the acquired ports and the texts written so far, one
  per write. A command gets its options as the record that kong fills from the command line.
\<close>

section \<open>Context\<close>

record 'w cli_context =
  cx_conn :: "'w conn"
  cx_disp :: client_disp
  cx_ports :: "port list"
  cx_out :: "string list"

text \<open>
  What the commands need from outside: the connection's environment and the sleeps of the search,
  the identity of the client, the files of profiles, the turns of the loop of \<open>Barrier\<close>, and
  writing a file.
\<close>

record 'w cli_env =
  ce_outside :: "'w outside"
  ce_client :: client
  ce_load :: load_env
  ce_turns :: "(u32 \<times> async_event list \<times> wake) list"
  ce_write :: "string \<Rightarrow> json \<Rightarrow> string option"

abbreviation ce_rpc :: "'w cli_env \<Rightarrow> 'w env" where
  "ce_rpc e \<equiv> ou_env (ce_outside e)"

text \<open>\<open>CeBlocked\<close> stands for a call that does not return: a barrier that is still waiting after the
  given turns, or a search for a free stream id that finds none.\<close>

datatype cli_error =
    CeLoad load_error
  | CeResolve resolve_error
  | CePort port_error
  | CeNoPorts
  | CePgid pgid_error
  | CeBarrier barrier_error
  | CeNdr ndr_error
  | CeWrite write_error
  | CeBlocked

definition put_text :: "string \<Rightarrow> 'w cli_context \<Rightarrow> 'w cli_context" where
  "put_text s cx = cx\<lparr>cx_out := cx_out cx @ [s]\<rparr>"

definition resolve_result :: "(resolve_error + 'a) option \<Rightarrow> cli_error + 'a" where
  "resolve_result r = (case r of None \<Rightarrow> Inl CeBlocked | Some x \<Rightarrow> map_err CeResolve x)"

section \<open>Ports\<close>

text \<open>The loop of \<open>acquirePorts\<close>: the ports acquired so far, in order.\<close>

fun acquire_loop :: "'w env \<Rightarrow> client \<Rightarrow> bool \<Rightarrow> int list \<Rightarrow> port list \<Rightarrow> 'w conn \<Rightarrow>
    (port_error + port list) \<times> 'w conn" where
  "acquire_loop en cl force [] ports c = (Inr ports, c)"
| "acquire_loop en cl force (i # is) ports c = (case Acquire en cl force (Client_Port i) c of
      (Inl e, _, c') \<Rightarrow> (Inl e, c')
    | (Inr _, p, c') \<Rightarrow> acquire_loop en cl force is (ports @ [p]) c')"

definition acquirePorts :: "'w cli_env \<Rightarrow> int list \<Rightarrow> bool \<Rightarrow> 'w cli_context \<Rightarrow> (cli_error + unit) \<times> 'w cli_context" where
  "acquirePorts e ids force cx = (case acquire_loop (ce_rpc e) (ce_client e) force ids [] (cx_conn cx) of
      (Inl err, c) \<Rightarrow> (Inl (CePort err), cx\<lparr>cx_conn := c\<rparr>)
    | (Inr ports, c) \<Rightarrow> (Inr (), cx\<lparr>cx_conn := c, cx_ports := ports\<rparr>))"

definition ReleasePorts :: "'w cli_env \<Rightarrow> 'w cli_context \<Rightarrow> 'w cli_context" where
  "ReleasePorts e cx = cx\<lparr>cx_conn := fold (\<lambda>p c. snd (snd (Release (ce_rpc e) p c))) (cx_ports cx) (cx_conn cx),
     cx_ports := []\<rparr>"

section \<open>Loading a profile onto ports\<close>

definition loadPort :: "'w env \<Rightarrow> profile \<Rightarrow> port \<Rightarrow> 'w conn \<Rightarrow> (cli_error + nat) \<times> 'w conn" where
  "loadPort en prof p c = (case resolve_result (Resolve (ForPort prof (pt_id p))) of
      Inl e \<Rightarrow> (Inl e, c)
    | Inr resolved \<Rightarrow>
        (case RemoveAllStreams en p c of
          (Inl e, c1) \<Rightarrow> (Inl (CePort e), c1)
        | (Inr _, c1) \<Rightarrow>
            (if resolved = [] then (Inr 0, c1)
             else (case AddStreams en p resolved c1 of
               (Inl e, c2) \<Rightarrow> (Inl (CePort e), c2)
             | (Inr _, c2) \<Rightarrow> (Inr (length resolved), c2)))))"

text \<open>The loops over the acquired ports; the first error ends them.\<close>

fun load_ports :: "'w env \<Rightarrow> profile \<Rightarrow> port list \<Rightarrow> nat \<Rightarrow> 'w conn \<Rightarrow> (cli_error + nat) \<times> 'w conn" where
  "load_ports en prof [] acc c = (Inr acc, c)"
| "load_ports en prof (p # ps) acc c = (case loadPort en prof p c of
      (Inl e, c') \<Rightarrow> (Inl e, c')
    | (Inr n, c') \<Rightarrow> load_ports en prof ps (acc + n) c')"

fun each_port :: "(port \<Rightarrow> 'w conn \<Rightarrow> (port_error + unit) \<times> 'w conn) \<Rightarrow> port list \<Rightarrow> 'w conn \<Rightarrow>
    (cli_error + unit) \<times> 'w conn" where
  "each_port f [] c = (Inr (), c)"
| "each_port f (p # ps) c = (case f p c of
      (Inl e, c') \<Rightarrow> (Inl (CePort e), c')
    | (Inr _, c') \<Rightarrow> each_port f ps c')"

section \<open>Commands\<close>

record streams_cmd =
  sc_profile :: string
  sc_ports :: "int list"
  sc_tunables :: "(string \<times> string) list"
  sc_force :: bool

text \<open>\<open>StreamsCmd.Run\<close> from the point where the profile is loaded.\<close>

definition streams_loaded :: "'w cli_env \<Rightarrow> streams_cmd \<Rightarrow> profile \<Rightarrow> 'w cli_context \<Rightarrow> (cli_error + unit) \<times> 'w cli_context" where
  "streams_loaded e cmd prof cx =
     (case resolve_result (Resolve prof) of
        Inl err \<Rightarrow> (Inl err, cx)
      | Inr _ \<Rightarrow>
     (case acquirePorts e (sc_ports cmd) (sc_force cmd) cx of
        (Inl err, cx1) \<Rightarrow> (Inl err, cx1)
      | (Inr _, cx1) \<Rightarrow>
     (case load_ports (ce_rpc e) prof (cx_ports cx1) 0 (cx_conn cx1) of
        (Inl err, c) \<Rightarrow> (Inl err, cx1\<lparr>cx_conn := c\<rparr>)
      | (Inr n, c) \<Rightarrow> (Inr (), put_text (''loaded '' @ nat_digits n @ '' streams onto ports '' @
          fmt_ints (sc_ports cmd) @ [CHR 0x0A]) (cx1\<lparr>cx_conn := c\<rparr>)))))"

definition StreamsCmd_Run :: "'w cli_env \<Rightarrow> streams_cmd \<Rightarrow> 'w cli_context \<Rightarrow> (cli_error + unit) \<times> 'w cli_context" where
  "StreamsCmd_Run e cmd cx = (case Load (ce_load e) (sc_profile cmd) (sc_tunables cmd) of
      Inl err \<Rightarrow> (Inl (CeLoad err), cx)
    | Inr prof \<Rightarrow> streams_loaded e cmd prof cx)"

record start_cmd =
  tc_mult :: f64
  tc_duration :: f64

definition StartCmd_Run :: "'w cli_env \<Rightarrow> start_cmd \<Rightarrow> 'w cli_context \<Rightarrow> (cli_error + unit) \<times> 'w cli_context" where
  "StartCmd_Run e cmd cx =
     (if cx_ports cx = [] then (Inl CeNoPorts, cx)
      else let mul = \<lparr>mu_type = MultPercentage, mu_value = tc_mult cmd, mu_op = []\<rparr> in
        (case each_port (\<lambda>p. Start (ce_rpc e) p mul (tc_duration cmd) True (Fin 0)) (cx_ports cx) (cx_conn cx) of
           (Inl err, c) \<Rightarrow> (Inl err, cx\<lparr>cx_conn := c\<rparr>)
         | (Inr _, c) \<Rightarrow> (Inr (), put_text (''started traffic at '' @ fmt_fixed 2 (tc_mult cmd) @ ''%'' @ [CHR 0x0A])
             (cx\<lparr>cx_conn := c\<rparr>))))"

record stop_cmd =
  pc_ports :: "int list"
  pc_force :: bool

definition StopCmd_Run :: "'w cli_env \<Rightarrow> stop_cmd \<Rightarrow> 'w cli_context \<Rightarrow> (cli_error + unit) \<times> 'w cli_context" where
  "StopCmd_Run e cmd cx =
     (case (if cx_ports cx = [] then acquirePorts e (pc_ports cmd) (pc_force cmd) cx else (Inr (), cx)) of
        (Inl err, cx1) \<Rightarrow> (Inl err, cx1)
      | (Inr _, cx1) \<Rightarrow>
          (case each_port (Stop (ce_rpc e)) (cx_ports cx1) (cx_conn cx1) of
             (Inl err, c) \<Rightarrow> (Inl err, cx1\<lparr>cx_conn := c\<rparr>)
           | (Inr _, c) \<Rightarrow> (Inr (), put_text (''stopped'' @ [CHR 0x0A]) (cx1\<lparr>cx_conn := c\<rparr>))))"

definition counter_text :: "f64 option \<Rightarrow> string \<Rightarrow> string \<Rightarrow> string" where
  "counter_text v before after = (case v of None \<Rightarrow> [] | Some x \<Rightarrow> before @ fmt_fixed 0 x @ after)"

text \<open>The pieces that \<open>StatsCmd\<close> writes, one call of \<open>Fprintf\<close> each, before it asks for the groups.\<close>

definition stats_pieces :: "store \<Rightarrow> string list" where
  "stats_pieces st = filter (\<lambda>s. s \<noteq> []) [
     counter_text (GlobalCounter st ''m_tx_bps'') ''tx: '' '' bps  '',
     counter_text (GlobalCounter st ''m_rx_bps'') ''rx: '' '' bps  '',
     counter_text (GlobalDelta st ''m_total_queue_full'') ''queue_full: '' [],
     [CHR 0x0A]]"

definition flow_text :: "orders \<Rightarrow> pgid_snapshot \<Rightarrow> string" where
  "flow_text it snap = ''flow groups: tx='' @ nat_digits (unat (SumTx it snap)) @ '' rx='' @ nat_digits (unat (SumRx it snap)) @
     '' drop='' @ nat_digits (unat (Drop it snap)) @ '' rx_err='' @ nat_digits (unat (ps_rxErr snap)) @ [CHR 0x0A]"

definition StatsCmd_Run :: "'w cli_env \<Rightarrow> 'w cli_context \<Rightarrow> (cli_error + unit) \<times> 'w cli_context" where
  "StatsCmd_Run e cx = (let cx1 = fold put_text (stats_pieces (cd_stats (cx_disp cx))) cx in
     case GetActivePGIDs (ce_rpc e) (cx_conn cx1) of
        (Inl err, c) \<Rightarrow> (Inl (CePgid err), cx1\<lparr>cx_conn := c\<rparr>)
      | (Inr (lat, flow), c) \<Rightarrow>
          (if flow @ lat = [] then (Inr (), cx1\<lparr>cx_conn := c\<rparr>)
           else (case GetPgidStats (ce_rpc e) (ou_orders (ce_outside e)) (flow @ lat) c of
              (Inl err, c') \<Rightarrow> (Inl (CePgid err), cx1\<lparr>cx_conn := c'\<rparr>)
            | (Inr snap, c') \<Rightarrow> (Inr (), put_text (flow_text (ou_orders (ce_outside e)) snap) (cx1\<lparr>cx_conn := c'\<rparr>)))))"

definition ClearCmd_Run :: "'w cli_env \<Rightarrow> 'w cli_context \<Rightarrow> (cli_error + unit) \<times> 'w cli_context" where
  "ClearCmd_Run e cx = (case Barrier (ce_rpc e) True (ce_turns e) (cx_conn cx, cx_disp cx) of
      (None, c, d) \<Rightarrow> (Inl CeBlocked, cx\<lparr>cx_conn := c, cx_disp := d\<rparr>)
    | (Some (Inl err), c, d) \<Rightarrow> (Inl (CeBarrier err), cx\<lparr>cx_conn := c, cx_disp := d\<rparr>)
    | (Some (Inr _), c, d) \<Rightarrow> (Inr (), put_text (''cleared'' @ [CHR 0x0A])
        (cx\<lparr>cx_conn := c, cx_disp := d\<lparr>cd_stats := Clear (cd_stats d)\<rparr>\<rparr>)))"

record ndr_cmd =
  dc_profile :: string
  dc_duration :: f64
  dc_firstDuration :: f64
  dc_pdr :: f64
  dc_window :: f64
  dc_qfull :: f64
  dc_maxIterations :: int
  dc_optBinSearch :: bool
  dc_optBinPercent :: f64
  dc_rampUpTime :: f64
  dc_title :: string
  dc_verbose :: bool
  dc_out :: string
  dc_ports :: "int list"
  dc_tunables :: "(string \<times> string) list"
  dc_force :: bool

definition ndr_cmd_config :: "ndr_cmd \<Rightarrow> ndr_config" where
  "ndr_cmd_config cmd = DefaultConfig\<lparr>nc_iterationDuration := dc_duration cmd,
     nc_firstRunDuration := (if f_lt (Fin 0) (dc_firstDuration cmd) then dc_firstDuration cmd else dc_duration cmd),
     nc_pdr := dc_pdr cmd, nc_pdrError := dc_window cmd, nc_qfullResolution := dc_qfull cmd,
     nc_maxIterations := dc_maxIterations cmd, nc_optBinSearch := dc_optBinSearch cmd,
     nc_optBinSearchPercent := dc_optBinPercent cmd, nc_rampUpTime := dc_rampUpTime cmd,
     nc_verbose := dc_verbose cmd, nc_title := dc_title cmd, nc_ports := dc_ports cmd\<rparr>"

text \<open>The search, whose engine writes to the output of the context, and what is written of its results.\<close>

definition ndr_search_report :: "'w cli_env \<Rightarrow> ndr_cmd \<Rightarrow> 'w cli_context \<Rightarrow> (cli_error + unit) \<times> 'w cli_context" where
  "ndr_search_report e cmd cx =
     (case Find (NewEngine (cx_ports cx) (ndr_cmd_config cmd)) (ce_outside e)
             \<lparr>rn_conn = cx_conn cx, rn_stats = cd_stats (cx_disp cx), rn_out = cx_out cx\<rparr> of
        (r, s) \<Rightarrow> (let cx1 = cx\<lparr>cx_conn := rn_conn s, cx_disp := (cx_disp cx)\<lparr>cd_stats := rn_stats s\<rparr>, cx_out := rn_out s\<rparr> in
          case r of
            Inl err \<Rightarrow> (Inl (CeNdr err), cx1)
          | Inr results \<Rightarrow> (let cx2 = put_text (results_String results) cx1 in
              if dc_out cmd = [] then (Inr (), cx2)
              else (case WriteJSON (ce_write e) (dc_out cmd) results of
                 Inl err \<Rightarrow> (Inl (CeWrite err), cx2)
               | Inr _ \<Rightarrow> (Inr (), put_text (''wrote '' @ dc_out cmd @ [CHR 0x0A]) cx2)))))"

definition NDRCmd_Run :: "'w cli_env \<Rightarrow> ndr_cmd \<Rightarrow> 'w cli_context \<Rightarrow> (cli_error + unit) \<times> 'w cli_context" where
  "NDRCmd_Run e cmd cx =
     (case Load (ce_load e) (dc_profile cmd) (dc_tunables cmd) of
        Inl err \<Rightarrow> (Inl (CeLoad err), cx)
      | Inr loaded \<Rightarrow>
          (let prof = fst (EnsureFlowStats loaded 1) in
     (case resolve_result (Resolve prof) of
        Inl err \<Rightarrow> (Inl err, cx)
      | Inr _ \<Rightarrow>
     (case acquirePorts e (dc_ports cmd) (dc_force cmd) cx of
        (Inl err, cx1) \<Rightarrow> (Inl err, cx1)
      | (Inr _, cx1) \<Rightarrow>
     (case load_ports (ce_rpc e) prof (cx_ports cx1) 0 (cx_conn cx1) of
        (Inl err, c) \<Rightarrow> (Inl err, cx1\<lparr>cx_conn := c\<rparr>)
      | (Inr _, c) \<Rightarrow> ndr_search_report e cmd (cx1\<lparr>cx_conn := c\<rparr>))))))"

end
