(* ===== verification/Cli_Session.thy ===== *)
theory Cli_Session
  imports Cli_Commands
begin

text \<open>
  What the commands make the server see. The server is any function from requests to replies,
  behind a channel in lock step.
\<close>

section \<open>Exchanges\<close>

definition linked :: "'s link env \<Rightarrow> (json \<Rightarrow> 's \<Rightarrow> json \<times> 's) \<Rightarrow> bool" where
  "linked en srv \<longleftrightarrow> (\<exists>zl wr rd big. zlib_round_trip zl \<and> brace_codec wr rd \<and> en = link_env zl wr rd srv big)"

text \<open>The connection \<open>c'\<close> is what \<open>c\<close> becomes when the server has seen the requests \<open>rs\<close>.\<close>

definition exchanged :: "(json \<Rightarrow> 's \<Rightarrow> json \<times> 's) \<Rightarrow> 's link conn \<Rightarrow> json list \<Rightarrow> 's link conn \<Rightarrow> bool" where
  "exchanged srv c rs c' \<longleftrightarrow> lk_log (cn_world c') = lk_log (cn_world c) @ rs \<and> lk_reply (cn_world c') = None \<and>
     lk_server (cn_world c') = fold (\<lambda>r s. snd (srv r s)) rs (lk_server (cn_world c))"

definition asks :: "string \<Rightarrow> int \<Rightarrow> json \<Rightarrow> bool" where
  "asks m i r \<longleftrightarrow> req_method r = m \<and> req_param ''port_id'' r = Some (JInt i)"

lemma exchanged_refl: "lk_reply (cn_world c) = None \<Longrightarrow> exchanged srv c [] c"
  by (simp add: exchanged_def)

lemma exchanged_trans: "exchanged srv c rs c1 \<Longrightarrow> exchanged srv c1 rs' c' \<Longrightarrow> exchanged srv c (rs @ rs') c'"
  by (simp add: exchanged_def)

lemma exchanged_ready: "exchanged srv c rs c' \<Longrightarrow> lk_reply (cn_world c') = None"
  by (simp add: exchanged_def)

lemma exchanged_log: "exchanged srv c rs c' \<Longrightarrow> lk_log (cn_world c') = lk_log (cn_world c) @ rs"
  by (simp add: exchanged_def)

lemma replies_append: "replies srv (rs @ rs') s = replies srv rs s @ replies srv rs' (fold (\<lambda>r s. snd (srv r s)) rs s)"
  by (induction rs arbitrary: s) simp_all

lemma linked_Call:
  assumes "linked en srv" "lk_reply (cn_world c) = None" "params_ok ps"
  obtains r c' where "Call en m ps c = (read_reply (fst (srv r (lk_server (cn_world c)))), c')"
    "exchanged srv c [r] c'" "sends (cn_apiH c) (cn_idCounter c) m ps r"
proof -
  obtain zl wr rd big where en: "zlib_round_trip zl" "json_codec wr rd" "en = link_env zl wr rd srv big"
    using assms(1) by (auto simp: linked_def brace_codec_def)
  show ?thesis
    using abstract_call_sends [OF assms(3), of c m srv] callLocked_abstract [OF en(1,2) assms(2)] that
    by (auto simp: Call_def en(3) exchanged_def)
qed

lemma port_Call:
  assumes "linked en srv" "lk_reply (cn_world c) = None" "op_finite op"
  obtains r c' where "Call en (op_method op) (Some (op_params cl p op)) c =
      (read_reply (fst (srv r (lk_server (cn_world c)))), c')"
    "exchanged srv c [r] c'" "asks (op_method op) (pt_id p) r"
proof (rule linked_Call [OF assms(1,2) op_params_ok [OF assms(3), of cl p], of "op_method op"])
  fix r c'
  assume call: "Call en (op_method op) (Some (op_params cl p op)) c =
      (read_reply (fst (srv r (lk_server (cn_world c)))), c')" and ex: "exchanged srv c [r] c'"
    and s: "sends (cn_apiH c) (cn_idCounter c) (op_method op) (Some (op_params cl p op)) r"
  have "asks (op_method op) (pt_id p) r"
    using s sends_params [OF s, of "''port_id''"] by (simp add: asks_def sends_def op_params_port)
  with call ex that show thesis by blast
qed

lemma Acquire_exchange:
  assumes "linked en srv" "lk_reply (cn_world c) = None" "Acquire en cl force p c = (res, p', c')"
  obtains r where "asks ''acquire'' (pt_id p) r" "exchanged srv c [r] c'" "pt_id p' = pt_id p"
    "isl res \<longleftrightarrow> isl (read_reply (fst (srv r (lk_server (cn_world c)))))"
proof (rule port_Call [OF assms(1,2), of "OpAcquire force" cl p])
  fix r c1
  assume "Call en (op_method (OpAcquire force)) (Some (op_params cl p (OpAcquire force))) c =
      (read_reply (fst (srv r (lk_server (cn_world c)))), c1)" "exchanged srv c [r] c1"
    "asks (op_method (OpAcquire force)) (pt_id p) r"
  with assms(3) show thesis
    by (intro that [of r]) (auto simp: Acquire_def split: sum.splits)
qed simp

lemma Release_exchange:
  assumes "linked en srv" "lk_reply (cn_world c) = None"
  obtains r where "asks ''release'' (pt_id p) r" "exchanged srv c [r] (snd (snd (Release en p c)))"
proof (rule port_Call [OF assms, of OpRelease "\<lparr>cl_username = [], cl_sessionID = 0\<rparr>" p])
  fix r c1
  assume "Call en (op_method OpRelease) (Some (op_params \<lparr>cl_username = [], cl_sessionID = 0\<rparr> p OpRelease)) c =
      (read_reply (fst (srv r (lk_server (cn_world c)))), c1)" "exchanged srv c [r] c1"
    "asks (op_method OpRelease) (pt_id p) r"
  then show thesis
    by (intro that [of r]) (auto simp: Release_def split: sum.splits)
qed simp

lemma RemoveAll_exchange:
  assumes "linked en srv" "lk_reply (cn_world c) = None" "RemoveAllStreams en p c = (res, c')"
  obtains r where "asks ''remove_all_streams'' (pt_id p) r" "exchanged srv c [r] c'"
    "isl res \<longleftrightarrow> isl (read_reply (fst (srv r (lk_server (cn_world c)))))"
proof (rule port_Call [OF assms(1,2), of OpRemoveAllStreams "\<lparr>cl_username = [], cl_sessionID = 0\<rparr>" p])
  fix r c1
  assume "Call en (op_method OpRemoveAllStreams)
        (Some (op_params \<lparr>cl_username = [], cl_sessionID = 0\<rparr> p OpRemoveAllStreams)) c =
      (read_reply (fst (srv r (lk_server (cn_world c)))), c1)" "exchanged srv c [r] c1"
    "asks (op_method OpRemoveAllStreams) (pt_id p) r"
  with assms(3) show thesis
    by (intro that [of r]) (auto simp: RemoveAllStreams_def split: sum.splits)
qed simp

lemma Stop_exchange:
  assumes "linked en srv" "lk_reply (cn_world c) = None" "Stop en p c = (res, c')"
  obtains r where "asks ''stop_traffic'' (pt_id p) r" "exchanged srv c [r] c'"
    "isl res \<longleftrightarrow> isl (read_reply (fst (srv r (lk_server (cn_world c)))))"
proof (rule port_Call [OF assms(1,2), of OpStop "\<lparr>cl_username = [], cl_sessionID = 0\<rparr>" p])
  fix r c1
  assume "Call en (op_method OpStop) (Some (op_params \<lparr>cl_username = [], cl_sessionID = 0\<rparr> p OpStop)) c =
      (read_reply (fst (srv r (lk_server (cn_world c)))), c1)" "exchanged srv c [r] c1"
    "asks (op_method OpStop) (pt_id p) r"
  with assms(3) show thesis
    by (intro that [of r]) (auto simp: Stop_def split: sum.splits)
qed simp

section \<open>Acquiring and releasing\<close>

text \<open>What acquiring the ports \<open>ids\<close> after those of \<open>ports\<close> comes to, by the replies to it.\<close>

definition acquire_outcome :: "int list \<Rightarrow> port list \<Rightarrow> (call_error + json option) list \<Rightarrow> (port_error + port list) \<Rightarrow> bool" where
  "acquire_outcome ids ports rps res = (case res of
      Inr ps \<Rightarrow> length rps = length ids \<and> map pt_id ps = map pt_id ports @ ids \<and> list_all (Not \<circ> isl) rps
    | Inl _ \<Rightarrow> (\<exists>k. map isl rps = replicate k False @ [True]))"

lemma acquire_outcome_Cons:
  assumes "acquire_outcome ids (ports @ [p]) rps res" "\<not> isl x"
  shows "acquire_outcome (pt_id p # ids) ports (x # rps) res"
proof (cases res)
  case (Inl e)
  then obtain k where "map isl rps = replicate k False @ [True]"
    using assms(1) by (auto simp: acquire_outcome_def)
  then have "map isl (x # rps) = replicate (Suc k) False @ [True]"
    using assms(2) by simp
  with Inl show ?thesis
    by (auto simp: acquire_outcome_def intro!: exI [of _ "Suc k"])
qed (use assms in \<open>simp add: acquire_outcome_def\<close>)

lemma acquire_loop_exchange:
  assumes "linked en srv"
  shows "lk_reply (cn_world c) = None \<Longrightarrow> acquire_loop en cl force ids ports c = (res, c') \<Longrightarrow>
    \<exists>rs. exchanged srv c rs c' \<and> length rs \<le> length ids \<and>
      list_all2 (asks ''acquire'') (take (length rs) ids) rs \<and>
      acquire_outcome ids ports (replies srv rs (lk_server (cn_world c))) res"
proof (induction ids arbitrary: ports c)
  case Nil
  then show ?case
    by (intro exI [of _ "[]"]) (auto simp: exchanged_refl acquire_outcome_def)
next
  case (Cons i ids)
  obtain res1 p c1 where a: "Acquire en cl force (Client_Port i) c = (res1, p, c1)"
    by (metis prod_cases3)
  obtain r where r: "asks ''acquire'' i r" "exchanged srv c [r] c1" "pt_id p = i"
      "isl res1 \<longleftrightarrow> isl (read_reply (fst (srv r (lk_server (cn_world c)))))"
    using Acquire_exchange [OF assms Cons.prems(1) a] by (metis Client_Port_def port.select_convs(1))
  show ?case
  proof (cases res1)
    case (Inl e)
    then have "res = Inl e" "c' = c1"
      using Cons.prems(2) a by simp_all
    with Inl r show ?thesis
      by (intro exI [of _ "[r]"]) (auto simp: acquire_outcome_def intro!: exI [of _ 0])
  next
    case (Inr u)
    then have rest: "acquire_loop en cl force ids (ports @ [p]) c1 = (res, c')"
      using Cons.prems(2) a by simp
    have s1: "lk_server (cn_world c1) = snd (srv r (lk_server (cn_world c)))"
      using r(2) by (simp add: exchanged_def)
    obtain rs where rs: "exchanged srv c1 rs c'" "length rs \<le> length ids"
      "list_all2 (asks ''acquire'') (take (length rs) ids) rs"
      "acquire_outcome ids (ports @ [p]) (replies srv rs (lk_server (cn_world c1))) res"
      using Cons.IH [OF exchanged_ready [OF r(2)] rest] by blast
    have "acquire_outcome (i # ids) ports (replies srv (r # rs) (lk_server (cn_world c))) res"
      using acquire_outcome_Cons [OF rs(4)] r(3,4) Inr by (simp add: s1)
    moreover have "exchanged srv c (r # rs) c'"
      using exchanged_trans [OF r(2) rs(1)] by simp
    ultimately show ?thesis
      using r(1) rs(2,3) by (intro exI [of _ "r # rs"]) simp
  qed
qed

lemma release_exchange:
  assumes "linked en srv"
  shows "lk_reply (cn_world c) = None \<Longrightarrow>
    \<exists>rs. exchanged srv c rs (fold (\<lambda>p c. snd (snd (Release en p c))) ps c) \<and>
      list_all2 (asks ''release'') (map pt_id ps) rs"
proof (induction ps arbitrary: c)
  case Nil
  then show ?case
    by (intro exI [of _ "[]"]) (simp add: exchanged_refl)
next
  case (Cons p ps)
  obtain r where r: "asks ''release'' (pt_id p) r" "exchanged srv c [r] (snd (snd (Release en p c)))"
    using Release_exchange [OF assms Cons.prems] by blast
  obtain rs where "exchanged srv (snd (snd (Release en p c))) rs (fold (\<lambda>p c. snd (snd (Release en p c))) (p # ps) c)"
      "list_all2 (asks ''release'') (map pt_id ps) rs"
    using Cons.IH [OF exchanged_ready [OF r(2)]] by auto
  with r exchanged_trans [OF r(2)] show ?case
    by (intro exI [of _ "r # rs"]) fastforce
qed

section \<open>Loading a profile\<close>

text \<open>The requests that upload a list of resolved streams to the port \<open>i\<close>.\<close>

definition uploads :: "int \<Rightarrow> resolved_stream list \<Rightarrow> json list \<Rightarrow> bool" where
  "uploads i resolved rs \<longleftrightarrow> (\<exists>r. asks ''remove_all_streams'' i r \<and>
     (if resolved = [] then rs = [r]
      else \<exists>qs. rs = [r, JArr qs] \<and> list_all2 (\<lambda>s q. asks ''add_stream'' i q \<and>
        req_param ''stream_id'' q = Some (JInt (rs_id s)) \<and> req_param ''stream'' q = Some (rs_json s)) resolved qs))"

lemma loadPort_fails:
  "Resolve (ForPort prof (pt_id p)) = Some (Inl err) \<Longrightarrow> loadPort en prof p c = (Inl (CeResolve err), c)"
  by (simp add: loadPort_def resolve_result_def)

text \<open>Requests that neither start nor stop traffic.\<close>

definition no_traffic :: "json \<Rightarrow> bool" where
  "no_traffic r \<longleftrightarrow> (\<forall>A. traffic_effect r A = A)"

lemma asks_no_traffic: "asks m i r \<Longrightarrow> m \<noteq> ''start_traffic'' \<Longrightarrow> m \<noteq> ''stop_traffic'' \<Longrightarrow> no_traffic r"
  by (simp add: no_traffic_def traffic_effect_def asks_def)

lemma batch_no_traffic: "no_traffic (JArr qs)"
  by (simp add: no_traffic_def traffic_effect_def req_param_def member_def)

lemma uploads_no_traffic: "uploads i resolved rs \<Longrightarrow> list_all no_traffic rs"
  by (auto simp: uploads_def batch_no_traffic dest: asks_no_traffic split: if_splits)

lemma exchanged_transmitting:
  assumes "exchanged srv c rs c'" "list_all no_traffic rs"
  shows "transmitting c' = transmitting c"
proof -
  have "fold traffic_effect rs A = A" for A
    using assms(2) by (induction rs arbitrary: A) (simp_all add: no_traffic_def)
  then show ?thesis
    by (simp add: transmitting_def exchanged_log [OF assms(1)])
qed

lemma AddStreams_exchange:
  assumes "linked en srv" "lk_reply (cn_world c) = None" "AddStreams en p resolved c = (res, c')"
  obtains qs where "length qs = length resolved" "exchanged srv c [JArr qs] c'"
    "\<forall>i < length resolved. asks ''add_stream'' (pt_id p) (qs ! i) \<and>
       req_param ''stream_id'' (qs ! i) = Some (JInt (rs_id (resolved ! i))) \<and>
       req_param ''stream'' (qs ! i) = Some (rs_json (resolved ! i))"
proof -
  obtain zl wr rd big where "zlib_round_trip zl" "brace_codec wr rd" "en = link_env zl wr rd srv big"
    using assms(1) by (auto simp: linked_def)
  with that AddStreams_link [OF this(1,2) assms(2) assms(3) [unfolded this(3)]] show thesis
    by (auto simp: asks_def exchanged_def)
qed

lemma loadPort_exchange:
  assumes "linked en srv" "lk_reply (cn_world c) = None" "loadPort en prof p c = (res, c')"
  shows "\<exists>rs. exchanged srv c rs c' \<and> list_all no_traffic rs \<and>
    (\<forall>n. res = Inr n \<longrightarrow> (\<exists>resolved. Resolve (ForPort prof (pt_id p)) = Some (Inr resolved) \<and>
       uploads (pt_id p) resolved rs \<and> n = length resolved))"
proof (cases "resolve_result (Resolve (ForPort prof (pt_id p)))")
  case (Inl err)
  then show ?thesis
    using assms(2,3) by (intro exI [of _ "[]"]) (auto simp: loadPort_def exchanged_refl)
next
  case (Inr resolved)
  then have R: "Resolve (ForPort prof (pt_id p)) = Some (Inr resolved)"
    by (auto simp: resolve_result_def split: option.splits)
  obtain res1 c1 where rm: "RemoveAllStreams en p c = (res1, c1)" by fastforce
  obtain r where r: "asks ''remove_all_streams'' (pt_id p) r" "exchanged srv c [r] c1"
    by (rule RemoveAll_exchange [OF assms(1,2) rm])
  have q: "no_traffic r"
    using asks_no_traffic [OF r(1)] by simp
  consider (failed) e where "res1 = Inl e" "res = Inl (CePort e)" "c' = c1"
    | (none) "resolved = []" "res = Inr 0" "c' = c1"
    | (some) "resolved \<noteq> []" "loadPort en prof p c = (case AddStreams en p resolved c1 of
               (Inl e, c2) \<Rightarrow> (Inl (CePort e), c2)
             | (Inr _, c2) \<Rightarrow> (Inr (length resolved), c2))"
    using assms(3) Inr rm by (cases res1; cases "resolved = []") (auto simp: loadPort_def)
  then show ?thesis
  proof cases
    case failed
    then show ?thesis
      using r(2) q by (intro exI [of _ "[r]"]) simp
  next
    case none
    then show ?thesis
      using r R q by (intro exI [of _ "[r]"]) (auto simp: uploads_def)
  next
    case some
    obtain res2 c2 where add: "AddStreams en p resolved c1 = (res2, c2)" by fastforce
    obtain qs where qs: "length qs = length resolved" "exchanged srv c1 [JArr qs] c2"
      "\<forall>i < length resolved. asks ''add_stream'' (pt_id p) (qs ! i) \<and>
        req_param ''stream_id'' (qs ! i) = Some (JInt (rs_id (resolved ! i))) \<and>
        req_param ''stream'' (qs ! i) = Some (rs_json (resolved ! i))"
      using AddStreams_exchange [OF assms(1) exchanged_ready [OF r(2)] add] by blast
    have c': "c' = c2" "\<forall>n. res = Inr n \<longrightarrow> n = length resolved"
      using assms(3) some(2) add by (auto split: sum.splits)
    have "uploads (pt_id p) resolved [r, JArr qs]"
      using some(1) r(1) qs by (auto simp: uploads_def list_all2_conv_all_nth)
    moreover have "exchanged srv c [r, JArr qs] c'"
      using exchanged_trans [OF r(2) qs(2)] c'(1) by simp
    ultimately show ?thesis
      using R c'(2) q batch_no_traffic by (intro exI [of _ "[r, JArr qs]"]) simp
  qed
qed

lemma load_ports_quiet:
  assumes "linked en srv"
  shows "lk_reply (cn_world c) = None \<Longrightarrow> load_ports en prof ps acc c = (res, c') \<Longrightarrow>
    \<exists>rs. exchanged srv c rs c' \<and> list_all no_traffic rs"
proof (induction ps arbitrary: acc c)
  case Nil
  then show ?case
    by (intro exI [of _ "[]"]) (simp add: exchanged_refl)
next
  case (Cons p ps)
  obtain r c1 where l: "loadPort en prof p c = (r, c1)" by fastforce
  obtain rs where rs: "exchanged srv c rs c1" "list_all no_traffic rs"
    using loadPort_exchange [OF assms Cons.prems(1) l] by blast
  show ?case
  proof (cases r)
    case (Inl e)
    then show ?thesis
      using Cons.prems(2) l rs by auto
  next
    case (Inr k)
    then obtain rs' where "exchanged srv c1 rs' c'" "list_all no_traffic rs'"
      using Cons.IH [OF exchanged_ready [OF rs(1)]] Cons.prems(2) l by auto
    with rs exchanged_trans [OF rs(1)] show ?thesis
      by (intro exI [of _ "rs @ rs'"]) simp
  qed
qed

lemma load_ports_exchange:
  assumes "linked en srv"
  shows "lk_reply (cn_world c) = None \<Longrightarrow> load_ports en prof ps acc c = (Inr n, c') \<Longrightarrow>
    \<exists>resolved ups. list_all2 (\<lambda>p r. Resolve (ForPort prof (pt_id p)) = Some (Inr r)) ps resolved \<and>
      list_all2 (\<lambda>p (r, up). uploads (pt_id p) r up) ps (zip resolved ups) \<and> length ups = length ps \<and>
      exchanged srv c (concat ups) c' \<and> n = acc + sum_list (map length resolved)"
proof (induction ps arbitrary: acc c)
  case Nil
  then show ?case
    by (intro exI [of _ "[]"]) (simp add: exchanged_refl)
next
  case (Cons p ps)
  obtain k c1 where l: "loadPort en prof p c = (Inr k, c1)" and rest: "load_ports en prof ps (acc + k) c1 = (Inr n, c')"
    using Cons.prems(2) by (auto split: prod.splits sum.splits)
  obtain r rs where r: "Resolve (ForPort prof (pt_id p)) = Some (Inr r)" "uploads (pt_id p) r rs"
    "exchanged srv c rs c1" "k = length r"
    using loadPort_exchange [OF assms Cons.prems(1) l] by blast
  obtain resolved ups where "list_all2 (\<lambda>p r. Resolve (ForPort prof (pt_id p)) = Some (Inr r)) ps resolved"
    "list_all2 (\<lambda>p (r, up). uploads (pt_id p) r up) ps (zip resolved ups)" "length ups = length ps"
    "exchanged srv c1 (concat ups) c'" "n = acc + k + sum_list (map length resolved)"
    using Cons.IH [OF exchanged_ready [OF r(3)] rest] by blast
  then show ?case
    using r exchanged_trans [OF r(3)] by (intro exI [of _ "r # resolved"] exI [of _ "rs # ups"]) simp
qed

section \<open>Acquiring the ports of a command\<close>

text \<open>The requests of the search and of \<open>acquirePorts\<close>, as the server knows them.\<close>

definition cli_linked :: "'s link cli_env \<Rightarrow> (json \<Rightarrow> 's \<Rightarrow> json \<times> 's) \<Rightarrow> bool" where
  "cli_linked e srv \<longleftrightarrow> linked (ce_rpc e) srv \<and> sleep_ok (ce_outside e)"

abbreviation cx_ready :: "'s link cli_context \<Rightarrow> bool" where
  "cx_ready cx \<equiv> lk_reply (cn_world (cx_conn cx)) = None"

lemma cli_linked_outside: "cli_linked e srv \<Longrightarrow> link_outside (ce_outside e) srv"
  by (auto simp: cli_linked_def link_outside_def linked_def brace_codec_def)

lemma cli_linked_rpc: "cli_linked e srv \<Longrightarrow> linked (ce_rpc e) srv"
  by (simp add: cli_linked_def)

lemma acquirePorts_exchange:
  assumes "linked (ce_rpc e) srv" "cx_ready cx" "acquirePorts e ids force cx = (res, cx')"
  obtains rs where "exchanged srv (cx_conn cx) rs (cx_conn cx')" "list_all no_traffic rs"
    "list_all2 (asks ''acquire'') (take (length rs) ids) rs" "length rs \<le> length ids"
    "case res of
       Inr _ \<Rightarrow> length rs = length ids \<and> map pt_id (cx_ports cx') = ids \<and>
         list_all (Not \<circ> isl) (replies srv rs (lk_server (cn_world (cx_conn cx))))
     | Inl _ \<Rightarrow> cx_ports cx' = cx_ports cx \<and>
         (\<exists>k. map isl (replies srv rs (lk_server (cn_world (cx_conn cx)))) = replicate k False @ [True])"
proof -
  obtain r c where a: "acquire_loop (ce_rpc e) (ce_client e) force ids [] (cx_conn cx) = (r, c)" by fastforce
  obtain rs where rs: "exchanged srv (cx_conn cx) rs c" "length rs \<le> length ids"
    "list_all2 (asks ''acquire'') (take (length rs) ids) rs"
    "acquire_outcome ids [] (replies srv rs (lk_server (cn_world (cx_conn cx)))) r"
    using acquire_loop_exchange [OF assms(1,2) a] by blast
  have "list_all no_traffic rs"
    using list_all2_nthD2 [OF rs(3)] by (auto simp: list_all_length intro: asks_no_traffic)
  show thesis
  proof (cases r)
    case (Inl err)
    then have "res = Inl (CePort err)" "cx' = cx\<lparr>cx_conn := c\<rparr>"
      using a assms(3) by (simp_all add: acquirePorts_def)
    with Inl rs \<open>list_all no_traffic rs\<close> show ?thesis
      by (intro that [of rs]) (simp_all add: acquire_outcome_def)
  next
    case (Inr ps)
    then have "res = Inr ()" "cx' = cx\<lparr>cx_conn := c, cx_ports := ps\<rparr>"
      using a assms(3) by (simp_all add: acquirePorts_def)
    with Inr rs \<open>list_all no_traffic rs\<close> show ?thesis
      by (intro that [of rs]) (simp_all add: acquire_outcome_def)
  qed
qed

lemma each_Stop_effect:
  assumes "link_outside ou srv"
  shows "lk_reply (cn_world c) = None \<Longrightarrow> each_port (Stop (ou_env ou)) ps c = (Inr u, c') \<Longrightarrow>
    lk_reply (cn_world c') = None \<and> transmitting c' = transmitting c - set (map pt_id ps)"
proof (induction ps arbitrary: c)
  case (Cons p ps)
  have "each_port (Stop (ou_env ou)) ps (snd (Stop (ou_env ou) p c)) = (Inr u, c')"
    using Cons.prems(2) by (auto split: prod.splits sum.splits)
  then show ?case
    using Stop_effect [OF assms Cons.prems(1), of p] Cons.IH by auto
qed simp

section \<open>Resolving for one port\<close>

lemma ForPort_names: "set (stream_names (ForPort p i)) \<subseteq> set (stream_names p)"
  by (auto simp: stream_names_def ForPort_def Let_def)

lemma distinct_names_filter:
  "distinct (filter Q (map f xs)) \<Longrightarrow> distinct (filter Q (map f (filter P xs)))"
  by (induction xs) auto

lemma ForPort_resolves:
  assumes "length p < 2 ^ 63" "Resolve p = Some (Inr out)"
  shows "(\<exists>r. Resolve (ForPort p i) = Some (Inr r)) \<longleftrightarrow>
    (\<forall>s \<in> set (ForPort p i). st_next s = [] \<or> st_next s \<in> set (stream_names (ForPort p i)))"
proof -
  have len: "length p < 2 ^ 64" "length (ForPort p i) < 2 ^ 64"
    using assms(1) length_filter_le [of _ p] le_less_trans [of "length (ForPort p i)" "length p" "2 ^ 64"]
    by (simp_all add: ForPort_def Let_def)
  have "distinct (stream_names p)" "\<forall>s \<in> set p. st_packet s \<noteq> None \<and> marshals s"
    using Resolve_ok_iff [OF len(1)] assms(2) by blast+
  moreover have "distinct (stream_names (ForPort p i))" if "distinct (stream_names p)"
    using distinct_names_filter [OF that [unfolded stream_names_def]] by (simp add: stream_names_def ForPort_def Let_def)
  moreover have "set (ForPort p i) \<subseteq> set p"
    by (auto simp: ForPort_def Let_def)
  ultimately show ?thesis
    unfolding Resolve_ok_iff [OF len(2)] by blast
qed

lemma NDRCmd_effect:
  assumes "cli_linked e srv" "cx_ready cx" "NDRCmd_Run e cmd cx = (res, cx')"
  shows "cx_ready cx' \<and> (transmitting (cx_conn cx') \<inter> set (dc_ports cmd) = {} \<or>
    transmitting (cx_conn cx') = transmitting (cx_conn cx))"
proof -
  note ln = cli_linked_rpc [OF assms(1)]
  let ?prof = "fst (EnsureFlowStats (projr (Load (ce_load e) (dc_profile cmd) (dc_tunables cmd))) 1)"
  obtain r cx1 where a: "acquirePorts e (dc_ports cmd) (dc_force cmd) cx = (r, cx1)" by fastforce
  obtain rs where acq: "exchanged srv (cx_conn cx) rs (cx_conn cx1)" "list_all no_traffic rs"
    "\<not> isl r \<longrightarrow> map pt_id (cx_ports cx1) = dc_ports cmd"
    by (rule acquirePorts_exchange [OF ln assms(2) a]) (auto split: sum.splits)
  obtain r2 c where l: "load_ports (ce_rpc e) ?prof (cx_ports cx1) 0 (cx_conn cx1) = (r2, c)" by fastforce
  obtain rs2 where up: "exchanged srv (cx_conn cx1) rs2 c" "list_all no_traffic rs2"
    using load_ports_quiet [OF ln exchanged_ready [OF acq(1)] l] by blast
  note tr = exchanged_transmitting [OF acq(1,2)] exchanged_transmitting [OF up]
  consider (before) "cx' = cx" | (acquired) "cx' = cx1" | (loaded) "cx_conn cx' = c"
    | (searched) "\<not> isl r" "ndr_search_report e cmd (cx1\<lparr>cx_conn := c\<rparr>) = (res, cx')"
    using assms(3) a l by (auto simp: NDRCmd_Run_def Let_def split: sum.splits prod.splits)
  then show ?thesis
  proof cases
    case searched
    obtain r3 s where f: "Find (NewEngine (cx_ports cx1) (ndr_cmd_config cmd)) (ce_outside e)
        \<lparr>rn_conn = c, rn_stats = cd_stats (cx_disp cx1), rn_out = cx_out cx1\<rparr> = (r3, s)" by fastforce
    have "conn_ready \<lparr>rn_conn = c, rn_stats = cd_stats (cx_disp cx1), rn_out = cx_out cx1\<rparr>"
      using exchanged_ready [OF up(1)] by (simp add: conn_ready_def)
    from Find_leaves_quiet [OF cli_linked_outside [OF assms(1)] this f]
    have "lk_reply (cn_world (rn_conn s)) = None"
      "transmitting (rn_conn s) \<inter> set (dc_ports cmd) = {} \<or> transmitting (rn_conn s) = transmitting c"
      using acq(3) searched(1) by (auto simp: conn_ready_def NewEngine_def)
    moreover have "cx_conn cx' = rn_conn s"
      using searched(2) f
      by (auto simp: ndr_search_report_def Let_def put_text_def split: sum.splits if_splits)
    ultimately show ?thesis
      using tr by simp
  qed (use assms(2) tr exchanged_ready [OF acq(1)] exchanged_ready [OF up(1)] in auto)
qed

section \<open>Properties\<close>

text \<open>C7: a profile is loaded onto ports by acquiring each of the given ports, in order, and then,
  port by port, removing its streams and uploading in one batch the streams of its direction,
  resolved for that port, with the ids and the wire objects of the resolution; the command
  keeps the acquired ports and reports the number of streams, and no request that starts or
  stops traffic is among those it sends.\<close>

theorem streams_uploaded:
  assumes "linked (ce_rpc e) srv" "cx_ready cx" "streams_loaded e cmd prof cx = (Inr (), cx')"
  shows "\<exists>acq resolved ups. map pt_id (cx_ports cx') = sc_ports cmd \<and>
    list_all2 (asks ''acquire'') (sc_ports cmd) acq \<and>
    list_all2 (\<lambda>i r. Resolve (ForPort prof i) = Some (Inr r)) (sc_ports cmd) resolved \<and>
    list_all2 (\<lambda>i (r, up). uploads i r up) (sc_ports cmd) (zip resolved ups) \<and> length ups = length (sc_ports cmd) \<and>
    exchanged srv (cx_conn cx) (acq @ concat ups) (cx_conn cx') \<and>
    transmitting (cx_conn cx') = transmitting (cx_conn cx) \<and>
    cx_out cx' = cx_out cx @ [''loaded '' @ nat_digits (sum_list (map length resolved)) @ '' streams onto ports '' @
      fmt_ints (sc_ports cmd) @ [CHR 0x0A]]"
proof -
  obtain cx1 n c where a: "acquirePorts e (sc_ports cmd) (sc_force cmd) cx = (Inr (), cx1)"
    and l: "load_ports (ce_rpc e) prof (cx_ports cx1) 0 (cx_conn cx1) = (Inr n, c)"
    and cx': "cx' = put_text (''loaded '' @ nat_digits n @ '' streams onto ports '' @ fmt_ints (sc_ports cmd) @ [CHR 0x0A])
      (cx1\<lparr>cx_conn := c\<rparr>)"
    using assms(3) by (auto simp: streams_loaded_def split: sum.splits prod.splits)
  obtain acq where acq: "exchanged srv (cx_conn cx) acq (cx_conn cx1)" "list_all no_traffic acq"
    "list_all2 (asks ''acquire'') (sc_ports cmd) acq" "map pt_id (cx_ports cx1) = sc_ports cmd"
    by (rule acquirePorts_exchange [OF assms(1,2) a]) simp
  obtain resolved ups where ups: "list_all2 (\<lambda>p r. Resolve (ForPort prof (pt_id p)) = Some (Inr r)) (cx_ports cx1) resolved"
    "list_all2 (\<lambda>p (r, up). uploads (pt_id p) r up) (cx_ports cx1) (zip resolved ups)"
    "length ups = length (cx_ports cx1)" "exchanged srv (cx_conn cx1) (concat ups) c" "n = sum_list (map length resolved)"
    using load_ports_exchange [OF assms(1) exchanged_ready [OF acq(1)] l] by auto
  obtain rs where "exchanged srv (cx_conn cx1) rs c" "list_all no_traffic rs"
    using load_ports_quiet [OF assms(1) exchanged_ready [OF acq(1)] l] by blast
  then have "transmitting c = transmitting (cx_conn cx)"
    using exchanged_transmitting acq(1,2) by metis
  moreover have out: "cx_out cx1 = cx_out cx"
    using a by (auto simp: acquirePorts_def split: sum.splits prod.splits)
  moreover have "list_all2 (\<lambda>i r. Resolve (ForPort prof i) = Some (Inr r)) (sc_ports cmd) resolved"
    "list_all2 (\<lambda>i (r, up). uploads i r up) (sc_ports cmd) (zip resolved ups)"
    "length ups = length (sc_ports cmd)"
    unfolding acq(4) [symmetric] using ups(1-3) by (simp_all add: list_all2_map1)
  ultimately show ?thesis
    using acq(3,4) ups(5) exchanged_trans [OF acq(1) ups(4)]
    by (intro exI [of _ acq] exI [of _ resolved] exI [of _ ups]) (simp add: cx' put_text_def)
qed

lemma load_ports_unresolved:
  assumes "linked en srv" "lk_reply (cn_world c) = None" "load_ports en prof ps k c = (res, c')"
    and "p \<in> set ps" "\<nexists>r. Resolve (ForPort prof (pt_id p)) = Some (Inr r)"
  shows "isl res"
proof (rule ccontr)
  assume "\<not> isl res"
  then obtain n where "res = Inr n" by (cases res) auto
  then obtain resolved where "list_all2 (\<lambda>p r. Resolve (ForPort prof (pt_id p)) = Some (Inr r)) ps resolved"
    using load_ports_exchange [OF assms(1,2)] assms(3) by blast
  with assms(4,5) show False
    by (auto simp: list_all2_conv_all_nth in_set_conv_nth)
qed

text \<open>the check of the whole profile does not keep a broken profile from taking ports: the
  profile of a port resolves exactly when its next references stay within the streams of that
  port, and when one names a stream of the other direction the command fails after it has sent
  acquire requests.\<close>

theorem streams_late_failure:
  assumes "linked (ce_rpc e) srv" "cx_ready cx" "length prof < 2 ^ 63" "Resolve prof = Some (Inr out)"
    and "i \<in> set (sc_ports cmd)" "s \<in> set (ForPort prof i)" "st_next s \<noteq> []" "st_next s \<notin> set (stream_names (ForPort prof i))"
    and "streams_loaded e cmd prof cx = (res, cx')"
  shows "isl res \<and> (\<exists>rs. lk_log (cn_world (cx_conn cx')) = lk_log (cn_world (cx_conn cx)) @ rs \<and>
     rs \<noteq> [] \<and> asks ''acquire'' (hd (sc_ports cmd)) (hd rs))"
proof -
  have bad: "\<nexists>r. Resolve (ForPort prof i) = Some (Inr r)"
    using ForPort_resolves [OF assms(3,4), of i] assms(6-8) by blast
  obtain r cx1 where a: "acquirePorts e (sc_ports cmd) (sc_force cmd) cx = (r, cx1)" by fastforce
  obtain acq where acq: "exchanged srv (cx_conn cx) acq (cx_conn cx1)" "list_all no_traffic acq"
    "list_all2 (asks ''acquire'') (take (length acq) (sc_ports cmd)) acq" "length acq \<le> length (sc_ports cmd)"
    "case r of
       Inr _ \<Rightarrow> length acq = length (sc_ports cmd) \<and> map pt_id (cx_ports cx1) = sc_ports cmd \<and>
         list_all (Not \<circ> isl) (replies srv acq (lk_server (cn_world (cx_conn cx))))
     | Inl _ \<Rightarrow> cx_ports cx1 = cx_ports cx \<and>
         (\<exists>k. map isl (replies srv acq (lk_server (cn_world (cx_conn cx)))) = replicate k False @ [True])"
    by (rule acquirePorts_exchange [OF assms(1,2) a])
  have ne: "acq \<noteq> []"
    using acq(5) assms(5) by (auto split: sum.splits)
  then have first: "asks ''acquire'' (hd (sc_ports cmd)) (hd acq)"
    using acq(3,4) assms(5) by (cases acq; cases "sc_ports cmd") auto
  show ?thesis
  proof (cases r)
    case (Inl err)
    then show ?thesis
      using assms(4,9) a ne first exchanged_log [OF acq(1)] by (auto simp: streams_loaded_def resolve_result_def)
  next
    case (Inr u)
    obtain res2 c where l: "load_ports (ce_rpc e) prof (cx_ports cx1) 0 (cx_conn cx1) = (res2, c)" by fastforce
    have ids: "map pt_id (cx_ports cx1) = sc_ports cmd"
      using acq(5) by (simp add: Inr)
    have "i \<in> pt_id ` set (cx_ports cx1)"
      using assms(5) by (simp flip: ids)
    then have "isl res2"
      using load_ports_unresolved [OF assms(1) exchanged_ready [OF acq(1)] l] bad by blast
    moreover obtain rs where rs: "exchanged srv (cx_conn cx1) rs c"
      using load_ports_quiet [OF assms(1) exchanged_ready [OF acq(1)] l] by blast
    moreover have "res = map_sum id (\<lambda>_. ()) res2" "isl res2 \<longrightarrow> cx_conn cx' = c"
      using assms(4,9) a l Inr
      by (auto simp: streams_loaded_def resolve_result_def split: sum.splits)
    ultimately show ?thesis
      using ne first exchanged_log [OF exchanged_trans [OF acq(1) rs]]
      by (intro conjI exI [of _ "acq @ rs"]) (auto simp: isl_map_sum)
  qed
qed

text \<open>when acquiring fails midway, the ports granted before the refusal are forgotten: the
  command keeps the ports it held, and releasing them on exit sends one release for each of
  those and none for the ports it was granted.\<close>

theorem acquire_leaks:
  assumes "linked (ce_rpc e) srv" "cx_ready cx" "acquirePorts e ids force cx = (Inl err, cx1)"
  shows "\<exists>k rs rel. exchanged srv (cx_conn cx) (rs @ rel) (cx_conn (ReleasePorts e cx1)) \<and>
    k < length ids \<and> list_all2 (asks ''acquire'') (take (Suc k) ids) rs \<and>
    map isl (replies srv rs (lk_server (cn_world (cx_conn cx)))) = replicate k False @ [True] \<and>
    list_all2 (asks ''release'') (map pt_id (cx_ports cx)) rel \<and> cx_ports (ReleasePorts e cx1) = []"
proof -
  obtain rs k where rs: "exchanged srv (cx_conn cx) rs (cx_conn cx1)"
    "list_all2 (asks ''acquire'') (take (length rs) ids) rs" "length rs \<le> length ids"
    "cx_ports cx1 = cx_ports cx"
    "map isl (replies srv rs (lk_server (cn_world (cx_conn cx)))) = replicate k False @ [True]"
    by (rule acquirePorts_exchange [OF assms]) auto
  have "length rs = Suc k"
    using arg_cong [OF rs(5), of length] by simp
  moreover obtain rel where "exchanged srv (cx_conn cx1) rel (cx_conn (ReleasePorts e cx1))"
    "list_all2 (asks ''release'') (map pt_id (cx_ports cx)) rel"
    using release_exchange [OF assms(1) exchanged_ready [OF rs(1)], of "cx_ports cx1"] rs(4)
    by (auto simp: ReleasePorts_def)
  ultimately show ?thesis
    using rs exchanged_trans [OF rs(1)]
    by (intro exI [of _ k] exI [of _ rs] exI [of _ rel]) (auto simp: ReleasePorts_def)
qed

text \<open>A stop command that succeeds leaves no port of the session transmitting: it stops the
  ports that are held or, when there are none, acquires and stops the ports that were asked for.\<close>

theorem StopCmd_stops:
  assumes "cli_linked e srv" "cx_ready cx" "StopCmd_Run e cmd cx = (Inr (), cx')"
  shows "transmitting (cx_conn cx') = transmitting (cx_conn cx) - set (map pt_id (cx_ports cx')) \<and>
    map pt_id (cx_ports cx') = (if cx_ports cx = [] then pc_ports cmd else map pt_id (cx_ports cx))"
proof -
  obtain cx1 c where pre: "(if cx_ports cx = [] then acquirePorts e (pc_ports cmd) (pc_force cmd) cx else (Inr (), cx)) = (Inr (), cx1)"
    and st: "each_port (Stop (ce_rpc e)) (cx_ports cx1) (cx_conn cx1) = (Inr (), c)"
    and cx': "cx' = put_text (''stopped'' @ [CHR 0x0A]) (cx1\<lparr>cx_conn := c\<rparr>)"
    using assms(3) by (auto simp: StopCmd_Run_def split: sum.splits prod.splits)
  have cx1: "cx_ready cx1 \<and> transmitting (cx_conn cx1) = transmitting (cx_conn cx) \<and>
      map pt_id (cx_ports cx1) = (if cx_ports cx = [] then pc_ports cmd else map pt_id (cx_ports cx))"
  proof (cases "cx_ports cx = []")
    case True
    then have a: "acquirePorts e (pc_ports cmd) (pc_force cmd) cx = (Inr (), cx1)"
      using pre by simp
    show ?thesis
      by (rule acquirePorts_exchange [OF cli_linked_rpc [OF assms(1)] assms(2) a])
        (auto simp: True exchanged_transmitting exchanged_ready)
  qed (use pre assms(2) in auto)
  with each_Stop_effect [OF cli_linked_outside [OF assms(1)] _ st] show ?thesis
    by (simp add: cx' put_text_def)
qed

text \<open>C2: an NDR command never leaves the traffic of its search running: whatever its outcome,
  errors and an interrupt among them, at the end either none of its ports transmits or exactly
  the ports that did before the command transmit. A port transmits here when the last request to
  start or stop it was to start, whatever the server answered.\<close>

theorem NDRCmd_quiet:
  assumes "cli_linked e srv" "cx_ready cx" "NDRCmd_Run e cmd cx = (res, cx')"
  shows "cx_ready cx' \<and> (transmitting (cx_conn cx') \<inter> set (dc_ports cmd) = {} \<or>
    transmitting (cx_conn cx') = transmitting (cx_conn cx))"
  using assms by (rule NDRCmd_effect)

section \<open>Witnesses\<close>

text \<open>A server that refuses to give port 1 away, and one that grants everything.\<close>

definition refusing_server :: "json \<Rightarrow> nat \<Rightarrow> json \<times> nat" where
  "refusing_server j n = (if req_method j = ''acquire'' \<and> req_param ''port_id'' j = Some (JInt 1)
     then JObj [(''error'', JObj [(''code'', JInt (- 32600)), (''message'', JStr ''port is owned by another'')])]
     else JObj [(''result'', JStr ''h'')], n + 1)"

definition granting_server :: "json \<Rightarrow> nat \<Rightarrow> json \<times> nat" where
  "granting_server j n = (case j of
      JArr qs \<Rightarrow> JArr (map (\<lambda>_. JObj [(''result'', JStr ''ok'')]) qs)
    | _ \<Rightarrow> JObj [(''result'', JStr ''h'')], n + 1)"

definition sample_cli :: "(json \<Rightarrow> nat \<Rightarrow> json \<times> nat) \<Rightarrow> nat link cli_env" where
  "sample_cli srv = \<lparr>ce_outside = \<lparr>ou_env = link_env stored_zlib unary_write unary_read srv (\<lambda>_. True),
       ou_orders = sample_orders, ou_sleep = \<lambda>d s. (True, s)\<rparr>,
     ce_client = \<lparr>cl_username = ''trex'', cl_sessionID = 7\<rparr>, ce_load = sample_load, ce_turns = [],
     ce_write = \<lambda>_ _. None\<rparr>"

definition sample_cx :: "nat link cli_context" where
  "sample_cx = \<lparr>cx_conn = sample_conn, cx_disp = sample_disp, cx_ports = [], cx_out = []\<rparr>"

lemma sample_cli_linked: "cli_linked (sample_cli srv) srv" "cx_ready sample_cx"
  using stored_zlib_round_trip unary_brace_codec sample_conn_ready
  by (auto simp: cli_linked_def linked_def sleep_ok_def sample_cli_def sample_cx_def)

lemma sample_cx_simps [simp]: "transmitting (cx_conn sample_cx) = {}" "cx_ports sample_cx = []" "cx_out sample_cx = []"
    "lk_log (cn_world (cx_conn sample_cx)) = []"
  by (simp_all add: sample_cx_def sample_conn_def transmitting_def)

definition sample_ndr_cmd :: ndr_cmd where
  "sample_ndr_cmd = \<lparr>dc_profile = ''a/b.pcap'', dc_duration = Fin 20, dc_firstDuration = Fin 0, dc_pdr = Fin 0,
     dc_window = Fin 1, dc_qfull = Fin 2, dc_maxIterations = 20, dc_optBinSearch = False, dc_optBinPercent = Fin 5,
     dc_rampUpTime = Fin 1, dc_title = [], dc_verbose = False, dc_out = [], dc_ports = [2, 3], dc_tunables = [],
     dc_force = False\<rparr>"

lemma refused: "asks ''acquire'' 1 r \<Longrightarrow> isl (read_reply (fst (refusing_server r n)))"
  by (simp add: asks_def refusing_server_def read_reply_def dec_response_def as_obj_def jget_def dec_str_def
      fold_key_def dec_rpc_error_def dec_int_def int64_range_def)

lemma granted: "asks m i r \<Longrightarrow> m \<noteq> [] \<Longrightarrow> \<not> isl (read_reply (fst (granting_server r n)))"
  by (cases r) (simp_all add: asks_def granting_server_def req_method_def member_def read_reply_def dec_response_def
      as_obj_def jget_def dec_str_def fold_key_def)

lemma granted_batch: "\<exists>xs. read_batch (fst (granting_server (JArr qs) n)) = Inr xs \<and> list_all (\<lambda>r. rp_error r = None) xs"
proof -
  have "dec_all dec_response (map (\<lambda>_. JObj [(''result'', JStr ''ok'')]) qs) =
      Some (map (\<lambda>_. \<lparr>rp_jsonrpc = [], rp_id = None, rp_result = Some (JStr ''ok''), rp_error = None\<rparr>) qs)"
    by (induction qs) (simp_all add: dec_response_def as_obj_def jget_def dec_str_def fold_key_def)
  then show ?thesis
    by (simp add: granting_server_def read_batch_def dec_list_def list_all_length)
qed

text \<open>What the examples need of a server: it refuses neither a request nor an upload.\<close>

definition grants :: "(json \<Rightarrow> nat \<Rightarrow> json \<times> nat) \<Rightarrow> bool" where
  "grants srv \<longleftrightarrow> (\<forall>m i r n. asks m i r \<longrightarrow> m \<noteq> [] \<longrightarrow> \<not> isl (read_reply (fst (srv r n)))) \<and>
     (\<forall>qs n. \<exists>xs. read_batch (fst (srv (JArr qs) n)) = Inr xs \<and> list_all (\<lambda>r. rp_error r = None) xs)"

lemma granting_grants: "grants granting_server"
  using granted granted_batch unfolding grants_def by blast

lemma sample_acquire:
  assumes "grants srv"
  obtains cx' where "acquirePorts (sample_cli srv) [2] f sample_cx = (Inr (), cx')"
    "cx_ready cx'" "map pt_id (cx_ports cx') = [2]"
proof -
  obtain r cx' where a: "acquirePorts (sample_cli srv) [2] f sample_cx = (r, cx')" by fastforce
  obtain rs where rs: "exchanged srv (cx_conn sample_cx) rs (cx_conn cx')" "list_all no_traffic rs"
    "list_all2 (asks ''acquire'') (take (length rs) [2]) rs" "length rs \<le> length [2::int]"
    "case r of
       Inr _ \<Rightarrow> length rs = length [2::int] \<and> map pt_id (cx_ports cx') = [2] \<and>
         list_all (Not \<circ> isl) (replies srv rs (lk_server (cn_world (cx_conn sample_cx))))
     | Inl _ \<Rightarrow> cx_ports cx' = cx_ports sample_cx \<and>
         (\<exists>k. map isl (replies srv rs (lk_server (cn_world (cx_conn sample_cx)))) = replicate k False @ [True])"
    by (rule acquirePorts_exchange [OF cli_linked_rpc [OF sample_cli_linked(1)] sample_cli_linked(2) a])
  have "\<not> isl r"
    using rs(3-5) assms unfolding grants_def by (cases r; cases rs) (auto simp: append_eq_Cons_conv)
  then show thesis
    using that a rs(5) exchanged_ready [OF rs(1)] by (cases r) auto
qed

theorem NDRCmd_quiet_witness:
  "transmitting (cx_conn (snd (NDRCmd_Run (sample_cli sample_server) sample_ndr_cmd sample_cx))) \<inter> {2, 3} = {}"
proof -
  obtain res cx' where r: "NDRCmd_Run (sample_cli sample_server) sample_ndr_cmd sample_cx = (res, cx')" by fastforce
  from NDRCmd_quiet [OF sample_cli_linked r] show ?thesis
    unfolding r by (auto simp: sample_ndr_cmd_def)
qed

definition sample_streams_cmd :: streams_cmd where
  "sample_streams_cmd = \<lparr>sc_profile = [], sc_ports = [2], sc_tunables = [], sc_force = False\<rparr>"

lemma sample_loadPort:
  assumes "lk_reply (cn_world c) = None" "grants srv" "Resolve (ForPort prof (pt_id p)) = Some (Inr out)"
  obtains c' where "loadPort (ce_rpc (sample_cli srv)) prof p c = (Inr (length out), c')"
proof -
  let ?en = "ce_rpc (sample_cli srv)"
  obtain r1 c1 where rm: "RemoveAllStreams ?en p c = (r1, c1)" by fastforce
  obtain r where r: "asks ''remove_all_streams'' (pt_id p) r" "exchanged srv c [r] c1"
    "isl r1 \<longleftrightarrow> isl (read_reply (fst (srv r (lk_server (cn_world c)))))"
    by (rule RemoveAll_exchange [OF cli_linked_rpc [OF sample_cli_linked(1)] assms(1) rm])
  have r1: "r1 = Inr ()" "lk_reply (cn_world c1) = None"
    using assms(2) r(1,3) exchanged_ready [OF r(2)] unfolding grants_def by (cases r1; fastforce)+
  obtain r2 c2 where add: "AddStreams ?en p out c1 = (r2, c2)" by fastforce
  have env: "?en = link_env stored_zlib unary_write unary_read srv (\<lambda>_. True)"
    by (simp add: sample_cli_def)
  obtain qs where "r2 = (case read_batch (fst (srv (JArr qs) (lk_server (cn_world c1)))) of
        Inl e \<Rightarrow> Inl (PortCall (pt_id p) e)
      | Inr xs \<Rightarrow> check_responses out 0 xs)"
    using AddStreams_link [OF stored_zlib_round_trip unary_brace_codec r1(2) add [unfolded env]] by blast
  moreover obtain xs where "read_batch (fst (srv (JArr qs) (lk_server (cn_world c1)))) = Inr xs"
    "list_all (\<lambda>r. rp_error r = None) xs"
    using assms(2) unfolding grants_def by blast
  ultimately have "r2 = Inr ()"
    by (simp add: check_responses_spec(1))
  then have "\<exists>c'. loadPort ?en prof p c = (Inr (length out), c')"
    using rm r1(1) add assms(3) by (auto simp: loadPort_def resolve_result_def)
  then show thesis using that by blast
qed

lemma sample_streams_run:
  obtains cx' where "streams_loaded (sample_cli granting_server) sample_streams_cmd sample_profile sample_cx = (Inr (), cx')"
proof -
  let ?e = "sample_cli granting_server"
  obtain out where out: "Resolve sample_profile = Some (Inr out)"
    using sample_resolves by blast
  obtain cx1 where a: "acquirePorts ?e [2] False sample_cx = (Inr (), cx1)" "cx_ready cx1" "map pt_id (cx_ports cx1) = [2]"
    by (rule sample_acquire [OF granting_grants])
  then obtain p where p: "cx_ports cx1 = [p]" "pt_id p = 2"
    by (auto simp: map_eq_Cons_conv)
  have "ForPort sample_profile 2 = sample_profile"
    by (simp add: ForPort_def sample_profile_def)
  then obtain c2 where l: "loadPort (ce_rpc ?e) sample_profile p (cx_conn cx1) = (Inr (length out), c2)"
    using sample_loadPort [OF a(2) granting_grants] out p(2) by metis
  have "load_ports (ce_rpc ?e) sample_profile (cx_ports cx1) 0 (cx_conn cx1) = (Inr (length out), c2)"
    using l by (simp add: p(1))
  then show thesis
    using out a(1) that by (simp add: streams_loaded_def sample_streams_cmd_def resolve_result_def)
qed

theorem streams_uploaded_witness:
  "\<exists>cx'. streams_loaded (sample_cli granting_server) sample_streams_cmd sample_profile sample_cx = (Inr (), cx') \<and>
     map pt_id (cx_ports cx') = [2] \<and> cx_out cx' = [''loaded 2 streams onto ports [2]'' @ [CHR 0x0A]]"
proof -
  have fp: "ForPort sample_profile 2 = sample_profile"
    by (simp add: ForPort_def sample_profile_def)
  obtain out where out: "Resolve sample_profile = Some (Inr out)"
    using sample_resolves by blast
  have len: "length out = 2"
    by (rule Resolve_Inr [OF out]) (simp add: sample_profile_def)
  have ports: "sc_ports sample_streams_cmd = [2]"
    by (simp add: sample_streams_cmd_def)
  obtain cx' where cx': "streams_loaded (sample_cli granting_server) sample_streams_cmd sample_profile sample_cx = (Inr (), cx')"
    by (rule sample_streams_run)
  obtain resolved where res: "list_all2 (\<lambda>i r. Resolve (ForPort sample_profile i) = Some (Inr r)) [2] resolved"
    "map pt_id (cx_ports cx') = [2]" "cx_out cx' = cx_out sample_cx @ [''loaded '' @ nat_digits (sum_list (map length resolved)) @
      '' streams onto ports '' @ fmt_ints [2] @ [CHR 0x0A]]"
    using streams_uploaded [OF cli_linked_rpc [OF sample_cli_linked(1)] sample_cli_linked(2) cx'] unfolding ports
    by (elim exE conjE) (rule that; assumption)
  have "resolved = [out]"
    using res(1) out by (cases resolved) (simp_all add: fp)
  moreover have two: "nat_digits 2 = ''2''"
    by (subst nat_digits.simps) simp
  moreover have "fmt_ints [2] = ''[2]''"
    by (simp add: fmt_ints_def itoa_def two)
  ultimately have out': "cx_out cx' = [''loaded 2 streams onto ports [2]'' @ [CHR 0x0A]]"
    by (simp add: res(3) len)
  show ?thesis
    by (intro exI [of _ cx'] conjI cx' res(2) out')
qed

text \<open>Two streams of different directions, the first of which names the second as its successor.\<close>

definition crossing_profile :: profile where
  "crossing_profile = [(sample_stream ''a'' ''b'' None)\<lparr>st_direction := Some 0\<rparr>,
     (sample_stream ''b'' [] None)\<lparr>st_direction := Some 1\<rparr>]"

lemma crossing_names: "stream_names crossing_profile = [''a'', ''b'']" "stream_names (ForPort crossing_profile 2) = [''a'']"
  by (simp_all add: stream_names_def crossing_profile_def ForPort_def Let_def go_rem_2_cases)

theorem streams_late_failure_witness:
  "\<exists>r rs. lk_log (cn_world (cx_conn (snd (streams_loaded (sample_cli granting_server) sample_streams_cmd
      crossing_profile sample_cx)))) = r # rs \<and> asks ''acquire'' 2 r \<and>
   isl (fst (streams_loaded (sample_cli granting_server) sample_streams_cmd crossing_profile sample_cx))"
proof -
  have "length crossing_profile < 2 ^ 64" "length crossing_profile < 2 ^ 63"
    by (simp_all add: crossing_profile_def)
  moreover have "\<forall>s \<in> set crossing_profile. st_packet s \<noteq> None \<and>
      (st_next s = [] \<or> st_next s \<in> set (stream_names crossing_profile)) \<and> marshals s"
    unfolding crossing_names
    by (simp add: crossing_profile_def sample_stream_def marshals_def f_finite_def Continuous_def)
  ultimately obtain out where len: "length crossing_profile < 2 ^ 63" and out: "Resolve crossing_profile = Some (Inr out)"
    using Resolve_ok_iff [of crossing_profile] by (auto simp: crossing_names)
  let ?s = "(sample_stream ''a'' ''b'' None)\<lparr>st_direction := Some 0\<rparr>"
  have s: "2 \<in> set (sc_ports sample_streams_cmd)" "?s \<in> set (ForPort crossing_profile 2)" "st_next ?s \<noteq> []"
      "st_next ?s \<notin> set (stream_names (ForPort crossing_profile 2))"
    by (simp_all add: crossing_names sample_streams_cmd_def ForPort_def crossing_profile_def Let_def go_rem_2_cases)
  obtain res cx' where r: "streams_loaded (sample_cli granting_server) sample_streams_cmd crossing_profile sample_cx = (res, cx')"
    by fastforce
  from streams_late_failure [OF cli_linked_rpc [OF sample_cli_linked(1)] sample_cli_linked(2) len out s r] show ?thesis
    unfolding r by (auto simp: sample_streams_cmd_def neq_Nil_conv)
qed

theorem acquire_leaks_witness:
  "\<exists>r0 r1. lk_log (cn_world (cx_conn (ReleasePorts (sample_cli refusing_server)
      (snd (acquirePorts (sample_cli refusing_server) [0, 1] False sample_cx))))) = [r0, r1] \<and>
    asks ''acquire'' 0 r0 \<and> asks ''acquire'' 1 r1"
proof -
  let ?e = "sample_cli refusing_server"
  obtain r cx1 where a: "acquirePorts ?e [0, 1] False sample_cx = (r, cx1)" by fastforce
  note ln = cli_linked_rpc [OF sample_cli_linked(1)]
  have "isl r"
    by (rule acquirePorts_exchange [OF ln sample_cli_linked(2) a])
      (use refused in \<open>auto simp: list_all2_Cons1 length_Suc_conv split: sum.splits\<close>)
  then obtain err where "r = Inl err" by (cases r) auto
  obtain k rs rel where k: "exchanged refusing_server (cx_conn sample_cx) (rs @ rel) (cx_conn (ReleasePorts ?e cx1))"
    "k < Suc (Suc 0)" "list_all2 (asks ''acquire'') (take (Suc k) [0, 1]) rs"
    "map isl (replies refusing_server rs 0) = replicate k False @ [True]" "rel = []"
    using acquire_leaks [OF ln sample_cli_linked(2) a [unfolded \<open>r = Inl err\<close>]]
    by (auto simp: sample_cx_def sample_conn_def)
  have "\<not> isl (read_reply (fst (refusing_server q n)))" if "asks ''acquire'' 0 q" for q n
    using that by (simp add: asks_def refusing_server_def read_reply_def dec_response_def as_obj_def jget_def
        dec_str_def fold_key_def)
  then have "k = 1"
    using k(2-4) by (cases k) (auto simp: list_all2_Cons1 less_Suc_eq)
  with k show ?thesis
    unfolding a by (auto simp: list_all2_Cons1 exchanged_log)
qed

lemma sample_stop:
  obtains cx' where "StopCmd_Run (sample_cli granting_server) \<lparr>pc_ports = [2], pc_force = True\<rparr> sample_cx = (Inr (), cx')"
    "map pt_id (cx_ports cx') = [2]"
proof -
  let ?e = "sample_cli granting_server"
  obtain cx1 where a: "acquirePorts ?e [2] True sample_cx = (Inr (), cx1)" "cx_ready cx1" "map pt_id (cx_ports cx1) = [2]"
    by (rule sample_acquire [OF granting_grants])
  then obtain p where p: "cx_ports cx1 = [p]" "pt_id p = 2"
    by (auto simp: map_eq_Cons_conv)
  obtain r1 c1 where st: "Stop (ce_rpc ?e) p (cx_conn cx1) = (r1, c1)" by fastforce
  obtain r where "asks ''stop_traffic'' (pt_id p) r" "exchanged granting_server (cx_conn cx1) [r] c1"
    "isl r1 \<longleftrightarrow> isl (read_reply (fst (granting_server r (lk_server (cn_world (cx_conn cx1))))))"
    by (rule Stop_exchange [OF cli_linked_rpc [OF sample_cli_linked(1)] a(2) st])
  then have "r1 = Inr ()"
    using granted by (cases r1) auto
  then show thesis
    using that a(1) st p by (simp add: StopCmd_Run_def put_text_def)
qed

theorem StopCmd_stops_witness:
  "transmitting (cx_conn (snd (StopCmd_Run (sample_cli granting_server) \<lparr>pc_ports = [2], pc_force = True\<rparr> sample_cx))) = {}"
proof -
  obtain cx' where r: "StopCmd_Run (sample_cli granting_server) \<lparr>pc_ports = [2], pc_force = True\<rparr> sample_cx = (Inr (), cx')"
    by (rule sample_stop)
  from StopCmd_stops [OF sample_cli_linked r] show ?thesis
    unfolding r by simp
qed

end
