(* ===== verification/Cli_Report.thy ===== *)
theory Cli_Report
  imports Cli_Session Ndr_Log
begin

text \<open>
  What the NDR command of \<open>pkg/cli/commands.go\<close> writes: the log of its search, the report of
  \<open>pkg/ndr/results.go\<close> and the file of the results.
\<close>

section \<open>Properties\<close>

text \<open>C20: an NDR command that succeeds writes one line for every measured run, in the order of the
  search, then the summary of the results, and last that the results were written, when a file
  was asked for and took them as JSON; lines of single actions appear only when it is verbose.\<close>

theorem NDRCmd_report:
  assumes "silent_output (ce_outside e)" "NDRCmd_Run e cmd cx = (Inr (), cx')"
  shows "\<exists>(res :: ndr_results) log. cx_out cx' = cx_out cx @ log @ results_String res #
      (if dc_out cmd = [] then [] else [''wrote '' @ dc_out cmd @ [CHR 0x0A]]) \<and>
    filter (Not \<circ> is_verbose) log = map run_report (nr_first res # nr_iterations res) \<and>
    (\<not> dc_verbose cmd \<longrightarrow> log = map run_report (nr_first res # nr_iterations res)) \<and>
    (dc_out cmd \<noteq> [] \<longrightarrow> (\<exists>j. results_json res = Some j \<and> ce_write e (dc_out cmd) j = None))"
proof -
  obtain p where p: "Load (ce_load e) (dc_profile cmd) (dc_tunables cmd) = Inr p"
    using assms(2) by (auto simp: NDRCmd_Run_def split: sum.splits)
  let ?prof = "fst (EnsureFlowStats p 1)"
  obtain cx1 where a: "acquirePorts e (dc_ports cmd) (dc_force cmd) cx = (Inr (), cx1)"
    using assms(2) p by (auto simp: NDRCmd_Run_def Let_def split: sum.splits prod.splits)
  then have cx1: "cx_out cx1 = cx_out cx"
    by (auto simp: acquirePorts_def split: sum.splits prod.splits)
  obtain n c where "load_ports (ce_rpc e) ?prof (cx_ports cx1) 0 (cx_conn cx1) = (Inr n, c)"
    and run: "ndr_search_report e cmd (cx1\<lparr>cx_conn := c\<rparr>) = (Inr (), cx')"
    using assms(2) p a by (auto simp: NDRCmd_Run_def Let_def split: sum.splits prod.splits)
  obtain res s where f: "Find (NewEngine (cx_ports cx1) (ndr_cmd_config cmd)) (ce_outside e)
      \<lparr>rn_conn = c, rn_stats = cd_stats (cx_disp cx1), rn_out = cx_out cx1\<rparr> = (Inr res, s)"
    using run by (auto simp: ndr_search_report_def Let_def split: sum.splits prod.splits)
  have "nc_verbose (eg_cfg (NewEngine (cx_ports cx1) (ndr_cmd_config cmd))) = dc_verbose cmd"
    by (simp add: NewEngine_def ndr_cmd_config_def)
  then obtain log where log: "rn_out s = cx_out cx @ log"
    "filter (Not \<circ> is_verbose) log = map run_report (nr_first res # nr_iterations res)"
    "\<not> dc_verbose cmd \<longrightarrow> log = map run_report (nr_first res # nr_iterations res)"
    using Find_logs [OF assms(1) f] cx1 by (auto simp: logs_def)
  have "cx_out cx' = cx_out cx @ log @ results_String res #
      (if dc_out cmd = [] then [] else [''wrote '' @ dc_out cmd @ [CHR 0x0A]]) \<and>
    (dc_out cmd \<noteq> [] \<longrightarrow> (\<exists>j. results_json res = Some j \<and> ce_write e (dc_out cmd) j = None))"
    using run f log(1)
    by (auto simp: ndr_search_report_def Let_def put_text_def WriteJSON_def split: sum.splits option.splits if_splits)
  with log(2,3) show ?thesis
    by (intro exI [of _ res] exI [of _ log]) simp
qed

section \<open>Witness\<close>

text \<open>A search at full rate over the two packets of a capture, which passes.\<close>

lemma ndr_server_grants: "grants ndr_server"
proof -
  have "dec_all dec_response (map (\<lambda>_. JObj [(''result'', JStr ''ok'')]) qs) =
      Some (map (\<lambda>_. \<lparr>rp_jsonrpc = [], rp_id = None, rp_result = Some (JStr ''ok''), rp_error = None\<rparr>) qs)" for qs :: "json list"
    by (induction qs) (simp_all add: dec_response_def as_obj_def jget_def dec_str_def fold_key_def)
  moreover have "\<not> isl (read_reply (fst (ndr_server r n)))" if "asks m i r" "m \<noteq> []" for m i r n
    using that by (simp add: asks_def ndr_server_reply)
  ultimately show ?thesis
    unfolding grants_def by (auto simp: ndr_server_def read_batch_def dec_list_def list_all_length)
qed

definition sample_report_cmd :: ndr_cmd where
  "sample_report_cmd = sample_ndr_cmd\<lparr>dc_rampUpTime := Fin 0, dc_ports := [2]\<rparr>"

lemma sample_report_cmd_simps [simp]:
  "dc_profile sample_report_cmd = ''a/b.pcap''" "dc_tunables sample_report_cmd = []" "dc_ports sample_report_cmd = [2]"
  "dc_force sample_report_cmd = False" "dc_out sample_report_cmd = []" "dc_verbose sample_report_cmd = False"
  by (simp_all add: sample_report_cmd_def sample_ndr_cmd_def)

lemma sample_report_engine: "plain_engine (NewEngine ports (ndr_cmd_config sample_report_cmd))"
  by (simp add: plain_engine_def NewEngine_def ndr_cmd_config_def sample_report_cmd_def sample_ndr_cmd_def
      ramp_steps_def)

lemma sample_report_run:
  obtains cx' where "NDRCmd_Run (sample_cli ndr_server) sample_report_cmd sample_cx = (Inr (), cx')"
proof -
  let ?e = "sample_cli ndr_server"
  obtain p where p: "Load sample_load ''a/b.pcap'' [] = Inr p" "length p = 2" "\<forall>s \<in> set p. st_direction s = None"
    and res: "\<exists>out. Resolve p = Some (Inr out)"
    by (rule sample_Load)
  let ?prof = "fst (EnsureFlowStats p 1)"
  obtain out where out: "Resolve ?prof = Some (Inr out)"
    using res EnsureFlowStats_resolves [of p 1] p(2) by auto
  have "map st_direction ?prof = map st_direction p"
    by (rule EnsureFlowStats_map) simp
  then have "set (map st_direction ?prof) = set (map st_direction p)"
    by (simp only:)
  then have "\<forall>s \<in> set ?prof. st_direction s = None"
    using p(3) by auto
  then have fp: "ForPort ?prof i = ?prof" for i
    by (simp add: ForPort_def Let_def)
  obtain cx1 where a: "acquirePorts ?e [2] False sample_cx = (Inr (), cx1)" "cx_ready cx1" "map pt_id (cx_ports cx1) = [2]"
    by (rule sample_acquire [OF ndr_server_grants])
  then obtain q where q: "cx_ports cx1 = [q]"
    by (auto simp: map_eq_Cons_conv)
  have "Resolve (ForPort ?prof (pt_id q)) = Some (Inr out)"
    by (simp add: fp out)
  from sample_loadPort [OF a(2) ndr_server_grants this] obtain c where
    l: "loadPort (ce_rpc ?e) ?prof q (cx_conn cx1) = (Inr (length out), c)" by blast
  obtain rs where "exchanged ndr_server (cx_conn cx1) rs c"
    using load_ports_quiet [OF cli_linked_rpc [OF sample_cli_linked(1)] a(2), of ndr_server ?prof "[q]" 0] l by auto
  then have c: "lk_reply (cn_world c) = None"
    by (rule exchanged_ready)
  have out_env: "ce_outside ?e = sample_outside"
    by (simp add: sample_cli_def sample_outside_def)
  obtain res s where f: "Find (NewEngine [q] (ndr_cmd_config sample_report_cmd)) sample_outside
      \<lparr>rn_conn = c, rn_stats = cd_stats (cx_disp cx1), rn_out = cx_out cx1\<rparr> = (Inr res, s)"
    by (rule sample_Find [OF _ sample_report_engine]) (use c in \<open>auto simp: conn_ready_def\<close>)
  have "ce_load ?e = sample_load"
    by (simp add: sample_cli_def)
  then show thesis
    using that p(1) out a(1) q l f
    by (simp add: NDRCmd_Run_def Let_def resolve_result_def ndr_search_report_def out_env)
qed

theorem NDRCmd_report_witness:
  "\<exists>(res :: ndr_results) cx'. NDRCmd_Run (sample_cli ndr_server) sample_report_cmd sample_cx = (Inr (), cx') \<and>
    cx_out cx' = map run_report (nr_first res # nr_iterations res) @ [results_String res]"
proof -
  obtain cx' where r: "NDRCmd_Run (sample_cli ndr_server) sample_report_cmd sample_cx = (Inr (), cx')"
    by (rule sample_report_run)
  have "silent_output (ce_outside (sample_cli ndr_server))"
    by (simp add: silent_output_def sample_cli_def)
  from NDRCmd_report [OF this r] r show ?thesis
    by auto
qed

end
