(* ===== verification/Cli_History.thy ===== *)
theory Cli_History
  imports Go_Strings
begin

text \<open>
  The command history of the shell and the dashboard: \<open>pkg/cli/history.go\<close>. Every operation
  holds the mutex, so it is one step. The file is its contents (\<open>None\<close>: there is none); whether
  it can be opened for appending is an argument of the operations that write.
\<close>

section \<open>Loading\<close>

record history =
  hi_path :: string
  hi_lines :: "string list"

text \<open>
  \<open>bufio.Scanner\<close>: the lines between newlines, without a trailing carriage return. It gives up
  at a line of 64 KiB or more.
\<close>

definition newline :: char where "newline = CHR 0x0A"

definition raw_lines :: "string \<Rightarrow> string list" where
  "raw_lines text = (let ls = split_on newline text in if last ls = [] then butlast ls else ls)"

definition scan_lines :: "string \<Rightarrow> string list" where
  "scan_lines text = map (\<lambda>l. trim_suffix l [CHR 0x0D]) (takeWhile (\<lambda>l. length l < 65536) (raw_lines text))"

definition NewHistory :: "string \<Rightarrow> string option \<Rightarrow> history" where
  "NewHistory path file = \<lparr>hi_path = path,
     hi_lines = (case file of None \<Rightarrow> [] | Some text \<Rightarrow> filter (\<lambda>l. l \<noteq> []) (scan_lines text))\<rparr>"

section \<open>Operations\<close>

definition appendLocked :: "bool \<Rightarrow> string \<Rightarrow> history \<times> string option \<Rightarrow> history \<times> string option" where
  "appendLocked opens line = (\<lambda>(h, file).
     if line = ''exit'' \<or> line = ''quit'' then (h, file)
     else if hi_lines h \<noteq> [] \<and> last (hi_lines h) = line then (h, file)
     else let h' = h\<lparr>hi_lines := hi_lines h @ [line]\<rparr> in
       if hi_path h = [] \<or> \<not> opens then (h', file)
       else (h', Some ((case file of None \<Rightarrow> [] | Some text \<Rightarrow> text) @ line @ [newline])))"

definition Add :: "bool \<Rightarrow> string \<Rightarrow> history \<times> string option \<Rightarrow> history \<times> string option" where
  "Add opens line s = (let line' = trim_space line in
     if line' = [] then s else appendLocked opens line' s)"

definition Lines :: "history \<Rightarrow> string list" where
  "Lines h = hi_lines h"

definition Write :: "bool \<Rightarrow> string \<Rightarrow> history \<times> string option \<Rightarrow> nat \<times> history \<times> string option" where
  "Write opens line s = (let line' = trim_space line;
       s' = (if line' \<noteq> [] then appendLocked opens line' s else s) in
     (length (hi_lines (fst s')), s'))"

text \<open>\<open>Inl\<close> is \<open>os.ErrInvalid\<close>.\<close>

definition GetLine :: "int \<Rightarrow> history \<Rightarrow> unit + string" where
  "GetLine pos h = (if pos < 0 \<or> int (length (hi_lines h)) \<le> pos then Inl () else Inr (hi_lines h ! nat pos))"

definition Len :: "history \<Rightarrow> nat" where
  "Len h = length (hi_lines h)"

definition Dump :: "history \<Rightarrow> string list" where
  "Dump h = Lines h"

section \<open>Lemmas\<close>

lemma last_split_on: "last (split_on c (s @ [c])) = []"
  using split_on_append [of c s "[]"] by simp

lemma raw_lines_append:
  assumes "text = [] \<or> last text = newline" "newline \<notin> set l"
  shows "raw_lines (text @ l @ [newline]) = raw_lines text @ [l]"
proof (cases "text = []")
  case True
  have "split_on newline (l @ [newline]) = [l, []]"
    using split_on_append [of newline l "[]"] by (simp add: split_on_none [OF assms(2)])
  then show ?thesis
    by (simp add: raw_lines_def True)
next
  case False
  then obtain u where u: "text = u @ [newline]"
    using assms(1) by (metis append_butlast_last_id)
  have "split_on newline text = split_on newline u @ [[]]"
    using split_on_append [of newline u "[]"] by (simp add: u)
  moreover have "split_on newline (text @ l @ [newline]) = split_on newline u @ [l, []]"
    using split_on_append [of newline u "l @ [newline]"] split_on_append [of newline l "[]"]
    by (simp add: u split_on_none [OF assms(2)])
  ultimately show ?thesis
    by (simp add: raw_lines_def butlast_append)
qed

text \<open>A line that was trimmed, as the operations add it.\<close>

lemma trim_space_last: "trim_space line \<noteq> [] \<Longrightarrow> \<not> is_space (last (trim_space line))"
proof -
  assume ne: "trim_space line \<noteq> []"
  then have "dropWhile is_space (rev (dropWhile is_space line)) \<noteq> []"
    by (simp add: trim_space_def)
  from hd_dropWhile [OF this] show ?thesis
    by (simp add: trim_space_def last_rev)
qed

lemma trim_space_idem [simp]: "trim_space (trim_space line) = trim_space line"
proof (cases "trim_space line = []")
  case True
  show ?thesis
    unfolding True by (simp add: trim_space_def)
next
  case False
  let ?d = "dropWhile is_space line" and ?t = "trim_space line"
  obtain w where w: "?d = ?t @ w"
    using takeWhile_dropWhile_id [of is_space "rev ?d"]
    by (metis rev_append rev_rev_ident trim_space_def)
  then have "hd ?t = hd ?d" "?d \<noteq> []"
    using False by (metis hd_append2, metis append_is_Nil_conv)
  then have "\<not> is_space (hd ?t)"
    using hd_dropWhile [of is_space line] by simp
  with False trim_space_last [OF False] show ?thesis
    by (intro trim_space_id)
qed

lemma no_cr: "l \<noteq> [] \<Longrightarrow> \<not> is_space (last l) \<Longrightarrow> trim_suffix l [CHR 0x0D] = l"
  by (auto simp: trim_suffix_def has_suffix_iff is_space_def ch_code_def)

text \<open>
  The file holds the history: it ends with a newline, no line of it is too long for the scanner,
  and what \<open>NewHistory\<close> reads from it are the lines in memory.
\<close>

definition persisted :: "history \<times> string option \<Rightarrow> bool" where
  "persisted = (\<lambda>(h, file). hi_path h \<noteq> [] \<and> NewHistory (hi_path h) file = h \<and>
     (case file of None \<Rightarrow> True | Some text \<Rightarrow>
        (text = [] \<or> last text = newline) \<and> (\<forall>l \<in> set (raw_lines text). length l < 65536)))"

definition storable :: "string \<Rightarrow> bool" where
  "storable line \<longleftrightarrow> newline \<notin> set (trim_space line) \<and> length (trim_space line) < 65536"

lemma appendLocked_persisted:
  assumes "persisted (h, file)" "storable line" "trim_space line = line" "line \<noteq> []"
  shows "persisted (appendLocked True line (h, file))"
proof (cases "line = ''exit'' \<or> line = ''quit'' \<or> hi_lines h \<noteq> [] \<and> last (hi_lines h) = line")
  case True
  then show ?thesis
    using assms(1) by (auto simp: appendLocked_def)
next
  case False
  define body where "body = (case file of None \<Rightarrow> [] | Some t \<Rightarrow> t)"
  have body: "body = [] \<or> last body = newline" "\<forall>l \<in> set (raw_lines body). length l < 65536"
      "hi_lines h = filter (\<lambda>l. l \<noteq> []) (scan_lines body)" "hi_path h \<noteq> []"
    using assms(1) by (cases "file"; cases h; auto simp: persisted_def body_def NewHistory_def raw_lines_def scan_lines_def)+
  have raw: "raw_lines (body @ line @ [newline]) = raw_lines body @ [line]"
    using raw_lines_append [OF body(1)] assms(2,3) by (simp add: storable_def)
  have "scan_lines t = map (\<lambda>l. trim_suffix l [CHR 0x0D]) (raw_lines t)"
    if "\<forall>l \<in> set (raw_lines t). length l < 65536" for t
  proof -
    have "takeWhile (\<lambda>l. length l < 65536) (raw_lines t) = raw_lines t"
      using that by (simp only: takeWhile_eq_all_conv)
    then show ?thesis by (simp only: scan_lines_def)
  qed
  from this [OF body(2)] this [of "body @ line @ [newline]"]
  have "scan_lines (body @ line @ [newline]) = scan_lines body @ [line]"
    using assms(2-4) no_cr [of line] trim_space_last [of line] body(2) by (simp add: raw storable_def ball_Un)
  then show ?thesis
    using False body assms raw
    by (simp add: appendLocked_def persisted_def NewHistory_def storable_def body_def [symmetric])
qed

text \<open>The operations that the shell (\<open>Write\<close>) and the dashboard (\<open>Add\<close>) record lines with.\<close>

datatype history_op = HAdd string | HWrite string

fun history_step :: "bool \<Rightarrow> history_op \<Rightarrow> history \<times> string option \<Rightarrow> history \<times> string option" where
  "history_step opens (HAdd l) s = Add opens l s"
| "history_step opens (HWrite l) s = snd (Write opens l s)"

fun op_line :: "history_op \<Rightarrow> string" where
  "op_line (HAdd l) = l"
| "op_line (HWrite l) = l"

lemma history_step_eq:
  "history_step opens op s = (if trim_space (op_line op) = [] then s else appendLocked opens (trim_space (op_line op)) s)"
  by (cases op) (simp_all add: Add_def Write_def Let_def)

lemma history_step_persisted:
  "persisted s \<Longrightarrow> storable (op_line op) \<Longrightarrow> persisted (history_step True op s)"
  using appendLocked_persisted [of "fst s" "snd s" "trim_space (op_line op)"]
  by (auto simp: history_step_eq storable_def)

section \<open>Properties\<close>

text \<open>C33: the history survives a restart: whatever lines the shell and the dashboard record, blank
  ones, repeated ones and exit commands among them, a later start reads from the file exactly
  the lines that are in memory, given a file that ends with a newline and lines without one
  inside that are shorter than 64 KiB.\<close>

theorem history_reload:
  assumes "persisted s" "list_all (storable \<circ> op_line) ops" "fold (history_step True) ops s = (h, file)"
  shows "NewHistory (hi_path h) file = h \<and> persisted (h, file)"
proof -
  have "persisted (fold (history_step True) ops s)"
    using assms(1,2)
  proof (induction ops arbitrary: s)
    case (Cons op ops)
    then show ?case
      using history_step_persisted [of s op] by simp
  qed simp
  then show ?thesis
    using assms(3) by (simp add: persisted_def)
qed

theorem history_reload_witness:
  "NewHistory ''f'' (snd (fold (history_step True) [HAdd '' stop'', HWrite ''stop'', HWrite ''exit'', HAdd ''stats'']
     (NewHistory ''f'' None, None))) = \<lparr>hi_path = ''f'', hi_lines = [''stop'', ''stats'']\<rparr>"
proof -
  have t: "trim_space '' stop'' = ''stop''" "trim_space ''stop'' = ''stop''" "trim_space ''exit'' = ''exit''"
      "trim_space ''stats'' = ''stats''"
    by code_simp+
  have p: "persisted (NewHistory ''f'' None, None)"
    by (simp add: persisted_def NewHistory_def)
  have s: "list_all (storable \<circ> op_line) [HAdd '' stop'', HWrite ''stop'', HWrite ''exit'', HAdd ''stats'']"
    by (simp add: storable_def t newline_def)
  have f: "fold (history_step True) [HAdd '' stop'', HWrite ''stop'', HWrite ''exit'', HAdd ''stats'']
     (NewHistory ''f'' None, None) = (\<lparr>hi_path = ''f'', hi_lines = [''stop'', ''stats'']\<rparr>,
       Some (''stop'' @ [newline] @ ''stats'' @ [newline]))"
    by (simp add: history_step_eq t NewHistory_def appendLocked_def)
  from history_reload [OF p s f] show ?thesis
    unfolding f by simp
qed

end
