(* ===== verification/Cli_Completion.thy ===== *)
theory Cli_Completion
  imports Go_Fmt Go_Strconv
begin

text \<open>
  Completion: \<open>pkg/cli/completion.go\<close>, \<open>pkg/cli/lscolors.go\<close> and the candidates of the shell in
  \<open>pkg/cli/shell.go\<close>. The grammar is the model that kong builds from the command structs: a tree
  of nodes with flags and positional arguments. The directory reader is a parameter.
\<close>

section \<open>The grammar\<close>

text \<open>What the code reads of a flag. A short name is a rune, \<open>None\<close> for 0.\<close>

record kflag =
  kf_name :: string
  kf_short :: "char option"
  kf_help :: string
  kf_hidden :: bool
  kf_isbool :: bool
  kf_counter :: bool
  kf_enum :: string
  kf_completion :: string
  kf_negatable :: string

text \<open>
  A node: name, aliases, help, hidden, flags, the \<open>completion\<close> tags of the positional arguments,
  children.
\<close>

datatype knode = KNode (kn_name: string) (kn_aliases: "string list") (kn_help: string) (kn_hidden: bool)
  (kn_flags: "kflag list") (kn_positional: "string list") (kn_children: "knode list")

text \<open>A position in the grammar: the node and its ancestors, up to the root.\<close>

type_synonym position = "knode list"

record candidate =
  ca_value :: string
  ca_help :: string
  ca_tag :: string
  ca_isdir :: bool
  ca_isexe :: bool

record dir_entry =
  de_name :: string
  de_isdir :: bool
  de_mode :: "int option"

type_synonym read_dir = "string \<Rightarrow> dir_entry list option"

section \<open>Looking up words\<close>

definition flag_matches :: "string \<Rightarrow> kflag \<Rightarrow> bool" where
  "flag_matches name f \<longleftrightarrow> kf_name f = name \<or> (\<exists>c. kf_short f = Some c \<and> [c] = name)"

fun findFlag_in :: "position \<Rightarrow> string \<Rightarrow> kflag option" where
  "findFlag_in [] name = None"
| "findFlag_in (n # ns) name = (case find (flag_matches name) (kn_flags n) of
      Some f \<Rightarrow> Some f
    | None \<Rightarrow> findFlag_in ns name)"

definition findFlag :: "position \<Rightarrow> string \<Rightarrow> kflag option" where
  "findFlag pos name = (case cut CHR ''='' (dropWhile (\<lambda>c. c = CHR ''-'') name) of (n, _, _) \<Rightarrow> findFlag_in pos n)"

definition findChild :: "knode \<Rightarrow> string \<Rightarrow> knode option" where
  "findChild n name = find (\<lambda>c. kn_name c = name \<or> name \<in> set (kn_aliases c)) (kn_children n)"

definition flagValueHints :: "kflag \<Rightarrow> string list" where
  "flagValueHints f = (if kf_enum f \<noteq> [] then split_on CHR '','' (kf_enum f)
     else if kf_completion f \<noteq> [] then split_on CHR '','' (kf_completion f)
     else [])"

definition takes_value :: "kflag \<Rightarrow> string \<Rightarrow> bool" where
  "takes_value f w \<longleftrightarrow> \<not> kf_isbool f \<and> \<not> kf_counter f \<and> CHR ''='' \<notin> set w"

text \<open>
  The walk over the typed words: the position, the number of positional arguments, and the flag
  whose value is being completed.
\<close>

fun walk :: "position \<Rightarrow> nat \<Rightarrow> string list \<Rightarrow> position \<times> nat \<times> kflag option" where
  "walk pos given [] = (pos, given, None)"
| "walk pos given (w # ws) =
     (if has_prefix w ''-'' then
        (case findFlag pos w of
           None \<Rightarrow> walk pos given ws
         | Some f \<Rightarrow>
             (if takes_value f w then
                (case ws of [] \<Rightarrow> (pos, given, Some f) | _ # ws' \<Rightarrow> walk pos given ws')
              else walk pos given ws))
      else
        (case findChild (hd pos) w of
           Some child \<Rightarrow> walk (child # pos) 0 ws
         | None \<Rightarrow> walk pos (Suc given) ws))"

section \<open>Candidates\<close>

definition plain_candidate :: "string \<Rightarrow> string \<Rightarrow> string \<Rightarrow> candidate" where
  "plain_candidate value help tag =
     \<lparr>ca_value = value, ca_help = help, ca_tag = tag, ca_isdir = False, ca_isexe = False\<rparr>"

definition file_candidate :: "string \<Rightarrow> dir_entry \<Rightarrow> candidate" where
  "file_candidate dir e = \<lparr>ca_value = dir @ de_name e @ (if de_isdir e then ''/'' else []), ca_help = [],
     ca_tag = ''file'', ca_isdir = de_isdir e,
     ca_isexe = (\<not> de_isdir e \<and> (case de_mode e of None \<Rightarrow> False | Some m \<Rightarrow> and m 73 \<noteq> 0))\<rparr>"

definition fileCompletions :: "read_dir \<Rightarrow> string \<Rightarrow> candidate list" where
  "fileCompletions rd prefix = (let
      (dir, base) = (case split_last CHR ''/'' prefix of None \<Rightarrow> ([], prefix) | Some (d, b) \<Rightarrow> (d, b));
      readDir = (if dir = [] then ''.'' else dir) in
    case rd readDir of
      None \<Rightarrow> []
    | Some es \<Rightarrow> map (file_candidate dir)
        (filter (\<lambda>e. has_prefix (de_name e) base \<and> \<not> (base = [] \<and> has_prefix (de_name e) ''.'')) es))"

definition command_candidates :: "knode \<Rightarrow> candidate list" where
  "command_candidates n =
     map (\<lambda>c. plain_candidate (kn_name c) (kn_help c) ''command'') (filter (Not \<circ> kn_hidden) (kn_children n))"

definition long_flag :: "kflag \<Rightarrow> string" where
  "long_flag f = ''--'' @ kf_name f"

definition short_flag :: "kflag \<Rightarrow> string" where
  "short_flag f = (case kf_short f of None \<Rightarrow> [] | Some c \<Rightarrow> [CHR ''-'', c])"

definition flag_candidates :: "string set \<Rightarrow> kflag \<Rightarrow> candidate list" where
  "flag_candidates seen f =
     (if kf_hidden f \<or> kf_name f = ''help'' \<or> long_flag f \<in> seen \<or> short_flag f \<in> seen then []
      else plain_candidate (long_flag f) (kf_help f) ''flag'' #
        (if kf_negatable f \<noteq> [] then [plain_candidate (''--no-'' @ kf_name f) (kf_help f) ''flag''] else []))"

text \<open>All the candidates that the closure \<open>addCand\<close> is offered, and the ones it keeps.\<close>

definition offered :: "read_dir \<Rightarrow> position \<Rightarrow> nat \<Rightarrow> kflag option \<Rightarrow> string set \<Rightarrow> string \<Rightarrow> candidate list" where
  "offered rd pos given valueFlag seen current = (case valueFlag of
      Some f \<Rightarrow> map (\<lambda>v. plain_candidate v [] ''value'') (flagValueHints f)
    | None \<Rightarrow> command_candidates (hd pos) @
        concat (map (\<lambda>n. concat (map (flag_candidates seen) (kn_flags n))) pos) @
        (if given < length (kn_positional (hd pos)) \<and> kn_positional (hd pos) ! given = ''file''
         then fileCompletions rd current else []))"

definition completeArgs :: "read_dir \<Rightarrow> knode \<Rightarrow> string list \<Rightarrow> bool \<Rightarrow> candidate list \<times> string" where
  "completeArgs rd app words trailing = (let
      (consumed, current) = (if \<not> trailing \<and> words \<noteq> [] then (butlast words, last words) else (words, []));
      seen = set consumed;
      (pos, given, valueFlag) = walk [app] 0 consumed in
    (filter (\<lambda>c. has_prefix (ca_value c) current \<and> ca_value c \<notin> seen)
       (offered rd pos given valueFlag seen current), current))"

text \<open>\<open>None\<close>: kong rejects the grammar.\<close>

definition Complete :: "read_dir \<Rightarrow> knode option \<Rightarrow> string \<Rightarrow> candidate list \<times> string" where
  "Complete rd grammar line = (case grammar of
      None \<Rightarrow> ([], [])
    | Some app \<Rightarrow> completeArgs rd app (fields_of line) (line = [] \<or> has_suffix line '' ''))"

text \<open>What \<open>bashComplete\<close> prints, given \<open>COMP_LINE\<close> and \<open>COMP_POINT\<close>; \<open>Inl\<close> is a slice out of range.\<close>

definition bash_line :: "nat \<Rightarrow> nat \<Rightarrow> candidate \<Rightarrow> string" where
  "bash_line n maxWidth c = (if 1 < n \<and> ca_help c \<noteq> []
     then pad_right (int maxWidth) (ca_value c) @ ''    ('' @ ca_help c @ '')'' else ca_value c)"

definition bashComplete :: "read_dir \<Rightarrow> knode \<Rightarrow> string \<Rightarrow> string \<Rightarrow> (unit + string list) option" where
  "bashComplete rd app compLine compPoint =
     (if compLine = [] then None
      else let point = (case Atoi compPoint of None \<Rightarrow> int (length compLine)
                | Some n \<Rightarrow> if int (length compLine) < n then int (length compLine) else n) in
        if point < 0 then Some (Inl ())
        else let line = take (nat point) compLine;
                 cands = filter (\<lambda>c. ca_tag c \<noteq> ''file'')
                   (fst (completeArgs rd app (tl (fields_of line)) (has_suffix line '' '')));
                 maxWidth = fold (\<lambda>c m. max m (length (ca_value c))) cands 0 in
          Some (Inr (map (bash_line (length cands) maxWidth) cands)))"

section \<open>Colours\<close>

definition ls_entry :: "string \<Rightarrow> (string \<rightharpoonup> string) \<Rightarrow> (string \<rightharpoonup> string)" where
  "ls_entry e m = (case cut CHR ''='' e of (key, val, ok) \<Rightarrow> if ok \<and> key \<noteq> [] then m(key \<mapsto> val) else m)"

definition parseLSColors :: "string \<Rightarrow> (string \<rightharpoonup> string)" where
  "parseLSColors env = fold ls_entry (split_on CHR '':'' env) Map.empty"

text \<open>A missing key reads as the empty string.\<close>

definition ls_lookup :: "(string \<rightharpoonup> string) \<Rightarrow> string \<Rightarrow> string" where
  "ls_lookup m k = (case m k of None \<Rightarrow> [] | Some v \<Rightarrow> v)"

definition fileSGR :: "(string \<rightharpoonup> string) \<Rightarrow> candidate \<Rightarrow> string" where
  "fileSGR ls c =
     (if ca_isdir c then ls_lookup ls ''di''
      else if ca_isexe c then ls_lookup ls ''ex''
      else case split_last CHR ''.'' (trim_suffix (ca_value c) ''/'') of
        None \<Rightarrow> ls_lookup ls ''fi''
      | Some (_, ext) \<Rightarrow> (let s = ls_lookup ls (''*.'' @ ext) in if s \<noteq> [] then s else ls_lookup ls ''fi''))"

definition tagLabel :: "string \<Rightarrow> string" where
  "tagLabel tag = (if tag = ''command'' then ''commands'' else if tag = ''flag'' then ''flags''
     else if tag = ''value'' then ''values'' else if tag = ''file'' then ''files'' else tag)"

text \<open>
  A completion of the readline library: value, description, tag and style. The line is its runes.
\<close>

definition shell_complete :: "(string \<rightharpoonup> string) \<Rightarrow> read_dir \<Rightarrow> knode option \<Rightarrow> string list \<Rightarrow> nat \<Rightarrow>
    (string \<times> string \<times> string \<times> string) list" where
  "shell_complete ls rd grammar line cursor =
     map (\<lambda>c. (ca_value c, ca_help c, tagLabel (ca_tag c), fileSGR ls c))
       (fst (Complete rd grammar (concat (take cursor line))))"

section \<open>Lemmas\<close>

lemma has_prefix_iff: "has_prefix s p \<longleftrightarrow> (\<exists>t. s = p @ t)"
  by (metis append_take_drop_id has_prefix_append has_prefix_def)

text \<open>The last word of a line that does not end in white space is a suffix of the line.\<close>

lemma fields_of_last:
  assumes "line \<noteq> []" "\<not> is_space (last line)"
  shows "fields_of line \<noteq> [] \<and> (\<exists>h. line = h @ last (fields_of line))"
  using assms
proof (induction line rule: fields_of.induct)
  case (1 s)
  define u where "u = takeWhile is_space s"
  have u: "s = u @ dropWhile is_space s"
    by (simp add: u_def)
  have ne: "dropWhile is_space s \<noteq> []"
  proof
    assume "dropWhile is_space s = []"
    then have "\<forall>c \<in> set s. is_space c"
      by (simp only: dropWhile_eq_Nil_conv)
    with 1(2,3) show False
      by (meson last_in_set)
  qed
  then obtain c cs where c: "dropWhile is_space s = c # cs"
    by (metis neq_Nil_conv)
  let ?w = "c # takeWhile (Not \<circ> is_space) cs" and ?r = "dropWhile (Not \<circ> is_space) cs"
  have f: "fields_of s = ?w # fields_of ?r"
    by (subst fields_of.simps) (simp only: c list.case)
  have s: "s = (u @ ?w) @ ?r"
    using u c by simp
  show ?case
  proof (cases "?r = []")
    case True
    then have "fields_of ?r = []"
      by (simp only: True fields_of.simps [of "[]"]) simp
    then have "last (fields_of s) = ?w" "fields_of s \<noteq> []"
      by (simp_all only: f last.simps if_True list.distinct simp_thms)
    then show ?thesis
      using s True by auto
  next
    case False
    then have "last s = last ?r"
      using s by (metis last_appendR)
    then have "\<not> is_space (last ?r)"
      using 1(3) by simp
    from 1(1) [OF c False this] obtain h where h: "fields_of ?r \<noteq> []" "?r = h @ last (fields_of ?r)"
      by blast
    have "last (fields_of s) = last (fields_of ?r)" "fields_of s \<noteq> []"
      using h(1) by (simp_all only: f last.simps if_False list.distinct simp_thms)
    moreover have "s = (u @ ?w @ h) @ last (fields_of ?r)"
      using s h(2) by (metis append.assoc)
    ultimately show ?thesis
      by metis
  qed
qed

text \<open>White space in a command line is a space.\<close>

definition spaces_only :: "string \<Rightarrow> bool" where
  "spaces_only line \<longleftrightarrow> (\<forall>c \<in> set line. is_space c \<longrightarrow> c = CHR '' '')"

lemma completeArgs_current:
  "snd (completeArgs rd app words trailing) = (if \<not> trailing \<and> words \<noteq> [] then last words else [])"
  by (simp add: completeArgs_def case_prod_beta Let_def)

lemma completeArgs_sound:
  assumes "completeArgs rd app words trailing = (cands, current)" "c \<in> set cands"
  shows "has_prefix (ca_value c) current \<and>
    ca_value c \<notin> set (if \<not> trailing \<and> words \<noteq> [] then butlast words else words)"
  using assms by (auto simp: completeArgs_def case_prod_beta Let_def split: if_splits)

lemma Complete_prefix:
  assumes "spaces_only line" "Complete rd grammar line = (cands, current)"
  shows "\<exists>h. line = h @ current"
proof (cases grammar)
  case None
  with assms(2) show ?thesis
    by (simp add: Complete_def)
next
  case (Some app)
  let ?t = "line = [] \<or> has_suffix line '' ''"
  have cur: "current = (if \<not> ?t \<and> fields_of line \<noteq> [] then last (fields_of line) else [])"
    using assms(2) completeArgs_current [of rd app "fields_of line" ?t] by (simp add: Complete_def Some)
  show ?thesis
  proof (cases ?t)
    case False
    then have "line \<noteq> []" "last line \<noteq> CHR '' ''"
      by (auto simp: has_suffix_iff) (metis append_butlast_last_id)
    then have "\<not> is_space (last line)"
      using assms(1) by (auto simp: spaces_only_def)
    from fields_of_last [OF \<open>line \<noteq> []\<close> this] show ?thesis
      unfolding cur using False by auto
  qed (simp add: cur)
qed

lemma walk_append:
  "walk pos given ws = (pos', given', None) \<Longrightarrow> walk pos given (ws @ vs) = walk pos' given' vs"
proof (induction pos given ws rule: walk.induct)
  case (2 pos given w ws)
  show ?case
  proof (cases "has_prefix w ''-''")
    case True
    note pre = True
    show ?thesis
    proof (cases "findFlag pos w")
      case None
      with 2 pre show ?thesis by simp
    next
      case (Some f)
      show ?thesis
      proof (cases "takes_value f w")
        case True
        with 2 pre Some show ?thesis by (cases ws) simp_all
      next
        case False
        with 2 pre Some show ?thesis by simp
      qed
    qed
  next
    case False
    with 2 show ?thesis by (cases "findChild (hd pos) w") simp_all
  qed
qed simp

lemma walk_position: "walk pos given ws = (pos', given', vf) \<Longrightarrow> pos \<noteq> [] \<Longrightarrow> pos' \<noteq> []"
proof (induction pos given ws rule: walk.induct)
  case (2 pos given w ws)
  show ?case
  proof (cases "has_prefix w ''-''")
    case True
    note pre = True
    show ?thesis
    proof (cases "findFlag pos w")
      case None
      with 2 True show ?thesis by simp
    next
      case (Some f)
      show ?thesis
      proof (cases "takes_value f w")
        case True
        with 2 pre Some show ?thesis by (cases ws) simp_all
      next
        case False
        with 2 pre Some show ?thesis by simp
      qed
    qed
  next
    case False
    with 2 show ?thesis by (cases "findChild (hd pos) w") simp_all
  qed
qed simp

lemma distinct_concat_same:
  "distinct (concat (map f xs)) \<Longrightarrow> x \<in> set xs \<Longrightarrow> y \<in> set xs \<Longrightarrow> v \<in> set (f x) \<Longrightarrow> v \<in> set (f y) \<Longrightarrow> x = y"
  by (induction xs) auto

text \<open>
  The names a node gives to its children and flags are the ones kong accepts: names and aliases
  of the children differ and do not look like flags, flag names hold no equals sign and start
  with no dash.
\<close>

definition child_names :: "knode \<Rightarrow> string list" where
  "child_names c = kn_name c # kn_aliases c"

definition node_ok :: "knode \<Rightarrow> bool" where
  "node_ok n \<longleftrightarrow> distinct (concat (map child_names (kn_children n))) \<and>
     (\<forall>c \<in> set (kn_children n). \<not> has_prefix (kn_name c) ''-'') \<and>
     (\<forall>f \<in> set (kn_flags n). CHR ''='' \<notin> set (kf_name f) \<and> \<not> has_prefix (kf_name f) ''-'')"

lemma findChild_named:
  assumes "node_ok n" "c \<in> set (kn_children n)"
  shows "findChild n (kn_name c) = Some c"
proof -
  have c: "kn_name c = kn_name c \<or> kn_name c \<in> set (kn_aliases c)" by simp
  then have "findChild n (kn_name c) \<noteq> None"
    using assms(2) by (auto simp: findChild_def find_None_iff)
  then obtain d where d: "findChild n (kn_name c) = Some d" by auto
  then have "d \<in> set (kn_children n)" "kn_name c \<in> set (child_names d)"
    by (auto simp: findChild_def child_names_def find_Some_iff)
  moreover have "kn_name c \<in> set (child_names c)"
    by (simp add: child_names_def)
  ultimately have "d = c"
    using assms distinct_concat_same [of child_names "kn_children n" d c] by (simp add: node_ok_def)
  with d show ?thesis by simp
qed

lemma findFlag_in_named:
  "n \<in> set pos \<Longrightarrow> f \<in> set (kn_flags n) \<Longrightarrow> \<exists>g. findFlag_in pos (kf_name f) = Some g \<and> flag_matches (kf_name f) g"
proof (induction pos)
  case (Cons m pos)
  show ?case
  proof (cases "find (flag_matches (kf_name f)) (kn_flags m)")
    case None
    then have "n \<in> set pos"
      using Cons.prems by (auto simp: find_None_iff flag_matches_def)
    with Cons.IH Cons.prems(2) None show ?thesis by simp
  next
    case (Some g)
    then have "flag_matches (kf_name f) g"
      by (auto simp: find_Some_iff)
    with Some show ?thesis by simp
  qed
qed simp

lemma findFlag_long:
  assumes "n \<in> set pos" "f \<in> set (kn_flags n)" "node_ok n"
  shows "\<exists>g. findFlag pos (long_flag f) = Some g \<and> flag_matches (kf_name f) g"
proof -
  have "dropWhile (\<lambda>c. c = CHR ''-'') (kf_name f) = kf_name f" "CHR ''='' \<notin> set (kf_name f)"
    using assms(2,3) by (cases "kf_name f"; auto simp: node_ok_def has_prefix_def)+
  then show ?thesis
    using findFlag_in_named [OF assms(1,2)] by (simp add: findFlag_def long_flag_def cut_none)
qed

section \<open>The grammar of the program\<close>

text \<open>
  The traffic commands, as kong reads the struct \<open>Commands\<close> of \<open>commands.go\<close>: field names in
  kebab case, with the short names, defaults and tags of the struct.
\<close>

definition flag :: "string \<Rightarrow> string \<Rightarrow> string \<Rightarrow> kflag" where
  "flag name short help = \<lparr>kf_name = name, kf_short = (case short of [] \<Rightarrow> None | c # _ \<Rightarrow> Some c), kf_help = help,
     kf_hidden = False, kf_isbool = False, kf_counter = False, kf_enum = [], kf_completion = [], kf_negatable = []\<rparr>"

definition bool_flag :: "string \<Rightarrow> string \<Rightarrow> string \<Rightarrow> kflag" where
  "bool_flag name short help = (flag name short help)\<lparr>kf_isbool := True\<rparr>"

definition streams_grammar :: knode where
  "streams_grammar = KNode ''streams'' [] ''Load a profile onto ports.'' False
     [flag ''ports'' ''p'' ''Ports to load the profile onto.'',
      flag ''tunables'' ''t'' ''Profile tunable key=value (repeatable).'',
      bool_flag ''force'' ''f'' ''Force-acquire ports even if owned by another session.''] [''file''] []"

definition start_grammar :: knode where
  "start_grammar = KNode ''start'' [] ''Start traffic on acquired ports.'' False
     [flag ''mult'' ''m'' ''Rate as percentage of line rate.'',
      flag ''duration'' ''d'' ''Duration in seconds (0 = until stopped).''] [] []"

definition stop_grammar :: knode where
  "stop_grammar = KNode ''stop'' [] ''Stop traffic on all acquired ports.'' False
     [flag ''ports'' ''p'' ''Ports to stop when none are held in this session.'',
      (bool_flag ''force'' ''f'' ''Force-acquire the ports in order to stop them.'')\<lparr>kf_negatable := ''true''\<rparr>] [] []"

definition ndr_grammar :: knode where
  "ndr_grammar = KNode ''ndr'' [] ''Run an NDR search.'' False
     [flag ''duration'' ''d'' ''Per-iteration run duration in seconds.'',
      flag ''first-duration'' [] ''First 100% probe duration in seconds (0 = same as --duration).'',
      flag ''pdr'' [] ''Acceptable drop rate as percent of traffic; 0 = strict no-drop.'',
      flag ''window'' ''w'' ''Search resolution: stop once the rate bracket is narrower than this (percent of line rate).'',
      flag ''q-full'' ''q'' ''Max queue-full (percent of tx) before a run counts as generator-limited, not a valid DUT result.'',
      flag ''max-iterations'' ''x'' ''Maximum number of binary-search iterations.'',
      bool_flag ''opt-bin-search'' [] ''Optimized binary search: seed the interval from the 100% drop rate instead of [0,100].'',
      flag ''opt-bin-search-percent'' [] ''Half-width (percent) of the optimized search interval.'',
      flag ''ramp-up-time'' [] ''Seconds to ramp traffic up to the target at the start of each run (0 = start straight at target).'',
      flag ''title'' ''T'' ''Title recorded in the results and JSON report.'',
      bool_flag ''verbose'' ''v'' ''Print each iteration's result as the search runs.'',
      flag ''out'' ''o'' ''Write full results as JSON to this file.'',
      flag ''ports'' ''p'' ''Ports to run the search on.'',
      flag ''tunables'' ''t'' ''Profile tunable key=value (repeatable).'',
      bool_flag ''force'' ''f'' ''Force-acquire ports even if owned by another session.''] [''file''] []"

definition commands_grammar :: knode where
  "commands_grammar = KNode [] [] [] False [bool_flag ''help'' ''h'' ''Show context-sensitive help.'']
     []
     [streams_grammar, start_grammar, stop_grammar,
      KNode ''stats'' [] ''Show global and flow-group stats.'' False [] [] [],
      KNode ''clear'' [] ''Baseline stats counters.'' False [] [] [], ndr_grammar]"

section \<open>Properties\<close>

text \<open>C34: completion offers only words that continue what was typed, that were not typed before and
  that the walk over the grammar understands: with a subcommand appended the walk descends into
  a visible child of that name, and a flag, when it is not a negation, is found again.\<close>

theorem completeArgs_understood:
  assumes "completeArgs rd app words trailing = (cands, current)" "c \<in> set cands"
    and "consumed = (if \<not> trailing \<and> words \<noteq> [] then butlast words else words)"
    and "walk [app] 0 consumed = (pos, given, None)" "\<forall>n \<in> set pos. node_ok n"
  shows "has_prefix (ca_value c) current \<and> ca_value c \<notin> set consumed \<and>
    (ca_tag c = ''command'' \<longrightarrow> (\<exists>child \<in> set (kn_children (hd pos)). \<not> kn_hidden child \<and>
       kn_name child = ca_value c \<and> walk [app] 0 (consumed @ [ca_value c]) = (child # pos, 0, None))) \<and>
    (ca_tag c = ''flag'' \<longrightarrow> (\<exists>n \<in> set pos. \<exists>f \<in> set (kn_flags n). \<not> kf_hidden f \<and>
       (ca_value c = long_flag f \<and> (\<exists>g. findFlag pos (ca_value c) = Some g \<and> flag_matches (kf_name f) g) \<or>
        kf_negatable f \<noteq> [] \<and> ca_value c = ''--no-'' @ kf_name f)))"
proof -
  have c: "c \<in> set (offered rd pos given None (set consumed) current)"
    using assms(1-4) by (auto simp: completeArgs_def Let_def split: if_splits)
  have tags: "ca_tag c \<noteq> ''file''" if "ca_tag c = ''command'' \<or> ca_tag c = ''flag''"
    using that by auto
  have files: "ca_tag d = ''file''" if "d \<in> set (fileCompletions rd current)" for d
    using that by (auto simp: fileCompletions_def Let_def file_candidate_def split: option.splits prod.splits)
  have ne: "pos \<noteq> []"
    using walk_position [OF assms(4)] by simp
  have "\<exists>child \<in> set (kn_children (hd pos)). \<not> kn_hidden child \<and>
       kn_name child = ca_value c \<and> walk [app] 0 (consumed @ [ca_value c]) = (child # pos, 0, None)"
    if t: "ca_tag c = ''command''"
  proof -
    have "c \<in> set (command_candidates (hd pos))"
      using c t files by (auto simp: offered_def flag_candidates_def plain_candidate_def split: if_splits)
    then obtain ch where ch: "ch \<in> set (kn_children (hd pos))" "\<not> kn_hidden ch" "ca_value c = kn_name ch"
      by (auto simp: command_candidates_def plain_candidate_def)
    moreover have ok: "node_ok (hd pos)"
      using assms(5) ne by simp
    then have "\<not> has_prefix (kn_name ch) ''-''"
      using ch(1) by (auto simp: node_ok_def)
    ultimately show ?thesis
      using walk_append [OF assms(4), of "[ca_value c]"] findChild_named [OF ok ch(1)] by auto
  qed
  moreover have "\<exists>n \<in> set pos. \<exists>f \<in> set (kn_flags n). \<not> kf_hidden f \<and>
       (ca_value c = long_flag f \<and> (\<exists>g. findFlag pos (ca_value c) = Some g \<and> flag_matches (kf_name f) g) \<or>
        kf_negatable f \<noteq> [] \<and> ca_value c = ''--no-'' @ kf_name f)"
    if t: "ca_tag c = ''flag''"
  proof -
    obtain n f where nf: "n \<in> set pos" "f \<in> set (kn_flags n)" "c \<in> set (flag_candidates (set consumed) f)"
      using c t files by (auto simp: offered_def command_candidates_def plain_candidate_def split: if_splits)
    then show ?thesis
      using findFlag_long [OF nf(1,2)] assms(5)
      by (intro bexI [of _ n] bexI [of _ f]) (auto simp: flag_candidates_def plain_candidate_def split: if_splits)
  qed
  ultimately show ?thesis
    using completeArgs_sound [OF assms(1,2)] assms(3) by blast
qed

theorem completeArgs_understood_witness:
  "map ca_value (fst (completeArgs (\<lambda>_. None) commands_grammar [''st''] False)) = [''streams'', ''start'', ''stop'', ''stats''] \<and>
   map ca_value (fst (completeArgs (\<lambda>_. None) commands_grammar [''stop'', ''--p''] False)) = [''--ports''] \<and>
   (\<exists>n \<in> {stop_grammar, commands_grammar}. \<exists>f \<in> set (kn_flags n). long_flag f = ''--ports'' \<or> kf_negatable f \<noteq> [])"
proof -
  have v: "map ca_value (fst (completeArgs (\<lambda>_. None) commands_grammar [''st''] False)) = [''streams'', ''start'', ''stop'', ''stats'']"
    by code_simp
  have p: "completeArgs (\<lambda>_. None) commands_grammar [''stop'', ''--p''] False =
      ([plain_candidate ''--ports'' ''Ports to stop when none are held in this session.'' ''flag''], ''--p'')"
    by code_simp
  have w: "walk [commands_grammar] 0 [''stop''] = ([stop_grammar, commands_grammar], 0, None)"
    by code_simp
  have ok: "\<forall>n \<in> set [stop_grammar, commands_grammar]. node_ok n"
    by code_simp
  have m: "plain_candidate ''--ports'' ''Ports to stop when none are held in this session.'' ''flag'' \<in>
      set [plain_candidate ''--ports'' ''Ports to stop when none are held in this session.'' ''flag'']"
    by simp
  have cs: "[''stop''] = (if \<not> False \<and> [''stop'', ''--p''] \<noteq> [] then butlast [''stop'', ''--p''] else [''stop'', ''--p''])"
    by simp
  from completeArgs_understood [OF p m cs w ok] show ?thesis
    using v by (auto simp: p plain_candidate_def)
qed

end
