(* ===== verification/Cli_Shell.thy ===== *)
theory Cli_Shell
  imports Cli_Commands
begin

text \<open>
  Dispatching command lines and the interactive shell: \<open>pkg/cli/cli.go\<close> and the loop of
  \<open>pkg/cli/shell.go\<close>. The parser of kong, which turns words into a command with its options, and
  the texts of errors are parameters. The signal handler of a command acts through the sleeps of
  its environment, which tell whether they were cut short.
\<close>

section \<open>Dispatch\<close>

text \<open>The commands of the struct \<open>Commands\<close>.\<close>

datatype traffic_cmd =
    TStreams streams_cmd
  | TStart start_cmd
  | TStop stop_cmd
  | TStats
  | TClear
  | TNdr ndr_cmd

fun traffic_Run :: "'w cli_env \<Rightarrow> traffic_cmd \<Rightarrow> 'w cli_context \<Rightarrow> (cli_error + unit) \<times> 'w cli_context" where
  "traffic_Run e (TStreams c) cx = StreamsCmd_Run e c cx"
| "traffic_Run e (TStart c) cx = StartCmd_Run e c cx"
| "traffic_Run e (TStop c) cx = StopCmd_Run e c cx"
| "traffic_Run e TStats cx = StatsCmd_Run e cx"
| "traffic_Run e TClear cx = ClearCmd_Run e cx"
| "traffic_Run e (TNdr c) cx = NDRCmd_Run e c cx"

datatype cmd_error =
    CmdParse string
  | CmdRun cli_error
  | CmdClient client_error
  | CmdCall call_error
  | CmdPorts
  | CmdScreen string

text \<open>\<open>DispatchGrammar\<close> for any grammar: its parser and what running one of its commands does.\<close>

definition DispatchGrammar :: "(string list \<Rightarrow> string + 'c) \<Rightarrow> ('c \<Rightarrow> 's \<Rightarrow> (cmd_error + unit) \<times> 's) \<Rightarrow>
    string \<Rightarrow> 's \<Rightarrow> (cmd_error + unit) \<times> 's" where
  "DispatchGrammar parse runc line s = (let fields = fields_of line in
     if fields = [] then (Inr (), s)
     else (case parse fields of
        Inl e \<Rightarrow> (Inl (CmdParse e), s)
      | Inr cmd \<Rightarrow> runc cmd s))"

definition run_traffic :: "'w cli_env \<Rightarrow> traffic_cmd \<Rightarrow> 'w cli_context \<Rightarrow> (cmd_error + unit) \<times> 'w cli_context" where
  "run_traffic e cmd cx = (case traffic_Run e cmd cx of (r, cx') \<Rightarrow> (map_err CmdRun r, cx'))"

definition Cli_Dispatch :: "(string list \<Rightarrow> string + traffic_cmd) \<Rightarrow> 'w cli_env \<Rightarrow> string \<Rightarrow> 'w cli_context \<Rightarrow>
    (cmd_error + unit) \<times> 'w cli_context" where
  "Cli_Dispatch parse e = DispatchGrammar parse (run_traffic e)"

section \<open>The shell\<close>

text \<open>What a call of \<open>Readline\<close> returns. With a line comes what the outside does while it runs.\<close>

datatype 'e read_result =
    RInterrupt
  | REof
  | RFailed string
  | RLine string 'e

text \<open>
  The loop of \<open>Shell.Run\<close> over the state \<open>'s\<close> that commands act on, to which \<open>put\<close> writes a text;
  \<open>None\<close>: it waits for more input after the given reads.
\<close>

fun Shell_loop :: "(cmd_error \<Rightarrow> string) \<Rightarrow> (string \<Rightarrow> 's \<Rightarrow> 's) \<Rightarrow> ('e \<Rightarrow> string \<Rightarrow> 's \<Rightarrow> (cmd_error + unit) \<times> 's) \<Rightarrow>
    'e read_result list \<Rightarrow> 's \<Rightarrow> (string + unit) option \<times> 's" where
  "Shell_loop txt put disp [] s = (None, s)"
| "Shell_loop txt put disp (RInterrupt # rs) s = Shell_loop txt put disp rs s"
| "Shell_loop txt put disp (REof # rs) s = (Some (Inr ()), s)"
| "Shell_loop txt put disp (RFailed e # rs) s = (Some (Inl e), s)"
| "Shell_loop txt put disp (RLine line e # rs) s = (let t = trim_space line in
     if t = [] then Shell_loop txt put disp rs s
     else if t = ''exit'' \<or> t = ''quit'' then (Some (Inr ()), s)
     else (case disp e line s of
        (Inl err, s') \<Rightarrow> Shell_loop txt put disp rs (put (''error: '' @ txt err @ [CHR 0x0A]) s')
      | (Inr _, s') \<Rightarrow> Shell_loop txt put disp rs s'))"

section \<open>Lemmas\<close>

text \<open>
  What dispatching a line and writing a text keep, a session of the shell keeps; \<open>ok\<close> says what
  dispatching needs of the outside.
\<close>

locale shell_step =
  fixes put :: "string \<Rightarrow> 's \<Rightarrow> 's"
    and disp :: "'e \<Rightarrow> string \<Rightarrow> 's \<Rightarrow> (cmd_error + unit) \<times> 's"
    and ok :: "'e \<Rightarrow> bool"
    and good :: "'s \<Rightarrow> bool"
  assumes disp_good: "ok e \<Longrightarrow> good s \<Longrightarrow> good (snd (disp e line s))"
    and put_good: "good s \<Longrightarrow> good (put txt s)"
begin

lemma loop_good:
  "\<forall>line e. RLine line e \<in> set rs \<longrightarrow> ok e \<Longrightarrow> good s \<Longrightarrow> good (snd (Shell_loop txt put disp rs s))"
proof (induction rs arbitrary: s)
  case (Cons r rs)
  have rest: "\<forall>line e. RLine line e \<in> set rs \<longrightarrow> ok e"
    using Cons.prems(1) by simp
  show ?case
  proof (cases r)
    case (RLine line e)
    obtain res s' where d: "disp e line s = (res, s')" by fastforce
    have "ok e"
      using Cons.prems(1) RLine by simp
    then have s': "good s'"
      using disp_good [OF _ Cons.prems(2), of e line] d by simp
    show ?thesis
      using Cons.IH [OF rest Cons.prems(2)] Cons.IH [OF rest s'] Cons.IH [OF rest put_good [OF s']] Cons.prems(2) RLine d
      by (cases res) (simp_all add: Let_def)
  qed (use Cons.IH [OF rest Cons.prems(2)] Cons.prems(2) in simp_all)
qed simp

end

lemma DispatchGrammar_inv:
  "P s \<Longrightarrow> (\<And>cmd. P (snd (runc cmd s))) \<Longrightarrow> P (snd (DispatchGrammar parse runc line s))"
  by (simp add: DispatchGrammar_def Let_def split: sum.split)

end
