(* ===== verification/Tui_App.thy ===== *)
theory Tui_App
  imports Cli_Shell Cli_Completion Cli_History
begin

text \<open>
  The dashboard: \<open>pkg/tui/app.go\<close>. The state is the one of \<open>App\<close> with the context of the commands
  and the shared history. The goroutine that polls the port status takes its turns between the
  events of the main loop. The terminal library is outside: its events are inputs, and drawing
  (see \<open>Tui_View\<close>) changes nothing here.
\<close>

section \<open>State\<close>

record app =
  ap_version :: version
  ap_ports :: "port_info list"
  ap_status :: "int \<rightharpoonup> port_status"
  ap_input :: string
  ap_console :: "string list"
  ap_histIdx :: int
  ap_menuActive :: bool
  ap_menuIdx :: int
  ap_menuCands :: "candidate list"
  ap_menuHead :: string
  ap_menuOrig :: string

text \<open>The history comes with its file and whether that can be written; there may be none.\<close>

record 'w tui =
  tu_app :: app
  tu_cx :: "'w cli_context"
  tu_history :: "(history \<times> string option) option"

datatype keycode = KeyTab | KeyEsc | KeyUp | KeyDown | KeyEnter | KeyBackspace | KeyOther

text \<open>What the code asks of a key: the two \<open>Matches\<close>, the code, the shift modifier and the text.\<close>

record key =
  ke_ctrl_c :: bool
  ke_ctrl_d :: bool
  ke_code :: keycode
  ke_shift :: bool
  ke_text :: string

record tui_env =
  te_parse :: "string list \<Rightarrow> string + traffic_cmd"
  te_grammar :: "knode option"
  te_dir :: read_dir
  te_opens :: bool
  te_text :: "cmd_error \<Rightarrow> string"

section \<open>Console\<close>

definition consoleMax :: nat where "consoleMax = 200"

definition app_log :: "string \<Rightarrow> app \<Rightarrow> app" where
  "app_log s a = (let c = ap_console a @ split_on newline (rev (dropWhile (\<lambda>x. x = newline) (rev s))) in
     a\<lparr>ap_console := (if consoleMax < length c then drop (length c - consoleMax) c else c)\<rparr>)"

section \<open>Completion menu\<close>

definition applyMenu :: "app \<Rightarrow> app" where
  "applyMenu a = (if 0 \<le> ap_menuIdx a \<and> ap_menuIdx a < int (length (ap_menuCands a))
     then a\<lparr>ap_input := ap_menuHead a @ ca_value (ap_menuCands a ! nat (ap_menuIdx a))\<rparr> else a)"

definition moveMenu :: "int \<Rightarrow> app \<Rightarrow> app" where
  "moveMenu delta a = (let n = int (length (ap_menuCands a)) in
     if n = 0 then a else applyMenu (a\<lparr>ap_menuIdx := go_rem (ap_menuIdx a + delta + n) n\<rparr>))"

definition closeMenu :: "app \<Rightarrow> app" where
  "closeMenu a = a\<lparr>ap_menuActive := False, ap_menuCands := []\<rparr>"

text \<open>\<open>sort.Slice\<close> may permute candidates of equal value; here they keep their order.\<close>

definition app_complete :: "read_dir \<Rightarrow> knode option \<Rightarrow> bool \<Rightarrow> app \<Rightarrow> app" where
  "app_complete rd grammar forward a =
     (if ap_menuActive a then (if forward then moveMenu 1 a else moveMenu (-1) a)
      else (case Complete rd grammar (ap_input a) of (cands0, prefix) \<Rightarrow>
        if cands0 = [] then a
        else let cands = sort_key ca_value cands0;
                 a1 = a\<lparr>ap_menuOrig := ap_input a, ap_menuHead := take (length (ap_input a) - length prefix) (ap_input a)\<rparr> in
          if length cands = 1 then a1\<lparr>ap_input := ap_menuHead a1 @ ca_value (hd cands) @ '' ''\<rparr>
          else applyMenu (a1\<lparr>ap_menuCands := cands, ap_menuIdx := 0, ap_menuActive := True\<rparr>)))"

section \<open>Command line\<close>

definition historyRecall :: "int \<Rightarrow> (history \<times> string option) option \<Rightarrow> app \<Rightarrow> app" where
  "historyRecall delta hist a = (case hist of
      None \<Rightarrow> a
    | Some (h, _) \<Rightarrow> (let lines = Lines h; idx = ap_histIdx a + delta in
        if idx < 0 then a
        else if int (length lines) \<le> idx then a\<lparr>ap_histIdx := int (length lines), ap_input := []\<rparr>
        else a\<lparr>ap_histIdx := idx, ap_input := lines ! nat idx\<rparr>))"

text \<open>
  \<open>cli.Dispatch\<close> with the writer of the commands routed to the console: every text they write is
  one call of \<open>log\<close>.
\<close>

definition tui_dispatch :: "tui_env \<Rightarrow> 'w cli_env \<Rightarrow> string \<Rightarrow> 'w tui \<Rightarrow> (cmd_error + unit) \<times> 'w tui" where
  "tui_dispatch te e line t =
     (case Cli_Dispatch (te_parse te) e line ((tu_cx t)\<lparr>cx_out := []\<rparr>) of
        (r, cx) \<Rightarrow> (r, t\<lparr>tu_cx := cx\<lparr>cx_out := cx_out (tu_cx t)\<rparr>, tu_app := fold app_log (cx_out cx) (tu_app t)\<rparr>))"

definition runInput :: "tui_env \<Rightarrow> 'w cli_env \<Rightarrow> 'w tui \<Rightarrow> 'w tui" where
  "runInput te e t = (let line = ap_input (tu_app t); a0 = (tu_app t)\<lparr>ap_input := []\<rparr> in
     if line = [] then t\<lparr>tu_app := a0\<rparr>
     else let hist = map_option (Add (te_opens te) line) (tu_history t);
              a1 = (case hist of None \<Rightarrow> a0 | Some (h, _) \<Rightarrow> a0\<lparr>ap_histIdx := int (Len h)\<rparr>);
              a2 = app_log (''> '' @ line) a1 in
       (case tui_dispatch te e line (t\<lparr>tu_app := a2, tu_history := hist\<rparr>) of
          (Inl err, t') \<Rightarrow> t'\<lparr>tu_app := app_log (''error: '' @ te_text te err) (tu_app t')\<rparr>
        | (Inr _, t') \<Rightarrow> t'))"

section \<open>Events\<close>

definition with_app :: "(app \<Rightarrow> app) \<Rightarrow> 'w tui \<Rightarrow> 'w tui" where
  "with_app f t = t\<lparr>tu_app := f (tu_app t)\<rparr>"

text \<open>A key: the state after it, and whether it quits.\<close>

definition handleKey :: "tui_env \<Rightarrow> 'w cli_env \<Rightarrow> key \<Rightarrow> 'w tui \<Rightarrow> bool \<times> 'w tui" where
  "handleKey te e k t = (let a = tu_app t in
     if ke_ctrl_c k \<or> ke_ctrl_d k then (True, t)
     else (False,
       if ke_code k = KeyTab \<and> ke_shift k then with_app (app_complete (te_dir te) (te_grammar te) False) t
       else if ke_code k = KeyTab \<or> ke_text k = ''?'' then with_app (app_complete (te_dir te) (te_grammar te) True) t
       else if ke_code k = KeyEsc then
         with_app (\<lambda>a. closeMenu (if ap_menuActive a then a\<lparr>ap_input := ap_menuOrig a\<rparr> else a)) t
       else if ap_menuActive a \<and> ke_code k = KeyUp then with_app (moveMenu (-1)) t
       else if ap_menuActive a \<and> ke_code k = KeyDown then with_app (moveMenu 1) t
       else if ke_code k = KeyUp then with_app (historyRecall (-1) (tu_history t)) t
       else if ke_code k = KeyDown then with_app (historyRecall 1 (tu_history t)) t
       else if ke_code k = KeyEnter then runInput te e (with_app closeMenu t)
       else if ke_code k = KeyBackspace then
         with_app (\<lambda>a. let b = closeMenu a in if ap_input b \<noteq> [] then b\<lparr>ap_input := butlast (ap_input b)\<rparr> else b) t
       else if ke_text k \<noteq> [] then
         with_app (\<lambda>a. let b = closeMenu a in b\<lparr>ap_input := ap_input b @ ke_text k\<rparr>) t
       else t))"

text \<open>One round of the status poller over the ports: a failed request leaves the old status.\<close>

fun refresh_ports :: "'w env \<Rightarrow> port_info list \<Rightarrow> 'w conn \<Rightarrow> (int \<rightharpoonup> port_status) \<Rightarrow> 'w conn \<times> (int \<rightharpoonup> port_status)" where
  "refresh_ports en [] c st = (c, st)"
| "refresh_ports en (info # ps) c st = (case Status en (Client_Port (pi_index info)) c of
      (Inl _, c') \<Rightarrow> refresh_ports en ps c' st
    | (Inr s, c') \<Rightarrow> refresh_ports en ps c' (st(pi_index info \<mapsto> s)))"

definition refreshStatus :: "'w env \<Rightarrow> 'w tui \<Rightarrow> 'w tui" where
  "refreshStatus en t = (case refresh_ports en (ap_ports (tu_app t)) (cx_conn (tu_cx t)) (ap_status (tu_app t)) of
      (c, st) \<Rightarrow> t\<lparr>tu_cx := (tu_cx t)\<lparr>cx_conn := c\<rparr>, tu_app := (tu_app t)\<lparr>ap_status := st\<rparr>\<rparr>)"

text \<open>\<open>pollStatus\<close> until its context is cancelled: a round at once, then one after each tick.\<close>

fun pollStatus :: "'w env \<Rightarrow> 'w env list \<Rightarrow> 'w tui \<Rightarrow> 'w tui" where
  "pollStatus en [] t = refreshStatus en t"
| "pollStatus en (en' # ticks) t = pollStatus en' ticks (refreshStatus en t)"

definition zero_status :: port_status where
  "zero_status = \<lparr>px_owner = [], px_state = [], px_linkUp = False, px_speed = Fin 0\<rparr>"

definition portStatus :: "app \<Rightarrow> int \<Rightarrow> port_status" where
  "portStatus a i = (case ap_status a i of None \<Rightarrow> zero_status | Some s \<Rightarrow> s)"

text \<open>
  What happens at the select of the loop, with the outside of the command a key may run, and
  the rounds of the poller in between.
\<close>

datatype 'w tui_event =
    EvDone
  | EvTick
  | EvResize
  | EvKey key "'w cli_env"
  | EvPoll "'w env"

fun tui_event_step :: "tui_env \<Rightarrow> 'w tui_event \<Rightarrow> 'w tui \<Rightarrow> bool \<times> 'w tui" where
  "tui_event_step te EvDone t = (True, t)"
| "tui_event_step te EvTick t = (False, t)"
| "tui_event_step te EvResize t = (False, t)"
| "tui_event_step te (EvKey k e) t = handleKey te e k t"
| "tui_event_step te (EvPoll en) t = (False, refreshStatus en t)"

text \<open>The loop: whether it has returned, and the state.\<close>

fun tui_loop :: "tui_env \<Rightarrow> 'w tui_event list \<Rightarrow> 'w tui \<Rightarrow> bool \<times> 'w tui" where
  "tui_loop te [] t = (False, t)"
| "tui_loop te (ev # evs) t = (case tui_event_step te ev t of
      (True, t') \<Rightarrow> (True, t')
    | (False, t') \<Rightarrow> tui_loop te evs t')"

text \<open>The rounds of the poller are the events of the loop in which nothing else happens.\<close>

lemma tui_loop_poll: "tui_loop te (map EvPoll (en # ticks)) t = (False, pollStatus en ticks t)"
  by (induction ticks arbitrary: en t) simp_all

section \<open>Start\<close>

definition zero_version :: version where
  "zero_version = \<lparr>ve_version = [], ve_build_date = [], ve_build_time = [], ve_built_by = [], ve_mode = []\<rparr>"

definition loadStatic :: "tui_env \<Rightarrow> 'w env \<Rightarrow> 'w tui \<Rightarrow> 'w tui" where
  "loadStatic te en t =
     (case GetVersion en (cx_conn (tu_cx t)) of (v, c1) \<Rightarrow>
      let t1 = t\<lparr>tu_cx := (tu_cx t)\<lparr>cx_conn := c1\<rparr>,
                 tu_app := (case v of Inl _ \<Rightarrow> tu_app t | Inr x \<Rightarrow> (tu_app t)\<lparr>ap_version := x\<rparr>)\<rparr> in
      case GetSystemInfo en c1 of (i, c2) \<Rightarrow>
      let t2 = t1\<lparr>tu_cx := (tu_cx t1)\<lparr>cx_conn := c2\<rparr>\<rparr> in
      case i of
        Inl err \<Rightarrow> with_app (app_log (''error: '' @ te_text te (CmdClient err))) t2
      | Inr info \<Rightarrow> (case PortInfos info of
          Inl _ \<Rightarrow> with_app (app_log (''error: '' @ te_text te CmdPorts)) t2
        | Inr ports \<Rightarrow> with_app (\<lambda>a. a\<lparr>ap_ports := (case ports of None \<Rightarrow> [] | Some ps \<Rightarrow> ps)\<rparr>) t2))"

definition new_app :: "(history \<times> string option) option \<Rightarrow> app" where
  "new_app hist = \<lparr>ap_version = zero_version, ap_ports = [], ap_status = Map.empty, ap_input = [], ap_console = [],
     ap_histIdx = (case hist of None \<Rightarrow> 0 | Some (h, _) \<Rightarrow> int (Len h)), ap_menuActive = False, ap_menuIdx = 0,
     ap_menuCands = [], ap_menuHead = [], ap_menuOrig = []\<rparr>"

text \<open>\<open>Run\<close>: \<open>screen\<close> is the outcome of opening the terminal, with the events that follow.\<close>

definition Tui_Run :: "tui_env \<Rightarrow> 'w env \<Rightarrow> string + 'w tui_event list \<Rightarrow>
    'w cli_context \<times> (history \<times> string option) option \<Rightarrow>
    (cmd_error + bool) \<times> 'w cli_context \<times> (history \<times> string option) option" where
  "Tui_Run te en screen = (\<lambda>(cx, hist). case screen of
      Inl err \<Rightarrow> (Inl (CmdScreen err), cx, hist)
    | Inr evs \<Rightarrow>
        (case tui_loop te evs (loadStatic te en \<lparr>tu_app = new_app hist, tu_cx = cx, tu_history = hist\<rparr>) of
           (returned, t) \<Rightarrow> (Inr returned, tu_cx t, tu_history t)))"

end
