(* ===== verification/Tui_View.thy ===== *)
theory Tui_View
  imports Tui_App Go_Fmt "HOL-Library.Signed_Division"
begin

text \<open>
  What the dashboard draws: \<open>pkg/tui/view.go\<close> and \<open>pkg/tui/lscolors.go\<close>. The terminal library is
  outside: its windows are values of a type \<open>'n\<close> with the operations the code calls (a child
  window, the size, the window inside a border), and a drawing is the list of the calls that
  change the screen, in order. \<open>None\<close> is a panic.
\<close>

section \<open>Windows and styles\<close>

record 'n window_lib =
  wl_new :: "'n \<Rightarrow> int \<Rightarrow> int \<Rightarrow> int \<Rightarrow> int \<Rightarrow> 'n"
  wl_size :: "'n \<Rightarrow> int \<times> int"
  wl_inner :: "'n \<Rightarrow> 'n"

record style =
  vs_fg :: "nat option"
  vs_bold :: bool
  vs_dim :: bool
  vs_reverse :: bool

datatype 'n draw_call =
    DClear 'n
  | DPrintln 'n int style string
  | DBorder 'n style
  | DFill 'n string
  | DCursor 'n int int
  | DRender

definition styleNormal :: style where
  "styleNormal = \<lparr>vs_fg = None, vs_bold = False, vs_dim = False, vs_reverse = False\<rparr>"

definition colRed :: nat where "colRed = 1"
definition colGreen :: nat where "colGreen = 2"
definition colYellow :: nat where "colYellow = 3"
definition colMagenta :: nat where "colMagenta = 5"
definition colCyan :: nat where "colCyan = 6"
definition colGrey :: nat where "colGrey = 8"

definition fg :: "nat \<Rightarrow> style" where "fg c = styleNormal\<lparr>vs_fg := Some c\<rparr>"
definition styleBold :: style where "styleBold = styleNormal\<lparr>vs_bold := True\<rparr>"
definition styleDim :: style where "styleDim = styleNormal\<lparr>vs_fg := Some colGrey\<rparr>"
definition styleLabel :: style where "styleLabel = styleNormal\<lparr>vs_dim := True\<rparr>"
definition styleReverse :: style where "styleReverse = styleNormal\<lparr>vs_reverse := True\<rparr>"

lemmas style_defs = styleNormal_def fg_def styleBold_def styleDim_def styleLabel_def styleReverse_def

definition printAt :: "'n window_lib \<Rightarrow> 'n \<Rightarrow> int \<Rightarrow> int \<Rightarrow> style \<Rightarrow> string \<Rightarrow> 'n draw_call" where
  "printAt lib win col row style s = DPrintln (wl_new lib win col row (- 1) 1) 0 style s"

definition view_title :: "'n window_lib \<Rightarrow> 'n \<Rightarrow> string \<Rightarrow> 'n draw_call" where
  "view_title lib panel s = DPrintln (wl_new lib panel 2 0 (- 1) 1) 0 styleBold s"

section \<open>Colours of files\<close>

definition lsColors :: "string \<Rightarrow> (string \<rightharpoonup> string)" where
  "lsColors env = fold ls_entry (split_on CHR '':'' env) Map.empty"

definition sgr_part :: "string \<Rightarrow> style \<Rightarrow> style" where
  "sgr_part part st = (case Atoi part of
      None \<Rightarrow> st
    | Some n \<Rightarrow>
        if n = 1 then st\<lparr>vs_bold := True\<rparr>
        else if 30 \<le> n \<and> n \<le> 37 then st\<lparr>vs_fg := Some (nat (n - 30))\<rparr>
        else if 90 \<le> n \<and> n \<le> 97 then st\<lparr>vs_fg := Some (nat (n - 90 + 8))\<rparr>
        else st)"

definition sgrStyle :: "string \<Rightarrow> style" where
  "sgrStyle sgr = (if sgr = [] then styleNormal else fold sgr_part (split_on CHR '';'' sgr) styleNormal)"

definition fileStyle :: "(string \<rightharpoonup> string) \<Rightarrow> candidate \<Rightarrow> style" where
  "fileStyle ls c = sgrStyle
     (if ca_isdir c then ls_lookup ls ''di''
      else if ca_isexe c then ls_lookup ls ''ex''
      else let name = trim_suffix (ca_value c) ''/'';
               s = (case split_last CHR ''.'' name of None \<Rightarrow> [] | Some (_, ext) \<Rightarrow> ls_lookup ls (''*.'' @ ext)) in
        if s = [] then ls_lookup ls ''fi'' else s)"

definition candStyle :: "(string \<rightharpoonup> string) \<Rightarrow> candidate \<Rightarrow> style" where
  "candStyle ls c = (if ca_isdir c \<or> ca_isexe c \<or> has_suffix (ca_value c) ''/'' then fileStyle ls c
     else if ca_help c \<noteq> [] then fg colCyan
     else fileStyle ls c)"

section \<open>Values\<close>

definition orDash :: "string \<Rightarrow> string" where
  "orDash s = (if s = [] then ''-'' else s)"

definition f_abs :: "f64 \<Rightarrow> f64" where
  "f_abs v = (case v of NaN \<Rightarrow> NaN | PInf \<Rightarrow> PInf | NInf \<Rightarrow> PInf | Fin r \<Rightarrow> Fin \<bar>r\<bar>)"

definition human :: "f64 \<Rightarrow> string" where
  "human v = (let a = f_abs v in
     if f_le (Fin 1000000000) a then fmt_fixed 2 (f_div v (Fin 1000000000)) @ '' G''
     else if f_le (Fin 1000000) a then fmt_fixed 2 (f_div v (Fin 1000000)) @ '' M''
     else if f_le (Fin 1000) a then fmt_fixed 2 (f_div v (Fin 1000)) @ '' K''
     else fmt_fixed 0 v @ '' '')"

definition bps :: "f64 \<Rightarrow> string" where "bps v = human v @ ''bps''"
definition pps :: "f64 \<Rightarrow> string" where "pps v = human v @ ''pps''"
definition pkts :: "f64 \<Rightarrow> string" where "pkts v = human v @ ''pkts''"
definition bytesH :: "f64 \<Rightarrow> string" where "bytesH v = human v @ ''B''"
definition pct :: "f64 \<Rightarrow> string" where "pct v = fmt_fixed 1 v @ '' %''"

definition gv :: "store \<Rightarrow> string \<Rightarrow> f64" where "gv st key = or_zero (GlobalCounter st key)"
definition gd :: "store \<Rightarrow> string \<Rightarrow> f64" where "gd st key = or_zero (GlobalDelta st key)"

definition warnIf :: "bool \<Rightarrow> style" where
  "warnIf bad = (if bad then fg colRed else fg colGreen)"

definition stateStyle :: "string \<Rightarrow> style" where
  "stateStyle state = (if state = ''TX'' \<or> state = ''PCAP_TX'' then fg colGreen
     else if state = ''PAUSE'' then fg colMagenta
     else if state = ''DOWN'' then fg colRed
     else styleNormal)"

section \<open>Global statistics\<close>

record kv =
  kv_key :: string
  kv_value :: string
  kv_style :: style

definition drawKVs :: "'n window_lib \<Rightarrow> 'n \<Rightarrow> int \<Rightarrow> int \<Rightarrow> kv list \<Rightarrow> 'n draw_call list" where
  "drawKVs lib win col width rows = (let keyW = fold (\<lambda>r m. max m (length (kv_key r))) rows 0 in
     concat (map (\<lambda>(i, r). [printAt lib win col (int i) styleLabel (pad_right (int keyW) (kv_key r) @ '' :''),
                            printAt lib win (col + int keyW + 2) (int i) (kv_style r) (kv_value r)])
       (enumerate 0 rows)))"

definition global_left :: "store \<Rightarrow> kv list" where
  "global_left st = map (\<lambda>(k, v). \<lparr>kv_key = k, kv_value = v, kv_style = styleNormal\<rparr>) [
     (''cpu util'', pct (gv st ''m_cpu_util'')),
     (''rx cpu util'', pct (gv st ''m_rx_cpu_util'')),
     (''rx core'', pps (gv st ''m_rx_core_pps'')),
     (''bw per core'', bps (gv st ''m_bw_per_core'')),
     (''active flows'', human (gv st ''m_active_flows'')),
     (''open flows'', human (gv st ''m_open_flows''))]"

definition global_right :: "store \<Rightarrow> kv list" where
  "global_right st = (let dropRate = gv st ''m_rx_drop_bps''; queueFull = gd st ''m_total_queue_full'' in
     map (\<lambda>(k, v, s). \<lparr>kv_key = k, kv_value = v, kv_style = s\<rparr>) [
     (''total tx'', bps (gv st ''m_tx_bps''), styleNormal),
     (''total rx'', bps (gv st ''m_rx_bps''), styleNormal),
     (''total tx pps'', pps (gv st ''m_tx_pps''), styleNormal),
     (''total rx pps'', pps (gv st ''m_rx_pps''), styleNormal),
     (''drop rate'', bps dropRate, warnIf (f_lt (Fin 0) dropRate)),
     (''queue full'', pkts queueFull, warnIf (f_lt (Fin 0) queueFull))])"

definition drawGlobal :: "'n window_lib \<Rightarrow> store \<Rightarrow> 'n \<Rightarrow> 'n draw_call list" where
  "drawGlobal lib st panel = (let inner = wl_inner lib panel; w = fst (wl_size lib inner); half = w sdiv 2 in
     [DBorder panel styleDim, view_title lib panel '' global statistics ''] @
     drawKVs lib inner 0 half (global_left st) @
     drawKVs lib (wl_new lib inner half 0 (w - half) (- 1)) 0 (w - half) (global_right st))"

section \<open>Ports\<close>

type_synonym cell = "app \<Rightarrow> store \<Rightarrow> port_info \<Rightarrow> string \<times> style"

definition portCell :: "string \<Rightarrow> (f64 \<Rightarrow> string) \<Rightarrow> cell" where
  "portCell key f = (\<lambda>_ st pi. (f (or_zero (PortCounter st key (pi_index pi))), styleNormal))"

definition portDeltaCell :: "string \<Rightarrow> (f64 \<Rightarrow> string) \<Rightarrow> cell" where
  "portDeltaCell key f = (\<lambda>_ st pi. (f (or_zero (PortDelta st key (pi_index pi))), styleNormal))"

definition portErr :: "string \<Rightarrow> cell" where
  "portErr key = (\<lambda>_ st pi. let v = or_zero (PortDelta st key (pi_index pi)) in (pkts v, warnIf (f_lt (Fin 0) v)))"

text \<open>A row: its label, and the cell of a port, \<open>None\<close> for a separator.\<close>

definition portRows :: "(string \<times> cell option) list" where
  "portRows = [
     (''owner'', Some (\<lambda>a _ info. (orDash (px_owner (portStatus a (pi_index info))), styleNormal))),
     (''driver'', Some (\<lambda>_ _ info. (pi_driver info, styleNormal))),
     (''numa'', Some (\<lambda>_ _ info. (itoa (pi_numa info), styleNormal))),
     (''link'', Some (\<lambda>a _ info. if px_linkUp (portStatus a (pi_index info)) then (''UP'', fg colGreen) else (''DOWN'', fg colRed))),
     (''speed'', Some (\<lambda>a _ info. (fmt_g (px_speed (portStatus a (pi_index info))) @ '' Gb/s'', styleNormal))),
     (''state'', Some (\<lambda>a _ info. let s = orDash (px_state (portStatus a (pi_index info))) in (s, stateStyle s))),
     ([], None),
     (''Tx bps'', Some (portCell ''m_total_tx_bps'' bps)),
     (''Tx pps'', Some (portCell ''m_total_tx_pps'' pps)),
     (''Rx bps'', Some (portCell ''m_total_rx_bps'' bps)),
     (''Rx pps'', Some (portCell ''m_total_rx_pps'' pps)),
     (''CPU util'', Some (portCell ''m_cpu_util'' pct)),
     ([], None),
     (''opackets'', Some (portDeltaCell ''opackets'' pkts)),
     (''ipackets'', Some (portDeltaCell ''ipackets'' pkts)),
     (''obytes'', Some (portDeltaCell ''obytes'' bytesH)),
     (''ibytes'', Some (portDeltaCell ''ibytes'' bytesH)),
     (''oerrors'', Some (portErr ''oerrors'')),
     (''ierrors'', Some (portErr ''ierrors''))]"

definition labelW :: int where "labelW = 12"
definition colW :: int where "colW = 18"

definition port_row :: "'n window_lib \<Rightarrow> app \<Rightarrow> store \<Rightarrow> 'n \<Rightarrow> nat \<times> string \<times> cell option \<Rightarrow> 'n draw_call list" where
  "port_row lib a st inner = (\<lambda>(r, label, cell). printAt lib inner 0 (int r + 1) styleLabel label #
     (case cell of
        None \<Rightarrow> []
      | Some f \<Rightarrow> map (\<lambda>(i, info). let (s, style) = f a st info in
          printAt lib inner (labelW + int i * colW) (int r + 1) style s) (enumerate 0 (ap_ports a))))"

definition drawPorts :: "'n window_lib \<Rightarrow> app \<Rightarrow> store \<Rightarrow> 'n \<Rightarrow> 'n draw_call list" where
  "drawPorts lib a st panel = (let inner = wl_inner lib panel in
     [DBorder panel styleDim, view_title lib panel '' ports ''] @
     map (\<lambda>(i, info). printAt lib inner (labelW + int i * colW) 0 styleBold (''port '' @ itoa (pi_index info)))
       (enumerate 0 (ap_ports a)) @
     concat (map (port_row lib a st inner) (enumerate 0 portRows)))"

section \<open>Console\<close>

text \<open>The slice panics when the panel has a negative number of rows.\<close>

definition console_style :: "string \<Rightarrow> style" where
  "console_style line = (if has_prefix line ''> '' then fg colCyan
     else if has_prefix line ''error:'' then fg colRed
     else styleNormal)"

definition console_lines :: "int \<Rightarrow> string list \<Rightarrow> string list option" where
  "console_lines rows lines = (let n = int (length lines) in
     if rows < n then (if rows < 0 then None else Some (drop (nat (n - rows)) lines)) else Some lines)"

definition drawConsole :: "'n window_lib \<Rightarrow> app \<Rightarrow> 'n \<Rightarrow> 'n draw_call list option" where
  "drawConsole lib a panel = (let inner = wl_inner lib panel; rows = snd (wl_size lib inner) in
     map_option (\<lambda>lines. [DBorder panel styleDim, view_title lib panel '' console ''] @
         map (\<lambda>(i, line). printAt lib inner 0 (int i) (console_style line) line) (enumerate 0 lines))
       (console_lines rows (ap_console a)))"

section \<open>Completion menu\<close>

definition widest :: "string list \<Rightarrow> int" where
  "widest ss = fold (\<lambda>s m. max m (int (rune_count s))) ss 0"

definition menu_described :: "candidate list \<Rightarrow> bool" where
  "menu_described cands \<longleftrightarrow> ca_help (hd cands) \<noteq> []"

definition menu_cellW :: "int \<Rightarrow> candidate list \<Rightarrow> int" where
  "menu_cellW w cands = min (widest (map ca_value cands) +
     (if menu_described cands then 2 + widest (map ca_help cands) else 0) + 2) (w - 2)"

text \<open>A cell of the menu: nothing when it is scrolled out.\<close>

definition menu_cell :: "'n window_lib \<Rightarrow> (string \<rightharpoonup> string) \<Rightarrow> bool \<Rightarrow> int \<Rightarrow> int \<Rightarrow> int \<Rightarrow> int \<Rightarrow> int \<Rightarrow> 'n \<Rightarrow>
    nat \<times> candidate \<Rightarrow> 'n draw_call list" where
  "menu_cell lib ls described cellW cols rows firstRow sel inner = (\<lambda>(i, c).
     let r = int i sdiv cols - firstRow; col = go_rem (int i) cols in
     if r < 0 \<or> rows \<le> r then []
     else [printAt lib inner (col * cellW) r
         (if int i = sel then styleReverse else candStyle ls c)
         (if described then pad_right (cellW - 2 - int (rune_count (ca_help c)) - 2) (ca_value c) @ ''  '' @ ca_help c
          else ca_value c)])"

text \<open>Dividing by a cell width of 0 panics.\<close>

definition drawMenu :: "'n window_lib \<Rightarrow> (string \<rightharpoonup> string) \<Rightarrow> app \<Rightarrow> 'n \<Rightarrow> 'n draw_call list option" where
  "drawMenu lib ls a win = (let cands = ap_menuCands a in
     if \<not> ap_menuActive a \<or> cands = [] then Some []
     else case wl_size lib win of (w, h) \<Rightarrow>
       let maxRows = min (h - 4) 12 in
       if maxRows < 1 then Some []
       else let cellW = menu_cellW w cands in
         if cellW = 0 then None
         else let cols = (if menu_described cands then 1 else max ((w - 2) sdiv cellW) 1);
                  rows = min ((int (length cands) + cols - 1) sdiv cols) maxRows;
                  boxW = min (cols * cellW + 2) w;
                  boxH = rows + 2;
                  box = wl_new lib win 0 (h - 1 - boxH) boxW boxH;
                  inner = wl_inner lib box;
                  selRow = ap_menuIdx a sdiv cols;
                  firstRow = (if rows \<le> selRow then selRow - rows + 1 else 0) in
           Some ([DFill box '' '', DBorder box styleDim,
                  view_title lib box ('' '' @ nat_digits (length cands) @ '' completions '')] @
             concat (map (menu_cell lib ls (menu_described cands) cellW cols rows firstRow (ap_menuIdx a) inner)
               (enumerate 0 cands))))"

section \<open>The screen\<close>

definition globalH :: int where "globalH = 8"
definition consoleH :: int where "consoleH = 7"

definition tui_draw :: "'n window_lib \<Rightarrow> (string \<rightharpoonup> string) \<Rightarrow> string \<Rightarrow> store \<Rightarrow> app \<Rightarrow> 'n \<Rightarrow> 'n draw_call list option" where
  "tui_draw lib ls host st a win = (case wl_size lib win of (w, h) \<Rightarrow>
     let inputRow = h - 1; consoleTop = inputRow - consoleH; py = 1 + globalH; ph = consoleTop - py in
     case (if py < consoleTop then drawConsole lib a (wl_new lib win 0 consoleTop w consoleH) else Some []) of
       None \<Rightarrow> None
     | Some console \<Rightarrow>
         (case drawMenu lib ls a win of
            None \<Rightarrow> None
          | Some menu \<Rightarrow> Some (
              [DClear win,
               DPrintln win 0 styleBold ('' TRex client   '' @ orDash (ve_mode (ap_version a)) @ '' @ '' @
                 orDash (ve_version (ap_version a)) @ ''   host '' @ host)] @
              drawGlobal lib st (wl_new lib win 0 1 w globalH) @
              (if 3 < ph then drawPorts lib a st (wl_new lib win 0 py w ph) else []) @
              console @
              [DPrintln win inputRow styleNormal (''> '' @ ap_input a),
               DCursor win (2 + int (rune_count (ap_input a))) inputRow] @
              menu @ [DRender])))"

end
