(* ===== verification/Tui_Menu.thy ===== *)
theory Tui_Menu
  imports Tui_View Cli_Session
begin

text \<open>
  What holds of the dashboard in every state its loop can reach: the completion menu, the
  scrollback, the history cursor, and that the menu is drawn with its selection in sight.
\<close>

section \<open>Reachable states\<close>

inductive tui_reachable :: "tui_env \<Rightarrow> 'w env \<Rightarrow> 'w cli_context \<Rightarrow> (history \<times> string option) option \<Rightarrow> 'w tui \<Rightarrow> bool"
  for te en cx hist where
  tui_start: "tui_reachable te en cx hist (loadStatic te en \<lparr>tu_app = new_app hist, tu_cx = cx, tu_history = hist\<rparr>)"
| tui_event: "tui_reachable te en cx hist t \<Longrightarrow> tui_event_step te ev t = (False, t') \<Longrightarrow> tui_reachable te en cx hist t'"

lemma tui_loop_reachable:
  "tui_reachable te en cx hist t \<Longrightarrow> tui_loop te evs t = (False, t') \<Longrightarrow> tui_reachable te en cx hist t'"
proof (induction evs arbitrary: t)
  case (Cons ev evs)
  then show ?case
    by (auto split: prod.splits bool.splits dest: tui_event)
qed simp

section \<open>The invariant\<close>

definition menu_ok :: "app \<Rightarrow> bool" where
  "menu_ok a \<longleftrightarrow> (ap_menuActive a \<longleftrightarrow> ap_menuCands a \<noteq> []) \<and>
     (ap_menuActive a \<longrightarrow> 1 < length (ap_menuCands a) \<and>
        0 \<le> ap_menuIdx a \<and> ap_menuIdx a < int (length (ap_menuCands a)) \<and>
        sorted (map ca_value (ap_menuCands a)) \<and>
        ap_input a = ap_menuHead a @ ca_value (ap_menuCands a ! nat (ap_menuIdx a)) \<and>
        (spaces_only (ap_menuOrig a) \<longrightarrow>
           (\<forall>c \<in> set (ap_menuCands a). has_prefix (ap_menuHead a @ ca_value c) (ap_menuOrig a))))"

definition app_ok :: "(history \<times> string option) option \<Rightarrow> app \<Rightarrow> bool" where
  "app_ok hist a \<longleftrightarrow> menu_ok a \<and> length (ap_console a) \<le> consoleMax \<and> 0 \<le> ap_histIdx a \<and>
     ap_histIdx a \<le> (case hist of None \<Rightarrow> 0 | Some (h, _) \<Rightarrow> int (Len h))"

lemma app_log_simps [simp]:
  "ap_menuActive (app_log s a) = ap_menuActive a" "ap_menuCands (app_log s a) = ap_menuCands a"
  "ap_menuIdx (app_log s a) = ap_menuIdx a" "ap_menuHead (app_log s a) = ap_menuHead a"
  "ap_menuOrig (app_log s a) = ap_menuOrig a" "ap_input (app_log s a) = ap_input a"
  "ap_histIdx (app_log s a) = ap_histIdx a" "length (ap_console (app_log s a)) \<le> consoleMax"
  by (simp_all add: app_log_def Let_def) arith

lemma menu_ok_log [simp]: "menu_ok (app_log s a) = menu_ok a"
  by (simp add: menu_ok_def)

lemma app_ok_log: "app_ok hist a \<Longrightarrow> app_ok hist (app_log s a)"
  by (simp add: app_ok_def)

lemma app_ok_logs: "app_ok hist a \<Longrightarrow> app_ok hist (fold app_log ss a)"
  by (induction ss arbitrary: a) (simp_all add: app_ok_log)

lemma closed_menu_ok: "ap_menuCands a = [] \<Longrightarrow> \<not> ap_menuActive a \<Longrightarrow> menu_ok a"
  by (simp add: menu_ok_def)

text \<open>What a menu operation leaves alone.\<close>

definition same_console :: "app \<Rightarrow> app \<Rightarrow> bool" where
  "same_console a b \<longleftrightarrow> ap_console b = ap_console a \<and> ap_histIdx b = ap_histIdx a"

lemma app_ok_menu: "app_ok hist a \<Longrightarrow> same_console a b \<Longrightarrow> menu_ok b \<Longrightarrow> app_ok hist b"
  by (simp add: app_ok_def same_console_def)

lemma moveMenu_ok:
  assumes "menu_ok a" "delta = 1 \<or> delta = -1"
  shows "menu_ok (moveMenu delta a)"
proof (cases "ap_menuCands a = []")
  case True
  with assms(1) show ?thesis by (simp add: moveMenu_def)
next
  case False
  let ?n = "int (length (ap_menuCands a))"
  let ?i = "go_rem (ap_menuIdx a + delta + ?n) ?n"
  have "0 \<le> ap_menuIdx a + delta + ?n" "0 < ?n"
    using assms False by (auto simp: menu_ok_def)
  then have "0 \<le> ?i" "?i < ?n"
    by (simp_all add: go_rem_def)
  then show ?thesis
    using assms(1) False by (simp add: moveMenu_def applyMenu_def Let_def menu_ok_def)
qed

lemma Complete_extends:
  assumes "Complete rd grammar line = (cands, prefix)" "spaces_only line" "c \<in> set cands"
  shows "has_prefix (take (length line - length prefix) line @ ca_value c) line"
proof -
  obtain h where h: "line = h @ prefix"
    using Complete_prefix [OF assms(2,1)] by blast
  have "has_prefix (ca_value c) prefix"
    using assms(1,3) by (auto simp: Complete_def split: option.splits dest: completeArgs_sound)
  with h show ?thesis
    by (auto simp: has_prefix_iff)
qed

lemma app_complete_ok:
  assumes "menu_ok a"
  shows "menu_ok (app_complete rd grammar fwd a)"
proof (cases "ap_menuActive a")
  case True
  with moveMenu_ok [OF assms] show ?thesis
    by (simp add: app_complete_def)
next
  case False
  obtain cands prefix where c: "Complete rd grammar (ap_input a) = (cands, prefix)"
    by (cases "Complete rd grammar (ap_input a)")
  show ?thesis
  proof (cases "length cands \<le> 1")
    case True
    then have "cands = [] \<or> length cands = 1"
      by (cases cands) auto
    then show ?thesis
      using assms False c by (auto simp: app_complete_def Let_def menu_ok_def)
  next
    case long: False
    define h where "h = take (length (ap_input a) - length prefix) (ap_input a)"
    define cs where "cs = sort_key ca_value cands"
    have "cands \<noteq> []" "length cs = length cands" "cs \<noteq> []" "sorted (map ca_value cs)" "set cs = set cands"
      using long by (auto simp: cs_def simp flip: length_0_conv)
    then show ?thesis
      using long False Complete_extends [OF c]
      by (simp add: app_complete_def c Let_def h_def [symmetric] cs_def [symmetric] applyMenu_def menu_ok_def)
  qed
qed

lemma historyRecall_ok:
  assumes "app_ok hist a" "\<not> ap_menuActive a" "delta = 1 \<or> delta = -1"
  shows "app_ok hist (historyRecall delta hist a)"
  using assms by (auto simp: historyRecall_def app_ok_def menu_ok_def Let_def Lines_def Len_def split: option.splits)

text \<open>Adding a line never shortens the history.\<close>

lemma Add_Len: "Len (fst s) \<le> Len (fst (Add opens line s))"
  by (cases s) (simp add: Add_def appendLocked_def Len_def Let_def)

lemma same_console_menu:
  "same_console a (closeMenu a)" "same_console a (moveMenu d a)" "same_console a (app_complete rd g fwd a)"
  by (simp_all add: same_console_def closeMenu_def moveMenu_def applyMenu_def app_complete_def Let_def
      split: prod.splits)

lemma tui_dispatch_app:
  "tui_dispatch te e line t = (r, t') \<Longrightarrow>
     tu_history t' = tu_history t \<and> (\<exists>ss. tu_app t' = fold app_log ss (tu_app t))"
  by (auto simp: tui_dispatch_def split: prod.splits)

lemma runInput_ok:
  assumes "app_ok (tu_history t) (tu_app t)" "ap_menuCands (tu_app t) = []" "\<not> ap_menuActive (tu_app t)"
  shows "app_ok (tu_history (runInput te e t)) (tu_app (runInput te e t))"
proof (cases "ap_input (tu_app t) = []")
  case True
  with assms show ?thesis
    by (simp add: runInput_def app_ok_def menu_ok_def)
next
  case False
  define line where "line = ap_input (tu_app t)"
  define hist where "hist = map_option (Add (te_opens te) line) (tu_history t)"
  define a where "a = (case hist of None \<Rightarrow> (tu_app t)\<lparr>ap_input := []\<rparr>
      | Some (h, _) \<Rightarrow> (tu_app t)\<lparr>ap_input := [], ap_histIdx := int (Len h)\<rparr>)"
  obtain r t' where d: "tui_dispatch te e line (t\<lparr>tu_app := app_log (''> '' @ line) a, tu_history := hist\<rparr>) = (r, t')"
    by (cases "tui_dispatch te e line (t\<lparr>tu_app := app_log (''> '' @ line) a, tu_history := hist\<rparr>)")
  have run: "runInput te e t = (case r of Inl err \<Rightarrow> t'\<lparr>tu_app := app_log (''error: '' @ te_text te err) (tu_app t')\<rparr>
      | Inr _ \<Rightarrow> t')"
    using False d by (simp add: runInput_def line_def [symmetric] hist_def [symmetric] a_def Let_def
        split: option.splits prod.splits)
  have "app_ok hist a"
    using assms by (auto simp: a_def hist_def app_ok_def menu_ok_def split: option.splits prod.splits)
  from app_ok_logs [OF app_ok_log [OF this]] tui_dispatch_app [OF d]
  have "app_ok (tu_history t') (tu_app t')" "tu_history t' = hist"
    by auto
  then show ?thesis
    by (auto simp: run app_ok_log split: sum.splits)
qed

lemma handleKey_ok:
  assumes "app_ok (tu_history t) (tu_app t)" "handleKey te e k t = (q, t')"
  shows "app_ok (tu_history t') (tu_app t')"
proof -
  have menu: "menu_ok (tu_app t)"
    using assms(1) by (simp add: app_ok_def)
  have closed: "app_ok (tu_history t) ((closeMenu a)\<lparr>ap_input := s\<rparr>)" "app_ok (tu_history t) (closeMenu a)"
      if "same_console (tu_app t) a" for a s
    using assms(1) that by (auto simp: app_ok_def closeMenu_def same_console_def menu_ok_def)
  have refl: "same_console (tu_app t) (tu_app t)" "same_console (tu_app t) ((tu_app t)\<lparr>ap_input := s\<rparr>)" for s
    by (simp_all add: same_console_def)
  note ok = app_ok_menu [OF assms(1) same_console_menu(2) moveMenu_ok [OF menu]]
    app_ok_menu [OF assms(1) same_console_menu(3) app_complete_ok [OF menu]]
    closed refl assms(1) historyRecall_ok [OF assms(1)]
  have run: "app_ok (tu_history (runInput te e (with_app closeMenu t))) (tu_app (runInput te e (with_app closeMenu t)))"
    by (rule runInput_ok) (simp_all add: with_app_def closed(2) refl, simp_all add: closeMenu_def)
  show ?thesis
    using assms(2) ok run
    by (auto simp: handleKey_def with_app_def Let_def split: if_splits)
qed

lemma refresh_app:
  "\<exists>st. tu_app (refreshStatus en t) = (tu_app t)\<lparr>ap_status := st\<rparr>" "tu_history (refreshStatus en t) = tu_history t"
  by (auto simp: refreshStatus_def split: prod.splits)

lemma event_ok:
  assumes "app_ok (tu_history t) (tu_app t)" "tui_event_step te ev t = (q, t')"
  shows "app_ok (tu_history t') (tu_app t')"
proof (cases ev)
  case (EvPoll en)
  then show ?thesis
    using assms refresh_app [of en t] by (auto simp: app_ok_def menu_ok_def)
next
  case (EvKey k e)
  then show ?thesis
    using assms handleKey_ok by auto
qed (use assms in auto)

lemma app_ok_static [simp]:
  "app_ok hist (a\<lparr>ap_version := v\<rparr>) = app_ok hist a" "app_ok hist (a\<lparr>ap_ports := ps\<rparr>) = app_ok hist a"
  by (simp_all add: app_ok_def menu_ok_def)

lemma loadStatic_ok:
  assumes "app_ok (tu_history t) (tu_app t)"
  shows "app_ok (tu_history (loadStatic te en t)) (tu_app (loadStatic te en t))"
  using assms by (simp add: loadStatic_def with_app_def Let_def app_ok_log split: prod.splits sum.splits)

lemma new_app_ok: "app_ok hist (new_app hist)"
  by (auto simp: app_ok_def new_app_def menu_ok_def consoleMax_def split: option.splits)

lemma reachable_ok: "tui_reachable te en cx hist t \<Longrightarrow> app_ok (tu_history t) (tu_app t)"
proof (induction rule: tui_reachable.induct)
  case tui_start
  show ?case
    by (rule loadStatic_ok) (simp add: new_app_ok)
next
  case (tui_event t ev t')
  then show ?case
    using event_ok by blast
qed

section \<open>Walking through the menu\<close>

text \<open>The events that may happen while the menu is walked through: any but other keys and the end.\<close>

fun browses :: "'w tui_event \<Rightarrow> bool" where
  "browses EvDone = False"
| "browses (EvKey k e) = (\<not> ke_ctrl_c k \<and> \<not> ke_ctrl_d k \<and> ke_code k \<in> {KeyTab, KeyUp, KeyDown})"
| "browses _ = True"

definition plain_key :: "keycode \<Rightarrow> string \<Rightarrow> key" where
  "plain_key c s = \<lparr>ke_ctrl_c = False, ke_ctrl_d = False, ke_code = c, ke_shift = False, ke_text = s\<rparr>"

text \<open>The menu is open over what was typed in \<open>t\<close>.\<close>

definition browsing :: "'w tui \<Rightarrow> 'w tui \<Rightarrow> bool" where
  "browsing t t' \<longleftrightarrow> ap_menuActive (tu_app t') \<and> ap_menuOrig (tu_app t') = ap_input (tu_app t) \<and>
     same_console (tu_app t) (tu_app t') \<and> tu_history t' = tu_history t"

lemma moveMenu_simps [simp]:
  "ap_menuActive (moveMenu d a) = ap_menuActive a" "ap_menuOrig (moveMenu d a) = ap_menuOrig a"
  "same_console b (moveMenu d a) = same_console b a"
  by (simp_all add: moveMenu_def applyMenu_def Let_def same_console_def)

lemma browse_step:
  assumes "browsing t0 t" "browses ev" "tui_event_step te ev t = (q, t')"
  shows "\<not> q \<and> browsing t0 t'"
proof (cases ev)
  case (EvPoll en)
  then show ?thesis
    using assms refresh_app [of en t] by (auto simp: browsing_def same_console_def)
next
  case (EvKey k e)
  then show ?thesis
    using assms by (auto simp: browsing_def handleKey_def with_app_def app_complete_def Let_def split: if_splits)
qed (use assms in \<open>auto simp: browsing_def\<close>)

lemma browse_loop:
  assumes "browsing t0 t" "list_all browses evs"
  shows "\<exists>t'. tui_loop te (evs @ post) t = tui_loop te post t' \<and> browsing t0 t'"
  using assms
proof (induction evs arbitrary: t)
  case (Cons ev evs)
  obtain q t' where st: "tui_event_step te ev t = (q, t')"
    by (cases "tui_event_step te ev t")
  with browse_step [OF Cons.prems(1) _ st] Cons show ?case
    by auto
qed auto

lemma tab_step: "tui_event_step te (EvKey (plain_key KeyTab []) e) t = (False, with_app (app_complete (te_dir te) (te_grammar te) True) t)"
  by (simp add: handleKey_def plain_key_def)

lemma app_complete_open:
  assumes "\<not> ap_menuActive a" "Complete rd grammar (ap_input a) = (cands, prefix)" "1 < length cands"
  shows "app_complete rd grammar fwd a = applyMenu (a\<lparr>ap_menuOrig := ap_input a,
    ap_menuHead := take (length (ap_input a) - length prefix) (ap_input a), ap_menuCands := sort_key ca_value cands,
    ap_menuIdx := 0, ap_menuActive := True\<rparr>)"
  using assms by (auto simp: app_complete_def Let_def)

text \<open>C18: while the menu is open, Escape gives back the line as it was typed: whatever way
  the user walks through the candidates with Tab, Shift-Tab and the arrow keys, with redraws,
  resizes and status polls in between, the line, the scrollback and the history are as before the
  menu was opened, and the menu is closed.\<close>

theorem escape_restores:
  assumes "\<not> ap_menuActive (tu_app t)" "1 < length (fst (Complete (te_dir te) (te_grammar te) (ap_input (tu_app t))))"
    and "list_all browses evs"
  shows "\<exists>t'. tui_loop te (EvKey (plain_key KeyTab []) e # evs @ [EvKey (plain_key KeyEsc []) e']) t = (False, t') \<and>
    ap_input (tu_app t') = ap_input (tu_app t) \<and> \<not> ap_menuActive (tu_app t') \<and> ap_menuCands (tu_app t') = [] \<and>
    ap_console (tu_app t') = ap_console (tu_app t) \<and> ap_histIdx (tu_app t') = ap_histIdx (tu_app t) \<and>
    tu_history t' = tu_history t"
proof -
  obtain cands prefix where c: "Complete (te_dir te) (te_grammar te) (ap_input (tu_app t)) = (cands, prefix)"
    by fastforce
  then have "1 < length cands"
    using assms(2) by simp
  then have "browsing t (with_app (app_complete (te_dir te) (te_grammar te) True) t)"
    using assms(1) by (auto simp: browsing_def with_app_def app_complete_def c Let_def applyMenu_def same_console_def)
  from browse_loop [OF this assms(3)] obtain t1 where
    "tui_loop te (evs @ [EvKey (plain_key KeyEsc []) e']) (with_app (app_complete (te_dir te) (te_grammar te) True) t) =
       tui_loop te [EvKey (plain_key KeyEsc []) e'] t1" "browsing t t1"
    by blast
  then show ?thesis
    by (simp add: handleKey_def plain_key_def with_app_def closeMenu_def browsing_def same_console_def)
qed

text \<open>C16: in every state the dashboard can reach the scrollback is within its cap and the history
  cursor within the history; a completion menu is open exactly when there are candidates, then
  there are at least two, sorted, the highlighted one exists and is what the input line shows, and
  each of them extends the line that was typed, if blanks are its only white space.\<close>

theorem reachable_menu:
  assumes "tui_reachable te en cx hist t"
  shows "length (ap_console (tu_app t)) \<le> 200 \<and> 0 \<le> ap_histIdx (tu_app t) \<and>
    ap_histIdx (tu_app t) \<le> (case tu_history t of None \<Rightarrow> 0 | Some (h, _) \<Rightarrow> int (Len h)) \<and>
    (ap_menuActive (tu_app t) \<longleftrightarrow> ap_menuCands (tu_app t) \<noteq> []) \<and>
    (ap_menuActive (tu_app t) \<longrightarrow>
       1 < length (ap_menuCands (tu_app t)) \<and> sorted (map ca_value (ap_menuCands (tu_app t))) \<and>
       0 \<le> ap_menuIdx (tu_app t) \<and> ap_menuIdx (tu_app t) < int (length (ap_menuCands (tu_app t))) \<and>
       ap_input (tu_app t) = ap_menuHead (tu_app t) @ ca_value (ap_menuCands (tu_app t) ! nat (ap_menuIdx (tu_app t))) \<and>
       (spaces_only (ap_menuOrig (tu_app t)) \<longrightarrow>
          (\<forall>c \<in> set (ap_menuCands (tu_app t)). has_prefix (ap_menuHead (tu_app t) @ ca_value c) (ap_menuOrig (tu_app t)))))"
  using reachable_ok [OF assms] unfolding app_ok_def menu_ok_def consoleMax_def by blast

section \<open>Drawing the menu\<close>

lemma sdiv_nonneg: "0 \<le> a \<Longrightarrow> 0 < b \<Longrightarrow> a sdiv b = a div b" for a b :: int
  by (cases "a = 0") (auto simp: signed_divide_int_def)

lemma sgr_part_reverse: "vs_reverse (sgr_part p st) = vs_reverse st"
  by (simp add: sgr_part_def split: option.splits)

lemma sgrStyle_reverse: "\<not> vs_reverse (sgrStyle sgr)"
proof -
  have "vs_reverse (fold sgr_part ps st) = vs_reverse st" for ps st
    by (induction ps arbitrary: st) (simp_all add: sgr_part_reverse)
  then show ?thesis
    by (simp add: sgrStyle_def style_defs)
qed

lemma candStyle_reverse: "\<not> vs_reverse (candStyle ls c)"
  by (simp add: candStyle_def fileStyle_def sgrStyle_reverse style_defs)

lemma widest_nonneg: "0 \<le> widest ss"
proof -
  have "0 \<le> m \<Longrightarrow> 0 \<le> fold (\<lambda>s m. max m (int (rune_count s))) ss m" for m
    by (induction ss arbitrary: m) auto
  then show ?thesis
    by (simp add: widest_def)
qed

lemma concat_enumerate_only:
  "i < length xs \<Longrightarrow> (\<And>j. j < length xs \<Longrightarrow> j \<noteq> i \<Longrightarrow> g (n + j, xs ! j) = []) \<Longrightarrow>
   concat (map g (enumerate n xs)) = g (n + i, xs ! i)"
proof (induction xs arbitrary: n i)
  case (Cons x xs)
  have tl: "g (Suc n + j, xs ! j) = []" if "j < length xs" "Suc j \<noteq> i" for j
    using Cons.prems(2) [of "Suc j"] that by simp
  show ?case
  proof (cases i)
    case 0
    have "concat (map g (enumerate (Suc n) xs)) = []"
      using tl 0 by (auto simp: in_set_enumerate_eq set_conv_nth in_set_conv_nth nth_enumerate_eq)
    then show ?thesis
      by (simp add: 0)
  next
    case (Suc k)
    then show ?thesis
      using Cons.IH [of k "Suc n"] Cons.prems(1) Cons.prems(2) [of 0] tl by simp
  qed
qed simp

fun call_reversed :: "'n draw_call \<Rightarrow> bool" where
  "call_reversed (DPrintln win row st s) = vs_reverse st"
| "call_reversed _ = False"

lemma filter_menu_cell:
  "filter call_reversed (menu_cell lib ls d cellW cols rows firstRow sel inner (i, c)) =
     (if int i = sel then menu_cell lib ls d cellW cols rows firstRow sel inner (i, c) else [])"
  using candStyle_reverse [of ls c] by (simp add: menu_cell_def printAt_def Let_def style_defs)

text \<open>The geometry of the menu: the row of the selection is one of those shown.\<close>

lemma scrolled_row:
  fixes sel cols n maxRows :: int
  assumes "0 \<le> sel" "sel < n" "1 \<le> cols" "1 \<le> maxRows"
  defines "rows \<equiv> min ((n + cols - 1) sdiv cols) maxRows"
  shows "0 \<le> sel sdiv cols - (if rows \<le> sel sdiv cols then sel sdiv cols - rows + 1 else 0) \<and>
    sel sdiv cols - (if rows \<le> sel sdiv cols then sel sdiv cols - rows + 1 else 0) < rows \<and> 1 \<le> rows \<and> rows \<le> maxRows"
proof -
  have "(n + cols - 1) sdiv cols = (n - 1) div cols + 1"
    using assms(1-3) by (simp add: sdiv_nonneg) (metis add.commute add_diff_eq diff_add_eq div_add_self2 not_one_le_zero)
  moreover have "0 \<le> (n - 1) div cols" "0 \<le> sel div cols" "sel sdiv cols = sel div cols"
    using assms(1-3) by (simp_all add: pos_imp_zdiv_nonneg_iff sdiv_nonneg)
  ultimately show ?thesis
    using assms(4) unfolding rows_def by auto
qed

lemma cell_fits:
  fixes w cellW cols sel :: int
  assumes "1 \<le> cellW" "cellW \<le> w - 2" "cols = 1 \<or> cols = max ((w - 2) sdiv cellW) 1" "0 \<le> sel"
  shows "1 \<le> cols \<and> min (cols * cellW + 2) w = cols * cellW + 2 \<and> 0 \<le> go_rem sel cols * cellW \<and>
    go_rem sel cols * cellW + cellW \<le> cols * cellW"
proof -
  have "(w - 2) sdiv cellW = (w - 2) div cellW" "1 \<le> (w - 2) div cellW"
    using assms(1,2) pos_imp_zdiv_pos_iff [of cellW "w - 2"] by (simp_all add: sdiv_nonneg)
  moreover have "(w - 2) div cellW * cellW \<le> w - 2"
    using assms(1) by (simp add: minus_mod_eq_div_mult [symmetric])
  ultimately have c: "1 \<le> cols" "cols * cellW \<le> w - 2"
    using assms(2,3) by auto
  have "0 \<le> go_rem sel cols" "go_rem sel cols < cols"
    using c(1) assms(4) by (auto simp: go_rem_def)
  then have "0 \<le> go_rem sel cols * cellW" "(go_rem sel cols + 1) * cellW \<le> cols * cellW"
    using assms(1) by (simp, intro mult_right_mono) auto
  then show ?thesis
    using c by (simp add: algebra_simps)
qed

lemma drawMenu_cells:
  fixes win :: 'n and a :: app
  defines "cands \<equiv> ap_menuCands a" and "sel \<equiv> ap_menuIdx a"
  assumes "ap_menuActive a" "0 \<le> sel" "sel < int (length cands)" "wl_size lib win = (w, h)" "3 \<le> w" "5 \<le> h"
  obtains d cols cellW rows first box where
    "drawMenu lib ls a win = Some ([DFill box '' '', DBorder box styleDim,
       view_title lib box ('' '' @ nat_digits (length cands) @ '' completions '')] @
       concat (map (menu_cell lib ls d cellW cols rows first sel (wl_inner lib box)) (enumerate 0 cands)))"
    "box = wl_new lib win 0 (h - 1 - (rows + 2)) (cols * cellW + 2) (rows + 2)"
    "cols * cellW + 2 \<le> w" "rows \<le> h - 4" "1 \<le> cellW" "0 \<le> go_rem sel cols * cellW"
    "go_rem sel cols * cellW + cellW \<le> cols * cellW" "0 \<le> sel sdiv cols - first" "sel sdiv cols - first < rows"
proof
  let ?d = "menu_described cands" and ?cellW = "menu_cellW w cands" and ?maxRows = "min (h - 4) 12"
  let ?cols = "if ?d then 1 else max ((w - 2) sdiv ?cellW) 1"
  let ?rows = "min ((int (length cands) + ?cols - 1) sdiv ?cols) ?maxRows"
  let ?first = "if ?rows \<le> sel sdiv ?cols then sel sdiv ?cols - ?rows + 1 else 0"
  let ?box = "wl_new lib win 0 (h - 1 - (?rows + 2)) (?cols * ?cellW + 2) (?rows + 2)"
  have cell: "1 \<le> ?cellW" "?cellW \<le> w - 2"
    using assms(7) widest_nonneg [of "map ca_value cands"] widest_nonneg [of "map ca_help cands"]
    by (simp_all add: menu_cellW_def)
  have fits: "1 \<le> ?cols" "min (?cols * ?cellW + 2) w = ?cols * ?cellW + 2" "0 \<le> go_rem sel ?cols * ?cellW"
      "go_rem sel ?cols * ?cellW + ?cellW \<le> ?cols * ?cellW"
    using cell_fits [OF cell, of ?cols sel] assms(4) by auto
  have row: "0 \<le> sel sdiv ?cols - ?first" "sel sdiv ?cols - ?first < ?rows" "?rows \<le> ?maxRows"
    using scrolled_row [OF assms(4,5) fits(1), of ?maxRows] assms(8) by auto
  show "?box = ?box" ..
  show "1 \<le> ?cellW" by (rule cell)
  show "0 \<le> go_rem sel ?cols * ?cellW" "go_rem sel ?cols * ?cellW + ?cellW \<le> ?cols * ?cellW"
    by (rule fits)+
  show "0 \<le> sel sdiv ?cols - ?first" "sel sdiv ?cols - ?first < ?rows"
    by (rule row)+
  show "?cols * ?cellW + 2 \<le> w"
    using fits(2) by linarith
  show "?rows \<le> h - 4"
    using row(3) by linarith
  have "cands \<noteq> []" "\<not> ?maxRows < 1" "?cellW \<noteq> 0"
    using assms(4,5,8) cell by auto
  then show "drawMenu lib ls a win = Some ([DFill ?box '' '', DBorder ?box styleDim,
       view_title lib ?box ('' '' @ nat_digits (length cands) @ '' completions '')] @
       concat (map (menu_cell lib ls ?d ?cellW ?cols ?rows ?first sel (wl_inner lib ?box)) (enumerate 0 cands)))"
    using assms(3) fits(2) unfolding cands_def sel_def
    by (simp add: drawMenu_def assms(6) Let_def del: One_nat_def)
qed

lemma highlighted:
  assumes "0 \<le> sel" "sel < int (length cands)" "0 \<le> sel sdiv cols - first" "sel sdiv cols - first < rows"
  obtains s where
    "filter call_reversed (concat (map (menu_cell lib ls d cellW cols rows first sel inner) (enumerate 0 cands))) =
       [printAt lib inner (go_rem sel cols * cellW) (sel sdiv cols - first) styleReverse s]"
    "has_prefix s (ca_value (cands ! nat sel))"
proof -
  let ?cell = "menu_cell lib ls d cellW cols rows first sel inner" and ?c = "cands ! nat sel"
  let ?s = "if d then pad_right (cellW - 2 - int (rune_count (ca_help ?c)) - 2) (ca_value ?c) @ ''  '' @ ca_help ?c
      else ca_value ?c"
  have "filter call_reversed (concat (map ?cell (enumerate 0 cands))) =
      concat (map (\<lambda>x. filter call_reversed (?cell x)) (enumerate 0 cands))"
    by (simp add: filter_concat comp_def)
  also have "\<dots> = filter call_reversed (?cell (nat sel, ?c))"
    using concat_enumerate_only [of "nat sel" cands "\<lambda>x. filter call_reversed (?cell x)" 0] assms(1,2)
    by (simp add: filter_menu_cell nat_less_iff) (metis int_nat_eq nat_int)
  also have "\<dots> = [printAt lib inner (go_rem sel cols * cellW) (sel sdiv cols - first) styleReverse ?s]"
    unfolding filter_menu_cell using assms by (simp add: menu_cell_def Let_def)
  finally show ?thesis
    using that [of ?s] by (simp add: pad_right_def has_prefix_def)
qed

text \<open>C17: whenever the menu is open, in a window of at least three columns and five rows, it is
  drawn as a box inside the window just above the input line, exactly one of its cells is
  highlighted, that cell lies wholly inside the border, and it shows the candidate that the input
  line previews.\<close>

theorem selection_visible:
  fixes win :: 'n
  assumes "tui_reachable te en cx hist t" "ap_menuActive (tu_app t)" "wl_size lib win = (w, h)" "3 \<le> w" "5 \<le> h"
  shows "\<exists>boxH ops box boxW col cellW row s. drawMenu lib ls (tu_app t) win = Some ops \<and>
    box = wl_new lib win 0 (h - 1 - boxH) boxW boxH \<and> DBorder box styleDim \<in> set ops \<and>
    0 \<le> h - 1 - boxH \<and> boxW \<le> w \<and> 0 \<le> row \<and> row < boxH - 2 \<and>
    0 \<le> col \<and> 0 < cellW \<and> col + cellW \<le> boxW - 2 \<and>
    filter call_reversed ops = [printAt lib (wl_inner lib box) col row styleReverse s] \<and>
    has_prefix s (ca_value (ap_menuCands (tu_app t) ! nat (ap_menuIdx (tu_app t))))"
proof -
  have ok: "0 \<le> ap_menuIdx (tu_app t)" "ap_menuIdx (tu_app t) < int (length (ap_menuCands (tu_app t)))"
    using reachable_ok [OF assms(1)] assms(2) by (auto simp: app_ok_def menu_ok_def)
  obtain d cols cellW rows first box where m:
    "drawMenu lib ls (tu_app t) win = Some ([DFill box '' '', DBorder box styleDim,
       view_title lib box ('' '' @ nat_digits (length (ap_menuCands (tu_app t))) @ '' completions '')] @
       concat (map (menu_cell lib ls d cellW cols rows first (ap_menuIdx (tu_app t)) (wl_inner lib box))
         (enumerate 0 (ap_menuCands (tu_app t)))))"
    "box = wl_new lib win 0 (h - 1 - (rows + 2)) (cols * cellW + 2) (rows + 2)"
    "cols * cellW + 2 \<le> w" "rows \<le> h - 4" "1 \<le> cellW" "0 \<le> go_rem (ap_menuIdx (tu_app t)) cols * cellW"
    "go_rem (ap_menuIdx (tu_app t)) cols * cellW + cellW \<le> cols * cellW"
    "0 \<le> ap_menuIdx (tu_app t) sdiv cols - first" "ap_menuIdx (tu_app t) sdiv cols - first < rows"
    by (rule drawMenu_cells [OF assms(2) ok assms(3-5), of ls])
  define cells where "cells = concat (map (menu_cell lib ls d cellW cols rows first (ap_menuIdx (tu_app t)) (wl_inner lib box))
      (enumerate 0 (ap_menuCands (tu_app t))))"
  obtain s where s: "filter call_reversed cells = [printAt lib (wl_inner lib box) (go_rem (ap_menuIdx (tu_app t)) cols * cellW)
          (ap_menuIdx (tu_app t) sdiv cols - first) styleReverse s]"
    "has_prefix s (ca_value (ap_menuCands (tu_app t) ! nat (ap_menuIdx (tu_app t))))"
    unfolding cells_def by (rule highlighted [OF ok m(8,9)])
  define head where "head = [DFill box '' '', DBorder box styleDim,
      view_title lib box ('' '' @ nat_digits (length (ap_menuCands (tu_app t))) @ '' completions '')]"
  have f: "filter call_reversed (head @ cells) = filter call_reversed cells" "DBorder box styleDim \<in> set (head @ cells)"
    by (simp_all add: head_def view_title_def style_defs)
  have g: "0 \<le> h - 1 - (rows + 2)" "0 < cellW"
    "ap_menuIdx (tu_app t) sdiv cols - first < rows + 2 - 2"
    "go_rem (ap_menuIdx (tu_app t)) cols * cellW + cellW \<le> cols * cellW + 2 - 2"
    using m(4,5,7,9) by auto
  show ?thesis
    by (rule exI [of _ "rows + 2"], rule exI [of _ "head @ cells"], rule exI [of _ box],
        rule exI [of _ "cols * cellW + 2"], rule exI [of _ "go_rem (ap_menuIdx (tu_app t)) cols * cellW"],
        rule exI [of _ cellW], rule exI [of _ "ap_menuIdx (tu_app t) sdiv cols - first"], rule exI [of _ s],
        intro conjI m(1) [folded cells_def head_def] m(2,3,6,8) f(2) g s(2) f(1) [unfolded s(1)])
qed

text \<open>A window two columns wide leaves no room for a cell: drawing the open menu divides by zero.\<close>

lemma narrow_window_panics:
  assumes "ap_menuActive a" "ap_menuCands a \<noteq> []" "wl_size lib win = (2, h)" "5 \<le> h"
  shows "drawMenu lib ls a win = None"
proof -
  have "menu_cellW 2 (ap_menuCands a) = 0"
    using widest_nonneg [of "map ca_value (ap_menuCands a)"] widest_nonneg [of "map ca_help (ap_menuCands a)"]
    by (simp add: menu_cellW_def)
  with assms show ?thesis
    by (simp add: drawMenu_def Let_def)
qed

section \<open>A session that types and asks for completions\<close>

definition sample_te :: "tui_env" where
  "sample_te = \<lparr>te_parse = \<lambda>_. Inl [], te_grammar = Some commands_grammar, te_dir = \<lambda>_. None, te_opens = False,
     te_text = \<lambda>_. []\<rparr>"

definition sample_cands :: "candidate list" where
  "sample_cands = sort_key ca_value (fst (Complete (\<lambda>_. None) (Some commands_grammar) ''st''))"

lemma sample_cands: "map ca_value sample_cands = [''start'', ''stats'', ''stop'', ''streams'']"
    "snd (Complete (\<lambda>_. None) (Some commands_grammar) ''st'') = ''st''"
  by code_simp+

lemma sample_cands_nth: "length sample_cands = 4" "ca_value (sample_cands ! 0) = ''start''" "ca_value (sample_cands ! 1) = ''stats''"
proof -
  show len: "length sample_cands = 4"
    using arg_cong [OF sample_cands(1), of length] by simp
  show "ca_value (sample_cands ! 0) = ''start''" "ca_value (sample_cands ! 1) = ''stats''"
    using nth_map [of 0 sample_cands ca_value] nth_map [of 1 sample_cands ca_value] len sample_cands(1) by simp_all
qed

lemma loadStatic_menu:
  "ap_input (tu_app (loadStatic te en t)) = ap_input (tu_app t)"
  "ap_menuActive (tu_app (loadStatic te en t)) = ap_menuActive (tu_app t)"
  by (simp_all add: loadStatic_def with_app_def Let_def split: prod.splits sum.splits)

definition typed :: "string \<Rightarrow> nat link tui_event" where
  "typed s = EvKey (plain_key KeyOther s) (sample_cli granting_server)"

definition pressed :: "keycode \<Rightarrow> nat link tui_event" where
  "pressed c = EvKey (plain_key c []) (sample_cli granting_server)"

lemma sample_open:
  obtains t where "tui_reachable sample_te (ce_rpc (sample_cli granting_server)) sample_cx None t"
    "ap_menuActive (tu_app t)" "ap_menuCands (tu_app t) = sample_cands" "ap_menuIdx (tu_app t) = 1"
    "ap_menuOrig (tu_app t) = ''st''" "ap_input (tu_app t) = ''stats''"
proof -
  define t0 where "t0 = loadStatic sample_te (ce_rpc (sample_cli granting_server))
      \<lparr>tu_app = new_app None, tu_cx = sample_cx, tu_history = None\<rparr>"
  have t0: "ap_input (tu_app t0) = []" "\<not> ap_menuActive (tu_app t0)"
    by (simp_all add: t0_def loadStatic_menu new_app_def)
  define t2 where "t2 = with_app (\<lambda>a. (closeMenu a)\<lparr>ap_input := ''st''\<rparr>) t0"
  have two: "tui_loop sample_te [typed ''s'', typed ''t''] t0 = (False, t2)"
    by (simp add: typed_def plain_key_def handleKey_def with_app_def closeMenu_def t0 t2_def)
  obtain cands where c: "Complete (\<lambda>_. None) (Some commands_grammar) ''st'' = (cands, ''st'')"
    using sample_cands(2) by (metis prod.collapse)
  have cs: "sort_key ca_value cands = sample_cands" "length cands = 4"
    using sample_cands_nth(1) by (simp_all add: sample_cands_def c)
  define a1 where "a1 = app_complete (te_dir sample_te) (te_grammar sample_te) True (tu_app t2)"
  have i2: "ap_input (tu_app t2) = ''st''" "\<not> ap_menuActive (tu_app t2)"
    by (simp_all add: t2_def with_app_def closeMenu_def)
  have te: "te_dir sample_te = (\<lambda>_. None)" "te_grammar sample_te = Some commands_grammar"
    by (simp_all add: sample_te_def)
  have "a1 = applyMenu ((tu_app t2)\<lparr>ap_menuOrig := ''st'', ap_menuHead := [], ap_menuCands := sample_cands,
      ap_menuIdx := 0, ap_menuActive := True\<rparr>)"
    using app_complete_open [of "tu_app t2" "\<lambda>_. None" "Some commands_grammar" cands "''st''"] cs i2 c by (simp add: a1_def te)
  then have a1: "ap_menuActive a1" "ap_menuOrig a1 = ''st''" "ap_menuHead a1 = []" "ap_menuCands a1 = sample_cands"
      "ap_menuIdx a1 = 0"
    by (simp_all add: applyMenu_def)
  define t4 where "t4 = with_app (moveMenu 1) (with_app (\<lambda>_. a1) t2)"
  have "tui_loop sample_te [pressed KeyTab, pressed KeyTab] t2 = (False, t4)"
    using a1(1) unfolding pressed_def tui_loop.simps tab_step
    by (simp add: with_app_def t4_def a1_def [symmetric]) (simp add: app_complete_def)
  from tui_loop_reachable [OF tui_loop_reachable [OF tui_start two [unfolded t0_def]] this]
  have "tui_reachable sample_te (ce_rpc (sample_cli granting_server)) sample_cx None t4" .
  then show ?thesis
    by (rule that) (use a1 sample_cands_nth in \<open>simp_all add: t4_def with_app_def moveMenu_def applyMenu_def Let_def go_rem_def\<close>)
qed

theorem reachable_menu_witness:
  "\<exists>t. tui_reachable sample_te (ce_rpc (sample_cli granting_server)) sample_cx None t \<and>
     map ca_value (ap_menuCands (tu_app t)) = [''start'', ''stats'', ''stop'', ''streams''] \<and>
     ap_menuHead (tu_app t) @ ''stats'' = ''stats'' \<and> length (ap_console (tu_app t)) \<le> 200"
proof -
  obtain t where t: "tui_reachable sample_te (ce_rpc (sample_cli granting_server)) sample_cx None t"
    "ap_menuActive (tu_app t)" "ap_menuCands (tu_app t) = sample_cands" "ap_menuIdx (tu_app t) = 1"
    "ap_menuOrig (tu_app t) = ''st''" "ap_input (tu_app t) = ''stats''"
    by (rule sample_open)
  from reachable_menu [OF t(1)] t sample_cands(1) sample_cands_nth(3) show ?thesis
    by (intro exI [of _ t]) simp
qed

theorem escape_restores_witness:
  "\<exists>t t'. ap_input (tu_app t) = ''st'' \<and>
     tui_loop sample_te [pressed KeyTab, EvTick, pressed KeyDown, pressed KeyEsc] t = (False, t') \<and>
     ap_input (tu_app t') = ''st'' \<and> \<not> ap_menuActive (tu_app t')"
proof -
  define t where "t = \<lparr>tu_app = (new_app None)\<lparr>ap_input := ''st''\<rparr>, tu_cx = sample_cx, tu_history = None\<rparr>"
  have "length (fst (Complete (\<lambda>_. None) (Some commands_grammar) ''st'')) = 4"
    using sample_cands_nth(1) by (simp add: sample_cands_def)
  then have "1 < length (fst (Complete (te_dir sample_te) (te_grammar sample_te) (ap_input (tu_app t))))"
    by (simp add: t_def sample_te_def)
  moreover have "list_all browses [EvTick, pressed KeyDown]" "\<not> ap_menuActive (tu_app t)" "ap_input (tu_app t) = ''st''"
    by (simp_all add: pressed_def plain_key_def t_def new_app_def)
  ultimately show ?thesis
    using escape_restores [of t sample_te "[EvTick, pressed KeyDown]" "sample_cli granting_server" "sample_cli granting_server"]
    by (auto simp: pressed_def)
qed

text \<open>A terminal whose windows are rectangles with the position in their parent.\<close>

definition sample_lib :: "(int \<times> int \<times> int \<times> int) window_lib" where
  "sample_lib = \<lparr>wl_new = \<lambda>(x, y, w, h) c r w' h'. (x + c, y + r, if w' < 0 then w - c else w', if h' < 0 then h - r else h'),
     wl_size = \<lambda>(x, y, w, h). (w, h), wl_inner = \<lambda>(x, y, w, h). (x + 1, y + 1, w - 2, h - 2)\<rparr>"

theorem selection_visible_witness:
  "\<exists>t ops win row s. tui_reachable sample_te (ce_rpc (sample_cli granting_server)) sample_cx None t \<and>
     drawMenu sample_lib Map.empty (tu_app t) (0, 0, 80, 24) = Some ops \<and>
     filter call_reversed ops = [DPrintln win row styleReverse s] \<and> has_prefix s ''stats''"
proof -
  obtain t where t: "tui_reachable sample_te (ce_rpc (sample_cli granting_server)) sample_cx None t"
    "ap_menuActive (tu_app t)" "ap_menuCands (tu_app t) = sample_cands" "ap_menuIdx (tu_app t) = 1"
    by (rule sample_open)
  have v: "ca_value (ap_menuCands (tu_app t) ! nat (ap_menuIdx (tu_app t))) = ''stats''"
    using sample_cands_nth(3) t(3,4) by simp
  have size: "wl_size sample_lib (0, 0, 80, 24) = (80, 24)"
    by (simp add: sample_lib_def)
  from selection_visible [OF t(1,2) size, of Map.empty] t(1) show ?thesis
    unfolding v printAt_def by fastforce
qed

end
