(* ===== verification/Cli_Main.thy ===== *)
theory Cli_Main
  imports Tui_App Session_Connect
begin

text \<open>
  The program: \<open>cmd/trexc/main.go\<close>. The global variable \<open>shellRunning\<close> is set exactly while the
  shell runs, so it is passed down. Connecting is an argument; the text of a raw reply is what its
  value marshals to. The readline library records the lines of the shell in the history by itself.
\<close>

section \<open>Commands\<close>

datatype cli_cmd =
    CVersion
  | CSysinfo
  | CPing
  | CTui
  | CShell
  | CTraffic traffic_cmd

definition line_text :: "string list \<Rightarrow> string" where
  "line_text parts = concat parts @ [CHR 0x0A]"

definition versionCmd_Run :: "'w env \<Rightarrow> 'w cli_context \<Rightarrow> (cmd_error + unit) \<times> 'w cli_context" where
  "versionCmd_Run en cx = (case GetVersion en (cx_conn cx) of
      (Inl e, c) \<Rightarrow> (Inl (CmdClient e), cx\<lparr>cx_conn := c\<rparr>)
    | (Inr v, c) \<Rightarrow> (Inr (), put_text (line_text [''version: '', ve_version v, ''  build: '', ve_build_date v, '' '',
        ve_build_time v, ''  by: '', ve_built_by v, ''  mode: '', ve_mode v]) (cx\<lparr>cx_conn := c\<rparr>)))"

definition sysinfoCmd_Run :: "'w env \<Rightarrow> 'w cli_context \<Rightarrow> (cmd_error + unit) \<times> 'w cli_context" where
  "sysinfoCmd_Run en cx = (case GetSystemInfo en (cx_conn cx) of
      (Inl e, c) \<Rightarrow> (Inl (CmdClient e), cx\<lparr>cx_conn := c\<rparr>)
    | (Inr s, c) \<Rightarrow> (Inr (), put_text (line_text [''host: '', si_hostname s, ''  uptime: '', si_uptime s,
        ''  dp cores: '', itoa (si_dp_core_count s), ''  core: '', si_core_type s, ''  ports: '', itoa (si_port_count s)])
        (cx\<lparr>cx_conn := c\<rparr>)))"

definition pingCmd_Run :: "'w env \<Rightarrow> 'w cli_context \<Rightarrow> (cmd_error + unit) \<times> 'w cli_context" where
  "pingCmd_Run en cx = (case Ping en (cx_conn cx) of
      (Inl e, c) \<Rightarrow> (Inl (CmdCall e), cx\<lparr>cx_conn := c\<rparr>)
    | (Inr res, c) \<Rightarrow> (Inr (), put_text (line_text [''ping: '', raw_text en res]) (cx\<lparr>cx_conn := c\<rparr>)))"

text \<open>
  The state of a process: the context and the history. What it gets from outside: the parsers and
  the texts of errors, and for every command its environment and the terminal of a dashboard.
\<close>

type_synonym 'w process = "'w cli_context \<times> (history \<times> string option) option"

type_synonym 'w proc_env = "'w cli_env \<times> (string + 'w tui_event list)"

record main_env =
  me_parse :: "string list \<Rightarrow> string + cli_cmd"
  me_text :: "cmd_error \<Rightarrow> string"
  me_tui :: "tui_env"

definition on_context :: "('w cli_context \<Rightarrow> (cmd_error + unit) \<times> 'w cli_context) \<Rightarrow> 'w process \<Rightarrow>
    (cmd_error + unit) \<times> 'w process" where
  "on_context f s = (case f (fst s) of (r, cx) \<Rightarrow> (r, cx, snd s))"

definition tuiCmd_Run :: "main_env \<Rightarrow> 'w proc_env \<Rightarrow> 'w process \<Rightarrow> (cmd_error + unit) \<times> 'w process" where
  "tuiCmd_Run m pe s = (case Tui_Run (me_tui m) (ce_rpc (fst pe)) (snd pe) s of
     (r, s') \<Rightarrow> (case r of Inl err \<Rightarrow> Inl err | Inr _ \<Rightarrow> Inr (), s'))"

text \<open>The commands as they run under a running shell, which does not nest, and those but the shell.\<close>

fun run_command :: "main_env \<Rightarrow> 'w proc_env \<Rightarrow> cli_cmd \<Rightarrow> 'w process \<Rightarrow> (cmd_error + unit) \<times> 'w process" where
  "run_command m pe CVersion s = on_context (versionCmd_Run (ce_rpc (fst pe))) s"
| "run_command m pe CSysinfo s = on_context (sysinfoCmd_Run (ce_rpc (fst pe))) s"
| "run_command m pe CPing s = on_context (pingCmd_Run (ce_rpc (fst pe))) s"
| "run_command m pe CTui s = tuiCmd_Run m pe s"
| "run_command m pe CShell s = (Inr (), s)"
| "run_command m pe (CTraffic t) s = on_context (run_traffic (fst pe) t) s"

definition shell_dispatch :: "main_env \<Rightarrow> 'w proc_env \<Rightarrow> string \<Rightarrow> 'w process \<Rightarrow> (cmd_error + unit) \<times> 'w process" where
  "shell_dispatch m pe = DispatchGrammar (me_parse m) (run_command m pe)"

definition put_process :: "string \<Rightarrow> 'w process \<Rightarrow> 'w process" where
  "put_process t s = (put_text t (fst s), snd s)"

definition shellCmd_Run :: "main_env \<Rightarrow> bool \<Rightarrow> 'w proc_env read_result list \<Rightarrow> 'w process \<Rightarrow>
    (string + unit) option \<times> 'w process" where
  "shellCmd_Run m shellRunning inputs s =
     (if shellRunning then (Some (Inr ()), s) else Shell_loop (me_text m) put_process (shell_dispatch m) inputs s)"

section \<open>The process\<close>

text \<open>\<open>filepath.Clean\<close> and \<open>filepath.Join\<close>: the elements seen so far are in reverse.\<close>

fun clean_parts :: "bool \<Rightarrow> string list \<Rightarrow> string list \<Rightarrow> string list" where
  "clean_parts rooted out [] = rev out"
| "clean_parts rooted out (p # ps) =
     (if p = [] \<or> p = ''.'' then clean_parts rooted out ps
      else if p = ''..'' then
        (if out \<noteq> [] \<and> hd out \<noteq> ''..'' then clean_parts rooted (tl out) ps
         else if rooted then clean_parts rooted out ps
         else clean_parts rooted (p # out) ps)
      else clean_parts rooted (p # out) ps)"

definition path_clean :: "string \<Rightarrow> string" where
  "path_clean path = (let rooted = has_prefix path ''/'';
       p = (if rooted then ''/'' else []) @ join_with CHR ''/'' (clean_parts rooted [] (split_on CHR ''/'' path)) in
     if p = [] then ''.'' else p)"

definition path_join :: "string \<Rightarrow> string \<Rightarrow> string" where
  "path_join a b = (let es = filter (\<lambda>e. e \<noteq> []) [a, b] in if es = [] then [] else path_clean (join_with CHR ''/'' es))"

definition historyPath :: "string option \<Rightarrow> string" where
  "historyPath home = (case home of None \<Rightarrow> ''.trexc_history'' | Some h \<Rightarrow> path_join h ''.trexc_history'')"

datatype main_result = MDone | MConnect connect_error | MCommand cmd_error | MRead string

text \<open>
  The command of the process arguments on a fresh context; \<open>None\<close>: the shell waits for more
  input.
\<close>

definition main_command :: "main_env \<Rightarrow> 'w proc_env \<Rightarrow> cli_cmd \<Rightarrow> 'w proc_env read_result list \<Rightarrow> 'w process \<Rightarrow>
    main_result option \<times> 'w process" where
  "main_command m pe cmd inputs s =
     (if cmd = CShell then
        (case shellCmd_Run m False inputs s of
           (None, s') \<Rightarrow> (None, s')
         | (Some (Inl err), s') \<Rightarrow> (Some (MRead err), s')
         | (Some (Inr _), s') \<Rightarrow> (Some MDone, s'))
      else (case run_command m pe cmd s of
           (Inl err, s') \<Rightarrow> (Some (MCommand err), s')
         | (Inr _, s') \<Rightarrow> (Some MDone, s')))"

text \<open>
  \<open>run\<close> over a connected session: load the history, run the command and release the ports on the
  way out. \<open>home\<close> is the home directory and the contents of the history file.
\<close>

definition main_run :: "main_env \<Rightarrow> 'w proc_env \<Rightarrow> 'w conn \<times> client_disp \<Rightarrow> string option \<times> string option \<Rightarrow>
    cli_cmd \<Rightarrow> 'w proc_env read_result list \<Rightarrow> (main_result \<times> 'w process) option" where
  "main_run m pe cd home cmd inputs =
     (let cx = \<lparr>cx_conn = fst cd, cx_disp = snd cd, cx_ports = [], cx_out = []\<rparr>;
          hist = (NewHistory (historyPath (fst home)) (snd home), snd home) in
      case main_command m pe cmd inputs (cx, Some hist) of
        (None, _) \<Rightarrow> None
      | (Some r, cx', hist') \<Rightarrow> Some (r, ReleasePorts (fst pe) cx', hist'))"

text \<open>
  \<open>run\<close>: connect, run, and close the session last, while \<open>pending\<close> messages are still to be
  handled by the subscriber. The environments and the inputs of the commands are those of the
  client that \<open>Connect\<close> makes.
\<close>

definition main_process :: "main_env \<Rightarrow> 'w env \<Rightarrow> 'w sockets \<Rightarrow> u32 \<Rightarrow> string \<Rightarrow> (client \<Rightarrow> 'w proc_env) \<Rightarrow>
    (client \<Rightarrow> 'w proc_env read_result list) \<Rightarrow> string option \<times> string option \<Rightarrow> cli_cmd \<Rightarrow> u8 list list \<Rightarrow> string \<Rightarrow>
    (main_result \<times> 'w process option \<times> socket_op list) option" where
  "main_process m en sk rnd host pe inputs home cmd pending err =
     (case Connect en sk rnd host [] of
        (Inl e, ops) \<Rightarrow> Some (MConnect e, None, ops)
      | (Inr s, ops) \<Rightarrow>
          (case main_run m (pe (ss_client s)) (ss_conn s, sb_disp (ss_sub s)) home cmd (inputs (ss_client s)) of
             None \<Rightarrow> None
           | Some (r, cx, hist) \<Rightarrow>
               (case session_Close en pending err
                       (s\<lparr>ss_conn := cx_conn cx, ss_sub := (ss_sub s)\<lparr>sb_disp := cx_disp cx\<rparr>\<rparr>) of
                  (_, s', ops') \<Rightarrow>
                    Some (r, Some (cx\<lparr>cx_conn := ss_conn s', cx_disp := sb_disp (ss_sub s')\<rparr>, hist), ops @ ops'))))"

text \<open>
  \<open>cli.Parse\<close>, before anything else: a process that the shell started as a completer prints the
  candidates and ends; otherwise the arguments are parsed, and kong ends the process itself when it
  refuses them. \<open>CpPanic\<close>: the slice of the line is out of range.
\<close>

datatype 'c parse_outcome = CpCompleted "string list" | CpPanic | CpUsage string | CpCommand 'c

definition cli_Parse :: "read_dir \<Rightarrow> knode \<Rightarrow> string \<Rightarrow> string \<Rightarrow> (string list \<Rightarrow> string + 'c) \<Rightarrow> string list \<Rightarrow> 'c parse_outcome" where
  "cli_Parse rd app compLine compPoint parse args = (case bashComplete rd app compLine compPoint of
      Some (Inr lines) \<Rightarrow> CpCompleted lines
    | Some (Inl _) \<Rightarrow> CpPanic
    | None \<Rightarrow> (case parse args of Inl e \<Rightarrow> CpUsage e | Inr cmd \<Rightarrow> CpCommand cmd))"

text \<open>\<open>main\<close>: what is written to the standard error, and the exit code.\<close>

definition main_exit :: "(main_result \<Rightarrow> string) \<Rightarrow> main_result \<Rightarrow> string \<times> int" where
  "main_exit txt r = (if r \<noteq> MDone then (''error: '' @ txt r @ [CHR 0x0A], 1) else ([], 0))"

end
