(* ===== verification/Cli_Safety.thy ===== *)
theory Cli_Safety
  imports Cli_Main Cli_Session
begin

text \<open>
  What holds whenever a command, the dashboard, the shell or the process ends: the channel to the
  server is in step, so that the last requests, which release the ports, go through.
\<close>

section \<open>Every command leaves the connection ready\<close>

lemma put_text_conn [simp]: "cx_conn (put_text s cx) = cx_conn cx" "cx_ports (put_text s cx) = cx_ports cx"
  by (simp_all add: put_text_def)

lemma fold_put_text [simp]: "cx_conn (fold put_text ts cx) = cx_conn cx" "cx_disp (fold put_text ts cx) = cx_disp cx"
  by (induction ts arbitrary: cx) (simp_all add: put_text_def)

lemma linked_ready:
  assumes "linked en srv" "lk_reply (cn_world c) = None"
  shows "lk_reply (cn_world (snd (Call en m ps c))) = None"
proof -
  obtain zl wr rd big where en: "zlib_round_trip zl" "json_codec wr rd" "en = link_env zl wr rd srv big"
    using assms(1) by (auto simp: linked_def brace_codec_def)
  show ?thesis
    using peer.call_ready [OF assms(2)] callLocked_abstract [OF en(1,2) assms(2)] by (simp add: Call_def en(3))
qed

lemma streams_loaded_ready:
  assumes "linked (ce_rpc e) srv" "cx_ready cx"
  shows "cx_ready (snd (streams_loaded e cmd prof cx))"
proof -
  obtain r cx1 where a: "acquirePorts e (sc_ports cmd) (sc_force cmd) cx = (r, cx1)" by fastforce
  have cx1: "cx_ready cx1"
    by (rule acquirePorts_exchange [OF assms a]) (rule exchanged_ready)
  obtain r2 c where l: "load_ports (ce_rpc e) prof (cx_ports cx1) 0 (cx_conn cx1) = (r2, c)" by fastforce
  have "lk_reply (cn_world c) = None"
    using load_ports_quiet [OF assms(1) cx1 l] exchanged_ready by blast
  then show ?thesis
    using a l cx1 assms(2) by (simp add: streams_loaded_def split: sum.split)
qed

lemma each_port_ready:
  assumes "\<And>p c. lk_reply (cn_world c) = None \<Longrightarrow> lk_reply (cn_world (snd (f p c))) = None"
  shows "lk_reply (cn_world c) = None \<Longrightarrow> lk_reply (cn_world (snd (each_port f ps c))) = None"
proof (induction ps arbitrary: c)
  case (Cons p ps)
  then show ?case
    using assms [OF Cons.prems, of p] Cons.IH [of "snd (f p c)"] by (simp add: case_prod_beta split: sum.split)
qed simp

lemma query_ready:
  assumes "linked en srv" "lk_reply (cn_world c) = None"
  shows "lk_reply (cn_world (snd (Start en p m d f t c))) = None" "lk_reply (cn_world (snd (Stop en p c))) = None"
    "lk_reply (cn_world (snd (Status en p c))) = None" "lk_reply (cn_world (snd (GetVersion en c))) = None"
    "lk_reply (cn_world (snd (GetSystemInfo en c))) = None" "lk_reply (cn_world (snd (Ping en c))) = None"
  by (simp_all add: Start_def Stop_def Status_def GetVersion_def GetSystemInfo_def Ping_def linked_ready [OF assms]
      case_prod_beta split: sum.split option.split)

lemma barrier_ready:
  assumes "linked en srv"
  shows "lk_reply (cn_world c) = None \<Longrightarrow> lk_reply (cn_world (fst (snd (barrier_loop en gen base turns (c, d))))) = None"
proof (induction turns arbitrary: c d)
  case (Cons t turns)
  obtain key evs w where t: "t = (key, evs, w)" by (metis prod_cases3)
  let ?ps = "Some [(''key'', Some (JInt (uint key))), (''baseline'', Some (JBool base))]"
  show ?case
    using linked_ready [OF assms Cons.prems, of "''publish_now''" ?ps] Cons.IH
    by (simp add: t case_prod_beta Let_def split: sum.split wake.split)
qed simp

lemma StreamsCmd_ready:
  "linked (ce_rpc e) srv \<Longrightarrow> cx_ready cx \<Longrightarrow> cx_ready (snd (StreamsCmd_Run e c cx))"
  by (simp add: StreamsCmd_Run_def streams_loaded_ready split: sum.split)

lemma StartCmd_ready:
  assumes "linked (ce_rpc e) srv" "cx_ready cx"
  shows "cx_ready (snd (StartCmd_Run e c cx))"
proof -
  have "lk_reply (cn_world (snd (each_port (\<lambda>p. Start (ce_rpc e) p m d True (Fin 0)) ps (cx_conn cx)))) = None" for m d ps
    by (rule each_port_ready [OF query_ready(1) [OF assms(1)] assms(2)])
  with assms(2) show ?thesis
    by (simp add: StartCmd_Run_def Let_def case_prod_beta split: sum.split)
qed

lemma StopCmd_ready:
  assumes "linked (ce_rpc e) srv" "cx_ready cx"
  shows "cx_ready (snd (StopCmd_Run e c cx))"
proof -
  obtain r cx1 where a: "acquirePorts e (pc_ports c) (pc_force c) cx = (r, cx1)" by fastforce
  have cx1: "cx_ready cx1"
    by (rule acquirePorts_exchange [OF assms a]) (rule exchanged_ready)
  have "lk_reply (cn_world (snd (each_port (Stop (ce_rpc e)) ps (cx_conn y)))) = None" if "cx_ready y" for ps y
    by (rule each_port_ready [of "Stop (ce_rpc e)", OF query_ready(2) [OF assms(1)] that])
  with a assms(2) cx1 show ?thesis
    by (simp add: StopCmd_Run_def case_prod_beta split: sum.split)
qed

lemma StatsCmd_ready:
  assumes "cli_linked e srv" "cx_ready cx"
  shows "cx_ready (snd (StatsCmd_Run e cx))"
proof -
  let ?c = "snd (GetActivePGIDs (ce_rpc e) (cx_conn cx))"
  have 1: "lk_reply (cn_world ?c) = None"
    using GetActive_effect [OF cli_linked_outside [OF assms(1)] assms(2)] by simp
  have "snd (GetPgidStats (ce_rpc e) it ids ?c) =
      snd (Call (ce_rpc e) ''get_pgid_stats'' (Some [(''pgids'', Some (JArr (map JInt ids)))]) ?c)" for it ids
    by (simp add: GetPgidStats_def case_prod_beta split: sum.split)
  then have "lk_reply (cn_world (snd (GetPgidStats (ce_rpc e) it ids ?c))) = None" for it ids
    using linked_ready [OF cli_linked_rpc [OF assms(1)] 1] by simp
  with 1 show ?thesis
    by (simp add: StatsCmd_Run_def Let_def case_prod_beta split: sum.split)
qed

lemma ClearCmd_ready:
  assumes "linked (ce_rpc e) srv" "cx_ready cx"
  shows "cx_ready (snd (ClearCmd_Run e cx))"
proof -
  obtain b c d where b: "Barrier (ce_rpc e) True (ce_turns e) (cx_conn cx, cx_disp cx) = (b, c, d)"
    by (metis prod_cases3)
  then have "lk_reply (cn_world c) = None"
    using barrier_ready [OF assms, of _ True "ce_turns e" "cx_disp cx"] unfolding Barrier_def by (metis fst_conv snd_conv)
  then show ?thesis
    by (simp add: ClearCmd_Run_def b split: sum.split option.split)
qed

lemma NDRCmd_ready: "cli_linked e srv \<Longrightarrow> cx_ready cx \<Longrightarrow> cx_ready (snd (NDRCmd_Run e c cx))"
  by (metis NDRCmd_effect surjective_pairing)

lemma traffic_ready:
  assumes "cli_linked e srv" "cx_ready cx"
  shows "cx_ready (snd (run_traffic e t cx))"
proof -
  note ln = cli_linked_rpc [OF assms(1)]
  have "cx_ready (snd (traffic_Run e t cx))"
    using StreamsCmd_ready [OF ln assms(2)] StartCmd_ready [OF ln assms(2)] StopCmd_ready [OF ln assms(2)]
      StatsCmd_ready [OF assms] ClearCmd_ready [OF ln assms(2)] NDRCmd_ready [OF assms]
    by (cases t) simp_all
  then show ?thesis
    by (simp add: run_traffic_def case_prod_beta)
qed

lemma Dispatch_ready:
  "cli_linked e srv \<Longrightarrow> cx_ready cx \<Longrightarrow> cx_ready (snd (Cli_Dispatch parse e line cx))"
  unfolding Cli_Dispatch_def by (rule DispatchGrammar_inv) (simp_all add: traffic_ready)

section \<open>The dashboard\<close>

abbreviation tu_ready :: "'s link tui \<Rightarrow> bool" where
  "tu_ready t \<equiv> cx_ready (tu_cx t)"

lemma tui_dispatch_ready: "cli_linked e srv \<Longrightarrow> tu_ready t \<Longrightarrow> tu_ready (snd (tui_dispatch te e line t))"
  using Dispatch_ready [of e srv "(tu_cx t)\<lparr>cx_out := []\<rparr>" "te_parse te" line]
  by (simp add: tui_dispatch_def case_prod_beta)

lemma with_app_cx [simp]: "tu_cx (with_app f t) = tu_cx t" "tu_history (with_app f t) = tu_history t"
    "tu_app (with_app f t) = f (tu_app t)"
  by (simp_all add: with_app_def)

lemma runInput_ready: "cli_linked e srv \<Longrightarrow> tu_ready t \<Longrightarrow> tu_ready (runInput te e t)"
  using tui_dispatch_ready [of e srv "t\<lparr>tu_app := a, tu_history := h\<rparr>" te l for a h l]
  by (simp add: runInput_def Let_def case_prod_beta split: sum.split)

lemma handleKey_ready: "cli_linked e srv \<Longrightarrow> tu_ready t \<Longrightarrow> tu_ready (snd (handleKey te e k t))"
  by (simp add: handleKey_def Let_def runInput_ready)

lemma refresh_ready:
  assumes "linked en srv"
  shows "lk_reply (cn_world c) = None \<Longrightarrow> lk_reply (cn_world (fst (refresh_ports en ps c st))) = None"
proof (induction ps arbitrary: c st)
  case (Cons p ps)
  then show ?case
    using query_ready(3) [OF assms Cons.prems, of "Client_Port (pi_index p)"] Cons.IH
    by (simp add: case_prod_beta split: sum.split)
qed simp

text \<open>The outside of an event: a linked server behind every command and every poll.\<close>

definition ev_linked :: "(json \<Rightarrow> 's \<Rightarrow> json \<times> 's) \<Rightarrow> 's link tui_event \<Rightarrow> bool" where
  "ev_linked srv ev \<longleftrightarrow> (case ev of EvKey k e \<Rightarrow> cli_linked e srv | EvPoll en \<Rightarrow> linked en srv | _ \<Rightarrow> True)"

lemma event_ready: "ev_linked srv ev \<Longrightarrow> tu_ready t \<Longrightarrow> tu_ready (snd (tui_event_step te ev t))"
  using refresh_ready [of _ srv "cx_conn (tu_cx t)" "ap_ports (tu_app t)" "ap_status (tu_app t)"]
  by (cases ev) (simp_all add: ev_linked_def handleKey_ready refreshStatus_def case_prod_beta)

lemma tui_loop_ready: "list_all (ev_linked srv) evs \<Longrightarrow> tu_ready t \<Longrightarrow> tu_ready (snd (tui_loop te evs t))"
proof (induction evs arbitrary: t)
  case (Cons ev evs)
  then show ?case
    using event_ready [of srv ev t te] by (cases "tui_event_step te ev t") (auto split: bool.split)
qed simp

lemma loadStatic_ready:
  assumes "linked en srv" "tu_ready t"
  shows "tu_ready (loadStatic te en t)"
  using query_ready(5) [OF assms(1) query_ready(4) [OF assms]]
  by (simp add: loadStatic_def case_prod_beta Let_def split: sum.split)

section \<open>The process\<close>

abbreviation process_ready :: "'s link process \<Rightarrow> bool" where
  "process_ready s \<equiv> cx_ready (fst s)"

definition proc_linked :: "(json \<Rightarrow> 's \<Rightarrow> json \<times> 's) \<Rightarrow> 's link proc_env \<Rightarrow> bool" where
  "proc_linked srv pe \<longleftrightarrow> cli_linked (fst pe) srv \<and>
     (case snd pe of Inl _ \<Rightarrow> True | Inr evs \<Rightarrow> list_all (ev_linked srv) evs)"

lemma tuiCmd_ready: "proc_linked srv pe \<Longrightarrow> process_ready s \<Longrightarrow> process_ready (snd (tuiCmd_Run m pe s))"
  using loadStatic_ready [of "ce_rpc (fst pe)" srv] tui_loop_ready [of srv]
  by (auto simp: proc_linked_def cli_linked_def tuiCmd_Run_def Tui_Run_def case_prod_beta split: sum.split)

lemma run_command_ready:
  assumes "proc_linked srv pe" "process_ready s"
  shows "process_ready (snd (run_command m pe cmd s))"
proof -
  have ln: "cli_linked (fst pe) srv" "linked (ce_rpc (fst pe)) srv"
    using assms(1) by (simp_all add: proc_linked_def cli_linked_def)
  note q = query_ready(4-6) [OF ln(2) assms(2)]
  show ?thesis
    using tuiCmd_ready [OF assms] traffic_ready [OF ln(1) assms(2)] assms(2) q
    by (cases cmd) (simp_all add: on_context_def versionCmd_Run_def sysinfoCmd_Run_def pingCmd_Run_def
        case_prod_beta split: sum.split)
qed

interpretation shell: shell_step put_process "shell_dispatch m" "proc_linked srv" process_ready
proof unfold_locales
  fix pe and s :: "'a link process" and line tx
  show "process_ready (snd (shell_dispatch m pe line s))" if "proc_linked srv pe" "process_ready s"
    unfolding shell_dispatch_def
    by (rule DispatchGrammar_inv [where P = process_ready]) (rule that(2), rule run_command_ready [OF that])
  show "process_ready (put_process tx s)" if "process_ready s"
    using that by (simp add: put_process_def)
qed

text \<open>The inputs of the shell: a linked server behind every line.\<close>

definition inputs_linked :: "(json \<Rightarrow> 's \<Rightarrow> json \<times> 's) \<Rightarrow> 's link proc_env read_result list \<Rightarrow> bool" where
  "inputs_linked srv inputs \<longleftrightarrow> (\<forall>line e. RLine line e \<in> set inputs \<longrightarrow> proc_linked srv e)"

lemma main_command_ready:
  assumes "proc_linked srv pe" "inputs_linked srv inputs" "process_ready s"
  shows "process_ready (snd (main_command m pe cmd inputs s))"
  using run_command_ready [OF assms(1,3)] shell.loop_good [of inputs srv s "me_text m" m] assms(2,3)
  by (auto simp: main_command_def shellCmd_Run_def inputs_linked_def case_prod_beta split: sum.split option.split)

lemma Handshake_exchange:
  assumes "linked en srv" "lk_reply (cn_world c) = None" "Handshake en name major minor c = (Inr u, c')"
  shows "\<exists>r. exchanged srv c [r] c' \<and> req_method r = ''api_sync_v2''"
proof -
  let ?ps = "Some [(''name'', Some (JStr name)), (''major'', Some (JInt major)), (''minor'', Some (JInt minor))]"
  have "params_ok ?ps"
    by (simp add: params_ok_def entries_def)
  then obtain r c1 where r: "Call en ''api_sync_v2'' ?ps c = (read_reply (fst (srv r (lk_server (cn_world c)))), c1)"
    "exchanged srv c [r] c1" "sends (cn_apiH c) (cn_idCounter c) ''api_sync_v2'' ?ps r"
    by (rule linked_Call [OF assms(1,2)])
  have "\<exists>h. c' = c1\<lparr>cn_apiH := h\<rparr>"
    using assms(3) r(1) by (auto simp: Handshake_def Call_def split: sum.splits option.splits if_splits)
  with r(2,3) show ?thesis
    by (auto simp: exchanged_def sends_def)
qed

text \<open>The subscriber asks the server for queued events and for nothing else.\<close>

abbreviation pulls :: "json \<Rightarrow> bool" where
  "pulls r \<equiv> req_method r = ''get_async_events''"

lemma handle_msg_pulls:
  assumes "linked en srv" "lk_reply (cn_world c) = None"
  shows "\<exists>rs. exchanged srv c rs (fst (handle_msg en dispatch sid raw (c, u))) \<and> list_all pulls rs"
proof (cases "fst (handle_msg en dispatch sid raw (c, u)) = c")
  case True
  then show ?thesis
    using exchanged_refl [OF assms(2)] by (intro exI [of _ "[]"]) simp
next
  case False
  let ?ps = "Some [(''session_id'', Some (JInt (uint sid))), (''user'', Some (JStr ''sub''))]"
  have "params_ok ?ps"
    by (simp add: params_ok_def entries_def)
  then obtain r c' where r: "Call en ''get_async_events'' ?ps c = (read_reply (fst (srv r (lk_server (cn_world c)))), c')"
    "exchanged srv c [r] c'" "sends (cn_apiH c) (cn_idCounter c) ''get_async_events'' ?ps r"
    by (rule linked_Call [OF assms])
  have "fst (handle_msg en dispatch sid raw (c, u)) = c'"
    using False r(1) by (auto simp: handle_msg_def pull_def split: sum.splits option.splits if_splits)
  with r(2,3) show ?thesis
    by (intro exI [of _ "[r]"]) (simp add: sends_def)
qed

lemma Run_pulls:
  assumes "linked en srv"
  shows "lk_reply (cn_world c) = None \<Longrightarrow> Run en dispatch sid (map Message pending @ [RecvFailed True err]) (c, u) = (b, c', u') \<Longrightarrow>
    \<exists>rs. exchanged srv c rs c' \<and> list_all pulls rs"
proof (induction pending arbitrary: c u)
  case Nil
  then have "c' = c"
    by simp
  with exchanged_refl [OF Nil.prems(1)] show ?case
    by (intro exI [of _ "[]"]) simp
next
  case (Cons raw pending)
  obtain c1 u1 where h: "handle_msg en dispatch sid raw (c, u) = (c1, u1)" by fastforce
  with handle_msg_pulls [OF assms Cons.prems(1), of dispatch sid raw u]
  obtain rs where rs: "exchanged srv c rs c1" "list_all pulls rs" by auto
  from Cons.IH [OF exchanged_ready [OF rs(1)]] Cons.prems(2) h
  obtain rs' where "exchanged srv c1 rs' c'" "list_all pulls rs'" by auto
  with rs exchanged_trans show ?case
    by (intro exI [of _ "rs @ rs'"]) auto
qed

lemma main_run_releases:
  assumes "proc_linked srv pe" "inputs_linked srv inputs" "lk_reply (cn_world c) = None"
    and "main_run m pe (c, d) home cmd inputs = Some (r, cx', hist)"
  obtains cx1 hist1 rel where "main_command m pe cmd inputs (\<lparr>cx_conn = c, cx_disp = d, cx_ports = [], cx_out = []\<rparr>,
      Some (NewHistory (historyPath (fst home)) (snd home), snd home)) = (Some r, cx1, hist1)"
    "exchanged srv (cx_conn cx1) rel (cx_conn cx')" "list_all2 (asks ''release'') (map pt_id (cx_ports cx1)) rel"
    "cx_ports cx' = []"
proof -
  let ?s0 = "(\<lparr>cx_conn = c, cx_disp = d, cx_ports = [], cx_out = []\<rparr>,
      Some (NewHistory (historyPath (fst home)) (snd home), snd home))"
  from assms(4) obtain cx1 hist1 where mc: "main_command m pe cmd inputs ?s0 = (Some r, cx1, hist1)"
    and cx': "cx' = ReleasePorts (fst pe) cx1"
    by (auto simp: main_run_def Let_def split: option.splits prod.splits)
  have "lk_reply (cn_world (cx_conn cx1)) = None"
    using main_command_ready [OF assms(1,2), of ?s0 m cmd] assms(3) mc by simp
  moreover have "linked (ce_rpc (fst pe)) srv"
    using assms(1) by (simp add: proc_linked_def cli_linked_def)
  ultimately obtain rel where "exchanged srv (cx_conn cx1) rel (cx_conn cx')"
    "list_all2 (asks ''release'') (map pt_id (cx_ports cx1)) rel"
    using release_exchange [of "ce_rpc (fst pe)" srv "cx_conn cx1" "cx_ports cx1"] by (auto simp: cx' ReleasePorts_def)
  with mc show thesis
    by (rule that) (simp add: cx' ReleasePorts_def)
qed

text \<open>A start command outside of the shell fails without a request: a fresh process holds no port.\<close>

lemma oneshot_start_fails:
  "main_run m pe (c, d) home (CTraffic (TStart st)) inputs = Some (r, cx', hist) \<Longrightarrow>
     r = MCommand (CmdRun CeNoPorts) \<and> cx_conn cx' = c"
  by (auto simp: main_run_def main_command_def on_context_def run_traffic_def StartCmd_Run_def ReleasePorts_def Let_def)

section \<open>Properties\<close>

text \<open>C3: whatever the process does, a single command, a session of the shell or a dashboard within
  one, however it ends: it starts with the handshake; on its way out it sends exactly one release
  for each port it holds, in order, after which only queued events are asked for, until both
  sockets are closed; it ends up without a port. A process that cannot connect sends nothing
  after the handshake and leaves no socket open, but for the subscriber socket when its
  subscription is refused.\<close>

theorem main_releases:
  assumes "linked en srv" "\<forall>cl. proc_linked srv (pe cl) \<and> inputs_linked srv (inputs cl)"
    and "\<forall>ep w. sk_dial_req sk ep = Inr w \<longrightarrow> lk_reply w = None"
    and "main_process m en sk rnd host pe inputs home cmd pending err = Some (r, p, ops)"
  shows "case p of
      None \<Rightarrow> (\<exists>e. r = MConnect e \<and> open_sockets ops {} = (case e of CoSubscribe _ \<Rightarrow> {AsyncSocket} | _ \<Rightarrow> {}))
    | Some (cx, hist) \<Rightarrow> open_sockets ops {} = {} \<and> cx_ports cx = [] \<and>
        (\<exists>w c0 hs cx1 hist1 rel rs. sk_dial_req sk (''tcp://'' @ host @ '':4501'') = Inr w \<and>
           Handshake en ''STL'' 5 1 \<lparr>cn_world = w, cn_idCounter = 0, cn_apiH = []\<rparr> = (Inr (), c0) \<and>
           exchanged srv \<lparr>cn_world = w, cn_idCounter = 0, cn_apiH = []\<rparr> [hs] c0 \<and> req_method hs = ''api_sync_v2'' \<and>
           main_command m (pe \<lparr>cl_username = ''trex'', cl_sessionID = rnd\<rparr>) cmd (inputs \<lparr>cl_username = ''trex'', cl_sessionID = rnd\<rparr>)
             (\<lparr>cx_conn = c0, cx_disp = \<lparr>cd_stats = NewStore, cd_events = NewEventBus\<rparr>, cx_ports = [], cx_out = []\<rparr>,
              Some (NewHistory (historyPath (fst home)) (snd home), snd home)) = (Some r, cx1, hist1) \<and>
           exchanged srv (cx_conn cx1) (rel @ rs) (cx_conn cx) \<and>
           list_all2 (asks ''release'') (map pt_id (cx_ports cx1)) rel \<and> list_all pulls rs)"
proof (cases "Connect en sk rnd host []")
  case (Pair res ops0)
  show ?thesis
  proof (cases res)
    case (Inl e)
    with Pair Connect_Inl [of en sk rnd host "[]" e ops0] assms(4) show ?thesis
      by (auto simp: main_process_def)
  next
    case (Inr s)
    obtain w c0 where w: "sk_dial_req sk (''tcp://'' @ host @ '':4501'') = Inr w"
      "Handshake en ''STL'' 5 1 \<lparr>cn_world = w, cn_idCounter = 0, cn_apiH = []\<rparr> = (Inr (), c0)"
      "s = \<lparr>ss_host = host, ss_client = \<lparr>cl_username = (if ([] :: string) = [] then DefaultUser else []), cl_sessionID = rnd\<rparr>,
         ss_conn = c0, ss_sub = \<lparr>sb_seq = 0, sb_errors = [], sb_disp = \<lparr>cd_stats = NewStore, cd_events = NewEventBus\<rparr>\<rparr>\<rparr>"
      "ops0 = [Dialled SyncSocket, Dialled AsyncSocket]"
      using Connect_Inr [OF Pair [unfolded Inr]] by metis
    let ?cl = "\<lparr>cl_username = ''trex'', cl_sessionID = rnd\<rparr>" and ?d = "\<lparr>cd_stats = NewStore, cd_events = NewEventBus\<rparr>"
    have cl: "ss_client s = ?cl" "ss_conn s = c0" "sb_disp (ss_sub s) = ?d"
      by (simp_all add: w(3) DefaultUser_def)
    obtain hs where hs: "exchanged srv \<lparr>cn_world = w, cn_idCounter = 0, cn_apiH = []\<rparr> [hs] c0" "req_method hs = ''api_sync_v2''"
      using Handshake_exchange [OF assms(1) _ w(2)] assms(3) w(1) by auto
    obtain cx2 hist where run: "main_run m (pe ?cl) (c0, ?d) home cmd (inputs ?cl) = Some (r, cx2, hist)"
      using assms(4) by (auto simp: main_process_def Pair Inr cl split: option.splits prod.splits)
    obtain cx1 hist1 rel where rel: "main_command m (pe ?cl) cmd (inputs ?cl) (\<lparr>cx_conn = c0, cx_disp = ?d, cx_ports = [], cx_out = []\<rparr>,
        Some (NewHistory (historyPath (fst home)) (snd home), snd home)) = (Some r, cx1, hist1)"
      "exchanged srv (cx_conn cx1) rel (cx_conn cx2)" "list_all2 (asks ''release'') (map pt_id (cx_ports cx1)) rel"
      "cx_ports cx2 = []"
      using main_run_releases [OF _ _ exchanged_ready [OF hs(1)] run] assms(2) by blast
    let ?s2 = "s\<lparr>ss_conn := cx_conn cx2, ss_sub := (ss_sub s)\<lparr>sb_disp := cx_disp cx2\<rparr>\<rparr>"
    obtain b s' ops' where close: "session_Close en pending err ?s2 = (b, s', ops')"
      by (metis prod_cases3)
    have "Run en Dispatch (cl_sessionID (ss_client s)) (map Message pending @ [RecvFailed True err])
        (cx_conn cx2, (ss_sub s)\<lparr>sb_disp := cx_disp cx2\<rparr>) = (True, ss_conn s', ss_sub s')"
      using session_Close_ends(3) [OF close] by simp
    then obtain rs where rs: "exchanged srv (cx_conn cx2) rs (ss_conn s')" "list_all pulls rs"
      using Run_pulls [OF assms(1) exchanged_ready [OF rel(2)]] by blast
    have p: "p = Some (cx2\<lparr>cx_conn := ss_conn s', cx_disp := sb_disp (ss_sub s')\<rparr>, hist)" "ops = ops0 @ ops'"
      using assms(4) run close by (auto simp: main_process_def Pair Inr cl)
    have "open_sockets ops {} = {}"
      by (simp add: p(2) w(4) session_Close_ends(2) [OF close])
    with p(1) w(1,2) hs rel exchanged_trans [OF rel(2) rs(1)] rs(2) show ?thesis
      by auto
  qed
qed

definition sample_main :: "main_env" where
  "sample_main = \<lparr>me_parse = (\<lambda>_. Inr CPing), me_text = (\<lambda>_. []), me_tui = \<lparr>te_parse = (\<lambda>_. Inl []),
     te_grammar = None, te_dir = (\<lambda>_. None), te_opens = True, te_text = (\<lambda>_. [])\<rparr>\<rparr>"

text \<open>A server that accepts the handshake and grants everything.\<close>

definition welcoming_server :: "json \<Rightarrow> nat \<Rightarrow> json \<times> nat" where
  "welcoming_server j n = (if req_method j = ''api_sync_v2'' then (JObj [(''result'', JObj [(''api_h'', JStr ''h'')])], n + 1)
     else granting_server j n)"

lemma welcomed: "asks m i r \<Longrightarrow> m \<noteq> [] \<Longrightarrow> m \<noteq> ''api_sync_v2'' \<Longrightarrow> \<not> isl (read_reply (fst (welcoming_server r n)))"
  using granted [of m i r n] by (simp add: welcoming_server_def asks_def)

lemma welcomed_stop:
  assumes "cx_ready cx" "cx_ports cx = []"
  obtains cx' where "StopCmd_Run (sample_cli welcoming_server) \<lparr>pc_ports = [2], pc_force = True\<rparr> cx = (Inr (), cx')"
    "map pt_id (cx_ports cx') = [2]"
proof -
  let ?e = "sample_cli welcoming_server"
  have ln: "linked (ce_rpc ?e) welcoming_server"
    by (rule cli_linked_rpc [OF sample_cli_linked(1)])
  obtain r cx1 where a: "acquirePorts ?e [2] True cx = (r, cx1)" by fastforce
  obtain rs where rs: "exchanged welcoming_server (cx_conn cx) rs (cx_conn cx1)" "list_all no_traffic rs"
    "list_all2 (asks ''acquire'') (take (length rs) [2]) rs" "length rs \<le> length [2::int]"
    "case r of
       Inr _ \<Rightarrow> length rs = length [2::int] \<and> map pt_id (cx_ports cx1) = [2] \<and>
         list_all (Not \<circ> isl) (replies welcoming_server rs (lk_server (cn_world (cx_conn cx))))
     | Inl _ \<Rightarrow> cx_ports cx1 = cx_ports cx \<and>
         (\<exists>k. map isl (replies welcoming_server rs (lk_server (cn_world (cx_conn cx)))) = replicate k False @ [True])"
    by (rule acquirePorts_exchange [OF ln assms(1) a])
  have "r = Inr ()"
    using rs(3-5) welcomed by (cases r; cases rs) (auto simp: append_eq_Cons_conv)
  then obtain p where p: "cx_ports cx1 = [p]" "pt_id p = 2"
    using rs(5) by (auto simp: map_eq_Cons_conv)
  obtain r1 c1 where st: "Stop (ce_rpc ?e) p (cx_conn cx1) = (r1, c1)" by fastforce
  obtain r2 where "asks ''stop_traffic'' (pt_id p) r2"
    "isl r1 \<longleftrightarrow> isl (read_reply (fst (welcoming_server r2 (lk_server (cn_world (cx_conn cx1))))))"
    by (rule Stop_exchange [OF ln exchanged_ready [OF rs(1)] st])
  then have "r1 = Inr ()"
    using welcomed by (cases r1) auto
  then show thesis
    using that a \<open>r = Inr ()\<close> st p assms(2) by (simp add: StopCmd_Run_def put_text_def)
qed

lemma welcomed_handshake:
  obtains c0 where "Handshake (ce_rpc (sample_cli welcoming_server)) ''STL'' 5 1
      \<lparr>cn_world = \<lparr>lk_server = 0, lk_reply = None, lk_log = []\<rparr>, cn_idCounter = 0, cn_apiH = []\<rparr> = (Inr (), c0)"
    "lk_reply (cn_world c0) = None"
proof -
  let ?c = "\<lparr>cn_world = \<lparr>lk_server = 0, lk_reply = None, lk_log = []\<rparr>, cn_idCounter = 0, cn_apiH = []\<rparr> :: nat link conn"
  let ?ps = "Some [(''name'', Some (JStr ''STL'')), (''major'', Some (JInt 5)), (''minor'', Some (JInt 1))]"
  have "params_ok ?ps" "lk_reply (cn_world ?c) = None"
    by (simp_all add: params_ok_def entries_def)
  then obtain r c1 where r: "Call (ce_rpc (sample_cli welcoming_server)) ''api_sync_v2'' ?ps ?c =
      (read_reply (fst (welcoming_server r (lk_server (cn_world ?c)))), c1)"
    "exchanged welcoming_server ?c [r] c1" "sends (cn_apiH ?c) (cn_idCounter ?c) ''api_sync_v2'' ?ps r"
    using linked_Call [OF cli_linked_rpc [OF sample_cli_linked(1)]] by metis
  have "read_reply (fst (welcoming_server r n)) = Inr (Some (JObj [(''api_h'', JStr ''h'')]))" for n
    using r(3) by (simp add: sends_def welcoming_server_def read_reply_def dec_response_def as_obj_def jget_def dec_str_def
        fold_key_def)
  then have "callLocked (ce_rpc (sample_cli welcoming_server)) ''api_sync_v2'' ?ps ?c = (Inr (Some (JObj [(''api_h'', JStr ''h'')])), c1)"
    using r(1) by (simp add: Call_def)
  then have "Handshake (ce_rpc (sample_cli welcoming_server)) ''STL'' 5 1 ?c = (Inr (), c1\<lparr>cn_apiH := ''h''\<rparr>)"
    by (simp add: Handshake_def as_obj_def jget_def dec_str_def fold_key_def)
  then show thesis
    by (rule that) (use exchanged_ready [OF r(2)] in simp)
qed

theorem main_releases_witness:
  "\<exists>cx hist ops r. main_process sample_main (ce_rpc (sample_cli welcoming_server)) sample_sockets 7 ''host''
      (\<lambda>_. (sample_cli welcoming_server, Inl ''no terminal'')) (\<lambda>_. []) (None, None)
      (CTraffic (TStop \<lparr>pc_ports = [2], pc_force = True\<rparr>)) [] ''closed'' = Some (MDone, Some (cx, hist), ops) \<and>
    asks ''release'' 2 r \<and> r \<in> set (lk_log (cn_world (cx_conn cx))) \<and> cx_ports cx = [] \<and> open_sockets ops {} = {}"
proof -
  let ?e = "sample_cli welcoming_server" and ?cmd = "CTraffic (TStop \<lparr>pc_ports = [2], pc_force = True\<rparr>)"
  let ?pe = "(?e, Inl ''no terminal'')" and ?sk = "sample_sockets"
  let ?h = "(NewHistory (historyPath None) None, None) :: history \<times> string option"
  let ?d = "\<lparr>cd_stats = NewStore, cd_events = NewEventBus\<rparr>"
  obtain c0 where c0: "Handshake (ce_rpc ?e) ''STL'' 5 1
      \<lparr>cn_world = \<lparr>lk_server = 0, lk_reply = None, lk_log = []\<rparr>, cn_idCounter = 0, cn_apiH = []\<rparr> = (Inr (), c0)"
    "lk_reply (cn_world c0) = None"
    by (rule welcomed_handshake)
  let ?cx = "\<lparr>cx_conn = c0, cx_disp = ?d, cx_ports = [], cx_out = []\<rparr>"
  have "cx_ready ?cx" "cx_ports ?cx = []"
    using c0(2) by simp_all
  from welcomed_stop [OF this] obtain cx1 where st:
    "StopCmd_Run ?e \<lparr>pc_ports = [2], pc_force = True\<rparr> ?cx = (Inr (), cx1)" "map pt_id (cx_ports cx1) = [2]" .
  have mc: "main_command sample_main ?pe ?cmd [] (?cx, Some ?h) = (Some MDone, cx1, Some ?h)"
    by (simp add: main_command_def on_context_def run_traffic_def st(1))
  obtain p ops where run: "main_process sample_main (ce_rpc ?e) ?sk 7 ''host'' (\<lambda>_. ?pe) (\<lambda>_. []) (None, None) ?cmd [] ''closed'' =
      Some (MDone, Some p, ops)"
    using c0(1) mc by (auto simp: main_process_def Connect_def Dial_def NewSubscriber_def sample_sockets_def Let_def APIClass_def
        APIMajor_def APIMinor_def main_run_def session_Close_def split: prod.splits)
  have hyps: "linked (ce_rpc ?e) welcoming_server"
    "\<forall>cl :: client. proc_linked welcoming_server ?pe \<and> inputs_linked welcoming_server []"
    "\<forall>ep w. sk_dial_req ?sk ep = Inr w \<longrightarrow> lk_reply w = None"
    using sample_cli_linked(1) cli_linked_rpc by (auto simp: proc_linked_def inputs_linked_def sample_sockets_def)
  obtain cx hist where p: "p = (cx, hist)" by fastforce
  obtain w c0' cx1' hist1 rel rs where m: "w = \<lparr>lk_server = 0, lk_reply = None, lk_log = []\<rparr>"
      "Handshake (ce_rpc ?e) ''STL'' 5 1 \<lparr>cn_world = w, cn_idCounter = 0, cn_apiH = []\<rparr> = (Inr (), c0')"
      "main_command sample_main ?pe ?cmd [] (\<lparr>cx_conn = c0', cx_disp = ?d, cx_ports = [], cx_out = []\<rparr>, Some ?h) =
         (Some MDone, cx1', hist1)"
      "exchanged welcoming_server (cx_conn cx1') (rel @ rs) (cx_conn cx)"
      "list_all2 (asks ''release'') (map pt_id (cx_ports cx1')) rel"
    and fin: "open_sockets ops {} = {}" "cx_ports cx = []"
    using main_releases [OF hyps run] by (auto simp: p sample_sockets_def)
  have "c0' = c0" "cx1' = cx1"
    using m(1-3) c0(1) mc by simp_all
  then obtain r where "rel = [r]" "asks ''release'' 2 r"
    using m(5) st(2) by (auto simp: list_all2_Cons1)
  then show ?thesis
    using run fin exchanged_log [OF m(4)] by (auto simp: p)
qed

end
