(* ===== verification/Spec2Isabelle.thy ===== *)
theory Spec2Isabelle
  imports Stl_Stream Rpc_Framing Rpc_Connection Rpc_Interleaving Rpc_Subscriber Stats_Store Stats_Pgid
    Session_Events Session_Client Session_Connect Session_Port Session_Wait Ndr_Search Ndr_Engine
    Dsl_Convert Dsl_Srh Dsl_Vm Dsl_Layers Dsl_Profile Dsl_Typing Load_Pcap Load_Snapshot Load_Profile
    Ndr_Log Ndr_Results Cli_Commands Cli_Report Cli_History Cli_Completion Cli_Session Cli_Shell Tui_App Tui_Menu Cli_Main Cli_Safety
begin

text \<open>
  A verification library for trex-client, a Go client of the TRex traffic generator. The
  client describes traffic as a profile of streams (\<open>src/pkg/stl\<close>, written in a YAML language,
  \<open>src/pkg/stl/dsl\<close>, or loaded from captures and snapshots, \<open>src/pkg/stl/loaders\<close>), talks JSON-RPC
  over ZeroMQ to a TRex server (\<open>src/pkg/rpc\<close>), keeps a session with ports, events and statistics
  (\<open>src/pkg/session\<close>, \<open>src/pkg/stats\<close>), searches the no-drop rate of a device under test
  (\<open>src/pkg/ndr\<close>), and is driven by commands, a shell and a dashboard (\<open>src/cmd/trexc\<close>,
  \<open>src/pkg/cli\<close>, \<open>src/pkg/tui\<close>).

  \<^bold>\<open>The language.\<close> \<open>Prelude\<close>: results with an error as sums, the loop that collects results,
  Go's integers (\<open>uint64\<close> is a word; \<open>int\<close> is an integer of HOL, wrapped by \<open>wrap64\<close> where the
  code computes with it). \<open>Float64\<close>: binary64 as the rationals it denotes (with one zero), every
  operation rounding to nearest; the locale \<open>rounding\<close> is its interface. \<open>Go_Strings\<close>,
  \<open>Go_Strconv\<close>, \<open>Go_Fmt\<close>, \<open>Go_Base64\<close>, \<open>Go_Binary\<close>, \<open>Go_Net\<close> and \<open>Json\<close>: what the code uses of the
  standard library. Strings are their bytes; JSON is modelled as values, and the text codec is a
  parameter of the connection.

  \<^bold>\<open>Profiles.\<close> \<open>Stl_Rate\<close> (rate.go, mode.go): parsing of rates such as 1.5gbps. \<open>Stl_Packet\<close>
  (packet.go): the table of layer offsets of a decoded packet and the resolution of symbolic
  field offsets, against the header formats of the protocols; gopacket's serializer and decoder are parameters. \<open>Stl_Vm\<close> (vm.go): field
  engine instructions and their JSON. \<open>Stl_Stream\<close> (stream.go): the allocation of stream ids,
  the resolution of next references, the wire objects and the flow statistics rules.

  \<^bold>\<open>Profile language and loaders.\<close> \<open>Dsl_Convert\<close> (convert.go), \<open>Dsl_Srh\<close> (srh.go), \<open>Dsl_Vm\<close> (vm.go),
  \<open>Dsl_Layers\<close> (layers.go) and \<open>Dsl_Profile\<close> (packet.go, mode.go, dsl.go): from decoded YAML values
  and tunables to streams: layers that announce each other, checksums, segment routing headers,
  field engine programs, packet size mixes; \<open>Dsl_Typing\<close> shows the streams well-typed.
  \<open>Load_Pcap\<close>, \<open>Load_Snapshot\<close> and \<open>Load_Profile\<close> (pcap.go, snapshot.go, load.go): streams that
  replay a capture, streams read back from the objects of an upload, and the choice between the
  formats. Reading files, the YAML decoder, text/template and the capture reader are parameters.

  \<^bold>\<open>RPC.\<close> \<open>Rpc_Framing\<close> (framing.go): zlib frames, with compress/zlib as a parameter.
  \<open>Rpc_Connection\<close> (jsonrpc.go, connection.go): requests, calls, batches and the handshake over
  a socket whose two operations are parameters. The abstract specification is \<open>abstract_call\<close>, one
  atomic transition of a server; the locale \<open>rpc_caller\<close> states what clients use of it.
  \<open>Rpc_Interleaving\<close> has the goroutines that share a connection: every operation takes the mutex,
  builds, frames, sends, receives and parses in steps that interleave with the others; sending and
  receiving may block for ever, with the mutex held. The locale \<open>critical_section\<close> shows for any
  section under a mutex that it acts as one step, takes a bounded number of steps and is stuck only
  behind an action that blocks, which is why the other theories take a call that returns as one
  step. \<open>Rpc_Subscriber\<close> (subscriber.go): the loop over published messages, with the locale
  \<open>dispatcher\<close> for its client.

  \<^bold>\<open>Statistics and session.\<close> \<open>Stats_Store\<close> (store.go, global.go) and \<open>Stats_Pgid\<close> (pgid.go):
  the event store, counters relative to a clear, exact counters per flow group (the order of
  Go's map iteration is a parameter). \<open>Session_Events\<close> (events.go): the event bus with its
  buffered channels as a step relation. \<open>Session_Connect\<close> (client.go, \<open>Dial\<close>, \<open>NewSubscriber\<close>):
  connecting and closing, with the operations on sockets in order. \<open>Session_Client\<close> (client.go):
  dispatching, queries, the barrier. \<open>Session_Port\<close> (port.go, status.go): the operations of a port
  and their contract. \<open>Session_Wait\<close> (port.go): the waiter for timed traffic, in any interleaving
  with the publisher, the other users of the bus and the end of its context.

  \<^bold>\<open>No-drop rate.\<close> \<open>Ndr_Search\<close> (engine.go, \<open>search\<close>): bisection with rounding, convergence to
  the threshold of a device and the number of measurements; the locales \<open>measurement\<close>,
  \<open>recorded_measurement\<close> and \<open>keeping_measurement\<close> state what it needs and are interpreted on
  the engine. \<open>Ndr_Engine\<close> (engine.go, config.go, results.go): runs, ramp-up, evaluation, both
  searches; the other goroutines act during the sleeps of the engine, which are parameters.
  \<open>Ndr_Results\<close> (results.go): the report as text and as JSON. \<open>Ndr_Log\<close>: the lines a search writes
  while it runs.

  \<^bold>\<open>Command line.\<close> \<open>Cli_Commands\<close> (commands.go): the traffic commands over a context that holds the
  acquired ports, the connection and what was written. \<open>Cli_Session\<close> shows what they make a server
  see, over the link of \<open>Rpc_Connection\<close> to any server, and \<open>Cli_Report\<close> what the search command
  writes. \<open>Cli_History\<close> (history.go) and
  \<open>Cli_Completion\<close> (completion.go, lscolors.go, the grammar of commands.go as the tree that kong
  builds). \<open>Cli_Shell\<close> (cli.go, shell.go): dispatching a line and the loop of the shell, with the
  locale \<open>shell_step\<close> for what a command keeps. \<open>Cli_Main\<close> (main.go): the process, from connecting
  to the release of its ports and the end of its session; \<open>Cli_Safety\<close> shows that both happen
  whatever ran before.

  \<^bold>\<open>Dashboard.\<close> \<open>Tui_App\<close> (app.go): the state of the dashboard and its events as steps.
  \<open>Tui_View\<close> (view.go, lscolors.go): what it draws, as the list of the calls of the window library,
  whose windows are a parameter. \<open>Tui_Menu\<close>: the invariant of the reachable states, and what the
  user sees of the completion menu.

  \<^bold>\<open>Bounds and fuel.\<close> No definition takes fuel. The loop that probes for a free stream id is
  bounded by the number of streams, which is shown to be enough; the ramp of a run is bounded by
  its number of steps; receive loops, the shell and the dashboard are functions of the inputs they
  consume.

  \<^bold>\<open>Not modelled.\<close> The third-party libraries (ZeroMQ, gopacket, YAML, kong, readline, vaxis),
  text/template and compress/zlib are parameters. Starting goroutines, signals and timers appear
  only as the steps they cause. The texts of errors other than those of the server, the accessors
  of a session and the registration of decoders and key bindings with libraries are left out.
\<close>

end
